(* ===== verification/Krot_Prelude.thy ===== *)
theory Krot_Prelude
  imports Main "HOL-Library.Word"
begin

text \<open>
  What the whole development shares: the names of the model's basic types, the result
  type of fallible code with its sequencing operator, the big-endian codecs of the Go
  package encoding/binary (the standard library, written as its source writes them), the
  collections of hints and a few lemmas on lists and maps that no library theory has.

  Conventions. A Go byte slice or array is a list of 8-bit words. A Go string is a
  \<^typ>\<open>string\<close>: both are sequences of 8-bit characters. A Go int is an \<^typ>\<open>int\<close>
  where the code cannot overflow it and a word of its width where it can. A function that
  returns a value and an error returns a sum: \<^term>\<open>Inl\<close> the error, \<^term>\<open>Inr\<close> the value.
\<close>

unbundle bit_operations_syntax

type_synonym byte = "8 word"
type_synonym bytes = "byte list"

named_theorems wire_simps
  "lengths and round trips of the encoders"

section \<open>Results of fallible code\<close>

text \<open>The Go idiom: run a call, return at once when it fails, else go on with its value.\<close>

definition try_bind :: "'e + 'a \<Rightarrow> ('a \<Rightarrow> 'e + 'b) \<Rightarrow> 'e + 'b" where
  "try_bind r f = (case r of Inl e \<Rightarrow> Inl e | Inr a \<Rightarrow> f a)"

lemma try_bind_simps [simp]:
  "try_bind (Inl e) f = Inl e"
  "try_bind (Inr a) f = f a"
  by (simp_all add: try_bind_def)

lemma try_bind_Inr_iff:
  "try_bind r f = Inr b \<longleftrightarrow> (\<exists>a. r = Inr a \<and> f a = Inr b)"
  by (cases r) auto

text \<open>A third-party call that returns \<^term>\<open>None\<close> on failure, with the caller's error for it.\<close>

definition or_err :: "'e \<Rightarrow> 'a option \<Rightarrow> 'e + 'a" where
  "or_err e r = (case r of None \<Rightarrow> Inl e | Some a \<Rightarrow> Inr a)"

lemma or_err_simps [simp]:
  "or_err e None = Inl e"
  "or_err e (Some a) = Inr a"
  by (simp_all add: or_err_def)

lemma or_err_Inr_iff [simp]: "or_err e r = Inr a \<longleftrightarrow> r = Some a"
  by (cases r) auto

section \<open>Big-endian codecs of encoding/binary\<close>

definition PutUint16 :: "16 word \<Rightarrow> bytes" where
  "PutUint16 v = [ucast (drop_bit 8 v), ucast v]"

definition Uint16 :: "bytes \<Rightarrow> 16 word" where
  "Uint16 b = ucast (b ! 1) OR push_bit 8 (ucast (b ! 0))"

definition PutUint32 :: "32 word \<Rightarrow> bytes" where
  "PutUint32 v =
     [ucast (drop_bit 24 v), ucast (drop_bit 16 v), ucast (drop_bit 8 v), ucast v]"

definition Uint32 :: "bytes \<Rightarrow> 32 word" where
  "Uint32 b = ucast (b ! 3) OR push_bit 8 (ucast (b ! 2))
     OR push_bit 16 (ucast (b ! 1)) OR push_bit 24 (ucast (b ! 0))"

definition PutUint64 :: "64 word \<Rightarrow> bytes" where
  "PutUint64 v =
     [ucast (drop_bit 56 v), ucast (drop_bit 48 v), ucast (drop_bit 40 v),
      ucast (drop_bit 32 v), ucast (drop_bit 24 v), ucast (drop_bit 16 v),
      ucast (drop_bit 8 v), ucast v]"

lemma length_PutUint [simp, wire_simps]:
  "length (PutUint16 v) = 2" "length (PutUint32 x) = 4" "length (PutUint64 y) = 8"
  by (simp_all add: PutUint16_def PutUint32_def PutUint64_def)

lemma Uint16_PutUint16 [simp, wire_simps]: "Uint16 (PutUint16 v) = v"
  unfolding Uint16_def PutUint16_def
  by (rule bit_word_eqI) (auto simp: bit_simps)

lemma Uint32_PutUint32 [simp, wire_simps]: "Uint32 (PutUint32 v) = v"
proof (rule bit_word_eqI)
  fix n assume "n < LENGTH(32)"
  then have n: "n < 32" by simp
  then consider "n < 8" | "8 \<le> n" "n < 16" | "16 \<le> n" "n < 24" | "24 \<le> n" by linarith
  then show "bit (Uint32 (PutUint32 v)) n \<longleftrightarrow> bit v n"
    by cases (use n in \<open>auto simp: bit_simps Uint32_def PutUint32_def\<close>)
qed

text \<open>Nothing decodes a 64-bit value in the code: for it the encoding's injectivity suffices.\<close>

lemma byte_at_eq:
  fixes v v' :: "64 word"
  assumes "(ucast (drop_bit k v) :: byte) = ucast (drop_bit k v')" and "k \<le> n" and "n < k + 8"
  shows "bit v n \<longleftrightarrow> bit v' n"
proof -
  from assms(1) have "bit (ucast (drop_bit k v) :: byte) (n - k)
      \<longleftrightarrow> bit (ucast (drop_bit k v') :: byte) (n - k)" by simp
  moreover from assms(2,3) have "n - k < 8" by linarith
  ultimately show ?thesis using assms(2) by (simp add: bit_simps)
qed

lemma PutUint64_inj: "PutUint64 v = PutUint64 v' \<longleftrightarrow> v = v'"
proof
  assume "PutUint64 v = PutUint64 v'"
  then have e: "(ucast (drop_bit k v) :: byte) = ucast (drop_bit k v')"
    if "k \<in> {0, 8, 16, 24, 32, 40, 48, 56}" for k
    using that by (auto simp: PutUint64_def)
  show "v = v'"
  proof (rule bit_word_eqI)
    fix n assume "n < LENGTH(64)"
    then have "n < 64" by simp
    then have "8 * (n div 8) \<in> {0, 8, 16, 24, 32, 40, 48, 56}" by force
    from byte_at_eq [OF e [OF this], of n] show "bit v n \<longleftrightarrow> bit v' n"
      by (simp add: div_mult_mod_eq [symmetric])
  qed
qed simp

lemma PutUint32_Uint32 [wire_simps]:
  "PutUint32 (Uint32 [a, b, c, d]) = [a, b, c, d]"
proof -
  have "ucast (drop_bit 24 (Uint32 [a, b, c, d])) = a"
    by (rule bit_word_eqI) (auto simp: bit_simps Uint32_def dest: bit_imp_le_length)
  moreover have "ucast (drop_bit 16 (Uint32 [a, b, c, d])) = b"
    by (rule bit_word_eqI) (auto simp: bit_simps Uint32_def dest: bit_imp_le_length)
  moreover have "ucast (drop_bit 8 (Uint32 [a, b, c, d])) = c"
    by (rule bit_word_eqI) (auto simp: bit_simps Uint32_def dest: bit_imp_le_length)
  moreover have "ucast (Uint32 [a, b, c, d]) = d"
    by (rule bit_word_eqI) (auto simp: bit_simps Uint32_def dest: bit_imp_le_length)
  ultimately show ?thesis by (simp add: PutUint32_def)
qed

lemma PutUint16_Uint16 [wire_simps]: "PutUint16 (Uint16 [a, b]) = [a, b]"
proof -
  have "ucast (drop_bit 8 (Uint16 [a, b])) = a"
    by (rule bit_word_eqI) (auto simp: bit_simps Uint16_def dest: bit_imp_le_length)
  moreover have "ucast (Uint16 [a, b]) = b"
    by (rule bit_word_eqI) (auto simp: bit_simps Uint16_def dest: bit_imp_le_length)
  ultimately show ?thesis by (simp add: PutUint16_def)
qed

lemma PutUint16_inj: "PutUint16 v = PutUint16 v' \<longleftrightarrow> v = v'"
  by (metis Uint16_PutUint16)

lemma PutUint32_inj: "PutUint32 x = PutUint32 x' \<longleftrightarrow> x = x'"
  by (metis Uint32_PutUint32)

lemma Uint16_of_nat: "n < 65536 \<Longrightarrow> unat (of_nat n :: 16 word) = n"
  by (simp add: unat_of_nat)

section \<open>Lists and maps\<close>

text \<open>The first \<open>length a\<close> elements of a message whose header has that length.\<close>

lemma append_eq_same_length:
  "length a = length b \<Longrightarrow> a @ xs = b @ ys \<longleftrightarrow> a = b \<and> xs = ys"
  by simp

lemma dom_restrict_upd [simp]: "dom (m(k := None)) = dom m - {k}"
  by auto

lemma filter_neq_id: "x \<notin> set xs \<Longrightarrow> filter (\<lambda>y. y \<noteq> x) xs = xs"
  by (induction xs) auto

end
