(* ===== verification/Krot_Link.thy ===== *)
theory Krot_Link
  imports Krot_Prelude
begin

text \<open>
  The contract of a one-directional encrypted link, stated once for the three layers that
  have it: the AEAD stream of internal/crypto, the padded records of internal/frame on top
  of it, and the packets of internal/transport on top of those. A sender turns a message
  into a wire unit and moves on, a receiver turns the unit back into (a view of) the
  message and moves on, and the two stay in lockstep. Each layer interprets the locale on
  its own operations.
\<close>

section \<open>Running a sender and a receiver\<close>

text \<open>Send a list of messages, stopping at the first error.\<close>

fun send_all ::
  "('s \<Rightarrow> 'm \<Rightarrow> ('e + 'w) \<times> 's) \<Rightarrow> 's \<Rightarrow> 'm list \<Rightarrow> 'e + ('w list \<times> 's)" where
  "send_all send s [] = Inr ([], s)"
| "send_all send s (m # ms) =
     (case send s m of
        (Inl e, s') \<Rightarrow> Inl e
      | (Inr w, s') \<Rightarrow>
          (case send_all send s' ms of Inl e \<Rightarrow> Inl e | Inr (ws, s'') \<Rightarrow> Inr (w # ws, s'')))"

text \<open>
  Send a list of messages, dropping those whose send fails and going on: the wire units,
  the messages they carry, and the state at the end.
\<close>

fun send_some ::
  "('s \<Rightarrow> 'm \<Rightarrow> ('e + 'w) \<times> 's) \<Rightarrow> 's \<Rightarrow> 'm list \<Rightarrow> 'w list \<times> 'm list \<times> 's" where
  "send_some send s [] = ([], [], s)"
| "send_some send s (m # ms) =
     (case send s m of
        (Inl e, s') \<Rightarrow> send_some send s' ms
      | (Inr w, s') \<Rightarrow> (let (ws, sent, s'') = send_some send s' ms in (w # ws, m # sent, s'')))"

text \<open>Receive a list of wire units, stopping at the first error.\<close>

fun recv_all ::
  "('r \<Rightarrow> 'w \<Rightarrow> ('e + 'n) \<times> 'r) \<Rightarrow> 'r \<Rightarrow> 'w list \<Rightarrow> 'e + ('n list \<times> 'r)" where
  "recv_all recv r [] = Inr ([], r)"
| "recv_all recv r (w # ws) =
     (case recv r w of
        (Inl e, r') \<Rightarrow> Inl e
      | (Inr n, r') \<Rightarrow>
          (case recv_all recv r' ws of Inl e \<Rightarrow> Inl e | Inr (ns, r'') \<Rightarrow> Inr (n # ns, r'')))"

lemma send_all_Cons_Inr:
  "send_all send s (m # ms) = Inr (us, s'') \<longleftrightarrow>
     (\<exists>w s' ws. send s m = (Inr w, s') \<and> send_all send s' ms = Inr (ws, s'') \<and> us = w # ws)"
  by (auto split: sum.splits prod.splits)

section \<open>Lockstep\<close>

locale lockstep =
  fixes send :: "'s \<Rightarrow> 'm \<Rightarrow> ('e + 'w) \<times> 's"
    and recv :: "'r \<Rightarrow> 'w \<Rightarrow> ('f + 'n) \<times> 'r"
    and insync :: "'s \<Rightarrow> 'r \<Rightarrow> bool"
    and view :: "'m \<Rightarrow> 'n"
  assumes recv_send:
    "insync s r \<Longrightarrow> send s m = (Inr w, s') \<Longrightarrow> \<exists>r'. recv r w = (Inr (view m), r') \<and> insync s' r'"
begin

text \<open>Whatever was sent arrives, in order, and the two ends are in step again.\<close>

lemma recv_all_send_all:
  "insync s r \<Longrightarrow> send_all send s ms = Inr (ws, s') \<Longrightarrow>
   \<exists>r'. recv_all recv r ws = Inr (map view ms, r') \<and> insync s' r'"
proof (induction ms arbitrary: s r ws)
  case Nil
  then show ?case by auto
next
  case (Cons m ms)
  from Cons.prems(2) obtain w s1 ws1 where
    w: "send s m = (Inr w, s1)" and rest: "send_all send s1 ms = Inr (ws1, s')" "ws = w # ws1"
    by (auto simp only: send_all_Cons_Inr)
  from recv_send [OF Cons.prems(1) w] obtain r1 where
    r1: "recv r w = (Inr (view m), r1)" "insync s1 r1" by blast
  from Cons.IH [OF r1(2) rest(1)] r1(1) rest(2) show ?case by auto
qed

end

text \<open>A link whose failed sends leave the two ends in step can go on after one.\<close>

locale lockstep_retry = lockstep send recv insync view
  for send :: "'s \<Rightarrow> 'm \<Rightarrow> ('e + 'w) \<times> 's"
    and recv :: "'r \<Rightarrow> 'w \<Rightarrow> ('f + 'n) \<times> 'r"
    and insync :: "'s \<Rightarrow> 'r \<Rightarrow> bool"
    and view :: "'m \<Rightarrow> 'n" +
  assumes send_err: "insync s r \<Longrightarrow> send s m = (Inl e, s') \<Longrightarrow> insync s' r"
begin

lemma recv_all_send_some:
  "insync s r \<Longrightarrow> send_some send s ms = (ws, sent, s') \<Longrightarrow>
   \<exists>r'. recv_all recv r ws = Inr (map view sent, r') \<and> insync s' r'"
proof (induction ms arbitrary: s r ws sent)
  case Nil
  then show ?case by auto
next
  case (Cons m ms)
  obtain res s1 where sm: "send s m = (res, s1)" by (cases "send s m")
  show ?case
  proof (cases res)
    case (Inl e)
    with sm have "insync s1 r" using send_err [OF Cons.prems(1)] by simp
    moreover from Cons.prems(2) sm Inl have "send_some send s1 ms = (ws, sent, s')" by simp
    ultimately show ?thesis by (rule Cons.IH)
  next
    case (Inr w)
    obtain ws1 sent1 where rest: "send_some send s1 ms = (ws1, sent1, s')"
      and eq: "ws = w # ws1" "sent = m # sent1"
      using Cons.prems(2) sm Inr by (auto split: prod.splits)
    from recv_send [OF Cons.prems(1)] sm Inr obtain r1 where
      r1: "recv r w = (Inr (view m), r1)" "insync s1 r1" by blast
    from Cons.IH [OF r1(2) rest] r1(1) eq show ?thesis by auto
  qed
qed

end

end
