(* ===== verification/Go_Text.thy ===== *)
theory Go_Text
  imports Krot_Prelude
begin

text \<open>
  The text codecs of the Go standard library that the code calls: decimal numbers
  (strconv.Itoa, strconv.Atoi, strconv.ParseInt with base 10 and 64 bits, and the verb
  \<open>%d\<close>), base64 (encoding/base64: StdEncoding with padding and RawURLEncoding without) and
  the cut at a separator of package strings. Each printer has its round trip through the
  parser.
\<close>

section \<open>Characters and bytes\<close>

definition byte_of :: "char \<Rightarrow> byte" where
  "byte_of c = of_nat (of_char c)"

definition char_at :: "nat \<Rightarrow> char" where
  "char_at n = char_of n"

text \<open>The conversions \<open>[]byte(s)\<close> and \<open>string(b)\<close>.\<close>

definition bytes_of :: "string \<Rightarrow> bytes" where
  "bytes_of s = map byte_of s"

definition string_of :: "bytes \<Rightarrow> string" where
  "string_of b = map (\<lambda>w. char_of (unat w)) b"

lemma length_bytes_of [simp]: "length (bytes_of s) = length s"
  by (simp add: bytes_of_def)

lemma length_string_of [simp]: "length (string_of b) = length b"
  by (simp add: string_of_def)

lemma unat_byte_less [simp]: "unat (a :: byte) < 256"
  using unsigned_less [of a] by simp

lemma byte_of_char_of_unat [simp]: "byte_of (char_of (unat w)) = w"
  by (simp add: byte_of_def)

lemma bytes_of_string_of [simp]: "bytes_of (string_of b) = b"
  by (simp add: bytes_of_def string_of_def comp_def)

lemma string_of_inj: "string_of a = string_of b \<longleftrightarrow> a = b"
  by (metis bytes_of_string_of)

section \<open>Decimal numbers\<close>

definition digit_char :: "nat \<Rightarrow> char" where
  "digit_char d = char_of (48 + d)"

definition digit_val :: "char \<Rightarrow> nat option" where
  "digit_val c = (let n = (of_char c :: nat) in if 48 \<le> n \<and> n \<le> 57 then Some (n - 48) else None)"

lemma digit_val_digit_char [simp]: "d < 10 \<Longrightarrow> digit_val (digit_char d) = Some d"
  by (simp add: digit_val_def digit_char_def)

lemma digit_char_inj: "d < 10 \<Longrightarrow> e < 10 \<Longrightarrow> digit_char d = digit_char e \<longleftrightarrow> d = e"
  by (metis digit_val_digit_char option.inject)

lemma digit_char_neq:
  assumes "d < 10" and "digit_val c = None"
  shows "digit_char d \<noteq> c"
  using assms by auto

fun dec_nat :: "nat \<Rightarrow> string" where
  "dec_nat n = (if n < 10 then [digit_char n] else dec_nat (n div 10) @ [digit_char (n mod 10)])"

declare dec_nat.simps [simp del]

definition dec_int :: "int \<Rightarrow> string" where
  "dec_int i = (if i < 0 then CHR ''-'' # dec_nat (nat (- i)) else dec_nat (nat i))"

text \<open>The digit loop of ParseUint: every character is a digit, read left to right.\<close>

fun parse_digits :: "nat \<Rightarrow> string \<Rightarrow> nat option" where
  "parse_digits acc [] = Some acc"
| "parse_digits acc (c # cs) =
     (case digit_val c of None \<Rightarrow> None | Some d \<Rightarrow> parse_digits (10 * acc + d) cs)"

lemma parse_digits_append:
  "parse_digits acc (xs @ ys) =
     (case parse_digits acc xs of None \<Rightarrow> None | Some a \<Rightarrow> parse_digits a ys)"
  by (induction xs arbitrary: acc) (auto split: option.splits)

lemma parse_digits_dec_nat [simp]: "parse_digits 0 (dec_nat n) = Some n"
proof (induction n rule: dec_nat.induct)
  case (1 n)
  show ?case
  proof (cases "n < 10")
    case True
    then show ?thesis by (simp add: dec_nat.simps)
  next
    case False
    with 1 have "parse_digits 0 (dec_nat (n div 10)) = Some (n div 10)" by simp
    with False show ?thesis by (subst dec_nat.simps) (simp add: parse_digits_append)
  qed
qed

lemma dec_nat_digits: "c \<in> set (dec_nat n) \<Longrightarrow> \<exists>d<10. c = digit_char d"
proof (induction n rule: dec_nat.induct)
  case (1 n)
  show ?case
  proof (cases "n < 10")
    case True
    with 1 show ?thesis by (auto simp: dec_nat.simps)
  next
    case False
    with 1 have "c \<in> set (dec_nat (n div 10)) \<or> c = digit_char (n mod 10)"
      by (auto simp: dec_nat.simps [of n])
    then show ?thesis
    proof
      assume "c = digit_char (n mod 10)"
      then show ?thesis by (intro exI [of _ "n mod 10"]) simp
    qed (use 1 False in simp)
  qed
qed

lemma dec_nat_not_Nil [simp]: "dec_nat n \<noteq> []"
  by (subst dec_nat.simps) simp

lemma dec_nat_no_char: "digit_val c = None \<Longrightarrow> c \<notin> set (dec_nat n)"
  using dec_nat_digits digit_char_neq by blast

lemma dec_nat_inj: "dec_nat m = dec_nat n \<longleftrightarrow> m = n"
  by (metis option.inject parse_digits_dec_nat)

text \<open>
  strconv.ParseInt(s, 10, 64): an optional sign, then at least one digit, then the range of
  int64. strconv.Atoi accepts the same strings, Go's int being 64 bits on the platforms the
  program is built for (linux amd64 and arm64).
\<close>

definition signed_range :: "int \<Rightarrow> int option" where
  "signed_range i = (if - (2 ^ 63) \<le> i \<and> i < 2 ^ 63 then Some i else None)"

definition parse_unsigned :: "string \<Rightarrow> nat option" where
  "parse_unsigned s = (if s = [] then None else parse_digits 0 s)"

definition ParseInt64 :: "string \<Rightarrow> int option" where
  "ParseInt64 s = (case s of
       [] \<Rightarrow> None
     | c # cs \<Rightarrow>
         if c = CHR ''-'' then
           (case parse_unsigned cs of None \<Rightarrow> None | Some n \<Rightarrow> signed_range (- int n))
         else
           (case parse_unsigned (if c = CHR ''+'' then cs else s) of
              None \<Rightarrow> None | Some n \<Rightarrow> signed_range (int n)))"

definition Atoi :: "string \<Rightarrow> int option" where
  "Atoi s = ParseInt64 s"

lemma parse_unsigned_dec_nat [simp]: "parse_unsigned (dec_nat n) = Some n"
  by (simp add: parse_unsigned_def)

lemma ParseInt64_dec_int [simp]:
  assumes "- (2 ^ 63) \<le> i" and "i < 2 ^ 63"
  shows "ParseInt64 (dec_int i) = Some i"
proof (cases "i < 0")
  case True
  with assms show ?thesis
    by (simp add: ParseInt64_def dec_int_def signed_range_def)
next
  case False
  obtain c cs where d: "dec_nat (nat i) = c # cs"
    by (cases "dec_nat (nat i)") auto
  then have "c \<in> set (dec_nat (nat i))" by simp
  then have "c \<noteq> CHR ''-''" and "c \<noteq> CHR ''+''"
    using dec_nat_no_char by (auto simp: digit_val_def)
  moreover have "parse_unsigned (c # cs) = Some (nat i)"
    using parse_unsigned_dec_nat [of "nat i"] by (simp only: d)
  ultimately show ?thesis
    using False assms by (simp add: ParseInt64_def dec_int_def signed_range_def d)
qed

lemma ParseInt64_range:
  "ParseInt64 s = Some i \<Longrightarrow> - (2 ^ 63) \<le> i \<and> i < 2 ^ 63"
  by (auto simp: ParseInt64_def signed_range_def split: list.splits option.splits if_splits)

section \<open>Base64\<close>

definition std_alphabet :: string where
  "std_alphabet =
     ''ABCDEFGHIJKLMNOPQRSTUVWXYZabcdefghijklmnopqrstuvwxyz0123456789+/''"

definition url_alphabet :: string where
  "url_alphabet =
     ''ABCDEFGHIJKLMNOPQRSTUVWXYZabcdefghijklmnopqrstuvwxyz0123456789-_''"

text \<open>The position of a character in the alphabet (the decoder's table, built from it).\<close>

fun index_of :: "char \<Rightarrow> string \<Rightarrow> nat option" where
  "index_of c [] = None"
| "index_of c (x # xs) = (if x = c then Some 0 else map_option Suc (index_of c xs))"

lemma index_of_nth:
  "distinct xs \<Longrightarrow> i < length xs \<Longrightarrow> index_of (xs ! i) xs = Some i"
proof (induction xs arbitrary: i)
  case (Cons x xs)
  then show ?case by (cases i) auto
qed simp

lemma index_of_less: "index_of c xs = Some i \<Longrightarrow> i < length xs"
  by (induction xs arbitrary: i) (auto split: if_splits)

text \<open>
  A quantum is three bytes and four sextets. The last quantum may be short: two sextets for
  one byte, three for two, then the padding where the encoding has one.
\<close>

fun b64_encode :: "string \<Rightarrow> bool \<Rightarrow> bytes \<Rightarrow> string" where
  "b64_encode al pad [] = []"
| "b64_encode al pad [a] =
     [al ! (unat a div 4), al ! ((unat a mod 4) * 16)] @ (if pad then ''=='' else '''')"
| "b64_encode al pad [a, b] =
     [al ! (unat a div 4), al ! ((unat a mod 4) * 16 + unat b div 16),
      al ! ((unat b mod 16) * 4)] @ (if pad then ''='' else '''')"
| "b64_encode al pad (a # b # c # rest) =
     [al ! (unat a div 4), al ! ((unat a mod 4) * 16 + unat b div 16),
      al ! ((unat b mod 16) * 4 + unat c div 64), al ! (unat c mod 64)]
     @ b64_encode al pad rest"

definition sextets1 :: "nat \<Rightarrow> nat \<Rightarrow> byte" where
  "sextets1 x y = of_nat (x * 4 + y div 16)"

definition sextets2 :: "nat \<Rightarrow> nat \<Rightarrow> byte" where
  "sextets2 y z = of_nat ((y mod 16) * 16 + z div 4)"

definition sextets3 :: "nat \<Rightarrow> nat \<Rightarrow> byte" where
  "sextets3 z w = of_nat ((z mod 4) * 64 + w)"

text \<open>
  The decoder is Go's default, which is not strict: the unused low bits of the last
  sextet are ignored. Its loop is over quanta; carriage returns and newlines
  are skipped wherever they stand, so they are dropped first. A padding character ends the
  input: two of them after two sextets, one after three, and nothing after them.
\<close>

fun b64_quanta :: "string \<Rightarrow> bool \<Rightarrow> string \<Rightarrow> bytes option" where
  "b64_quanta al pad [] = Some []"
| "b64_quanta al pad [a] = None"
| "b64_quanta al pad [a, b] =
     (if pad then None
      else case (index_of a al, index_of b al) of
        (Some x, Some y) \<Rightarrow> Some [sextets1 x y]
      | _ \<Rightarrow> None)"
| "b64_quanta al pad [a, b, c] =
     (if pad then None
      else case (index_of a al, index_of b al, index_of c al) of
        (Some x, Some y, Some z) \<Rightarrow> Some [sextets1 x y, sextets2 y z]
      | _ \<Rightarrow> None)"
| "b64_quanta al pad (a # b # c # d # rest) =
     (case (index_of a al, index_of b al) of
        (Some x, Some y) \<Rightarrow>
          if pad \<and> c = CHR ''='' then
            (if d = CHR ''='' \<and> rest = [] then Some [sextets1 x y] else None)
          else (case index_of c al of
            None \<Rightarrow> None
          | Some z \<Rightarrow>
              if pad \<and> d = CHR ''='' then
                (if rest = [] then Some [sextets1 x y, sextets2 y z] else None)
              else (case index_of d al of
                None \<Rightarrow> None
              | Some w \<Rightarrow>
                  map_option (\<lambda>bs. sextets1 x y # sextets2 y z # sextets3 z w # bs)
                    (b64_quanta al pad rest)))
      | _ \<Rightarrow> None)"

definition b64_decode :: "string \<Rightarrow> bool \<Rightarrow> string \<Rightarrow> bytes option" where
  "b64_decode al pad s =
     b64_quanta al pad (filter (\<lambda>c. c \<noteq> CHR 0x0A \<and> c \<noteq> CHR 0x0D) s)"

definition StdEncodeToString :: "bytes \<Rightarrow> string" where
  "StdEncodeToString b = b64_encode std_alphabet True b"

definition StdDecodeString :: "string \<Rightarrow> bytes option" where
  "StdDecodeString s = b64_decode std_alphabet True s"

definition RawURLEncodeToString :: "bytes \<Rightarrow> string" where
  "RawURLEncodeToString b = b64_encode url_alphabet False b"

definition RawURLDecodeString :: "string \<Rightarrow> bytes option" where
  "RawURLDecodeString s = b64_decode url_alphabet False s"

subsection \<open>Round trip\<close>

text \<open>What the proofs need of an alphabet.\<close>

definition good_alphabet :: "string \<Rightarrow> bool" where
  "good_alphabet al \<longleftrightarrow> length al = 64 \<and> distinct al
     \<and> CHR ''='' \<notin> set al \<and> CHR 0x0A \<notin> set al \<and> CHR 0x0D \<notin> set al"

lemma good_std_alphabet: "good_alphabet std_alphabet"
  by (simp add: good_alphabet_def std_alphabet_def)

lemma good_url_alphabet: "good_alphabet url_alphabet"
  by (simp add: good_alphabet_def url_alphabet_def)

lemma sextet_bounds [simp]:
  fixes a b :: byte
  shows "unat a div 4 < 64" "(unat a mod 4) * 16 < 64" "(unat a mod 4) * 16 + unat b div 16 < 64"
    "(unat b mod 16) * 4 < 64" "(unat b mod 16) * 4 + unat a div 64 < 64" "unat a mod 64 < 64"
proof -
  have d: "unat a div 4 < 64" "unat b div 16 < 16" "unat a div 64 < 4"
    by (simp_all add: less_mult_imp_div_less)
  have m: "unat a mod 4 < 4" "unat b mod 16 < 16" by simp_all
  show "unat a div 4 < 64" "(unat a mod 4) * 16 < 64"
    "(unat a mod 4) * 16 + unat b div 16 < 64" "(unat b mod 16) * 4 < 64"
    "(unat b mod 16) * 4 + unat a div 64 < 64" "unat a mod 64 < 64"
    using d m by linarith+
qed

lemma join_hi:
  fixes x y :: nat
  assumes "y < 16" shows "x div 4 * 4 + ((x mod 4) * 16 + y) div 16 = x"
proof -
  from assms have "((x mod 4) * 16 + y) div 16 = x mod 4" by simp
  then show ?thesis by simp
qed

lemma join_mid:
  fixes b p z :: nat
  assumes "b < 256" "z < 4"
  shows "((p * 16 + b div 16) mod 16) * 16 + ((b mod 16) * 4 + z) div 4 = b"
proof -
  from assms(1) have "b div 16 < 16" by (simp add: less_mult_imp_div_less)
  then have "(p * 16 + b div 16) mod 16 = b div 16" by simp
  moreover from assms(2) have "((b mod 16) * 4 + z) div 4 = b mod 16" by simp
  ultimately show ?thesis by simp
qed

lemma join_lo:
  fixes c q :: nat
  assumes "c < 256" shows "((q * 4 + c div 64) mod 4) * 64 + c mod 64 = c"
proof -
  from assms have "c div 64 < 4" by (simp add: less_mult_imp_div_less)
  then have "(q * 4 + c div 64) mod 4 = c div 64" by simp
  then show ?thesis by simp
qed

lemma sextets_join [simp]:
  fixes a b c :: byte
  shows "sextets1 (unat a div 4) ((unat a mod 4) * 16 + unat b div 16) = a"
    and "sextets1 (unat a div 4) ((unat a mod 4) * 16) = a"
    and "sextets2 ((unat a mod 4) * 16 + unat b div 16) ((unat b mod 16) * 4 + unat c div 64) = b"
    and "sextets2 ((unat a mod 4) * 16 + unat b div 16) ((unat b mod 16) * 4) = b"
    and "sextets3 ((unat b mod 16) * 4 + unat c div 64) (unat c mod 64) = c"
proof -
  have d: "unat b div 16 < 16" "unat c div 64 < 4" by (simp_all add: less_mult_imp_div_less)
  show "sextets1 (unat a div 4) ((unat a mod 4) * 16 + unat b div 16) = a"
    unfolding sextets1_def using d(1) by (simp only: join_hi) simp
  show "sextets1 (unat a div 4) ((unat a mod 4) * 16) = a"
    unfolding sextets1_def using join_hi [of 0 "unat a"] by simp
  show "sextets2 ((unat a mod 4) * 16 + unat b div 16) ((unat b mod 16) * 4 + unat c div 64) = b"
    unfolding sextets2_def using d(2) by (simp only: join_mid unat_byte_less) simp
  show "sextets2 ((unat a mod 4) * 16 + unat b div 16) ((unat b mod 16) * 4) = b"
    unfolding sextets2_def using join_mid [of "unat b" 0 "unat a mod 4"] by simp
  show "sextets3 ((unat b mod 16) * 4 + unat c div 64) (unat c mod 64) = c"
    unfolding sextets3_def by (simp only: join_lo unat_byte_less) simp
qed

lemma good_alphabet_index [simp]:
  "good_alphabet al \<Longrightarrow> i < 64 \<Longrightarrow> index_of (al ! i) al = Some i"
  by (simp add: good_alphabet_def index_of_nth)

lemma good_alphabet_nth: "good_alphabet al \<Longrightarrow> i < 64 \<Longrightarrow> al ! i \<in> set al"
  by (simp add: good_alphabet_def)

lemma good_alphabet_neq [simp]:
  assumes "good_alphabet al" and "i < 64"
  shows "al ! i \<noteq> CHR ''=''" "al ! i \<noteq> CHR 0x0A" "al ! i \<noteq> CHR 0x0D"
proof -
  from assms have "al ! i \<in> set al" by (simp add: good_alphabet_def)
  with assms(1) show "al ! i \<noteq> CHR ''=''" "al ! i \<noteq> CHR 0x0A" "al ! i \<noteq> CHR 0x0D"
    by (auto simp: good_alphabet_def)
qed

lemma b64_quanta_encode:
  assumes "good_alphabet al"
  shows "b64_quanta al pad (b64_encode al pad bs) = Some bs"
  using assms by (induction al pad bs rule: b64_encode.induct) simp_all

lemma b64_encode_chars:
  assumes "good_alphabet al"
  shows "set (b64_encode al pad bs) \<subseteq> set al \<union> (if pad then {CHR ''=''} else {})"
  using assms
  by (induction al pad bs rule: b64_encode.induct)
    (auto simp: good_alphabet_nth)

lemma b64_decode_encode:
  assumes "good_alphabet al"
  shows "b64_decode al pad (b64_encode al pad bs) = Some bs"
proof -
  have "c \<noteq> CHR 0x0A \<and> c \<noteq> CHR 0x0D" if "c \<in> set (b64_encode al pad bs)" for c
    using that b64_encode_chars [OF assms, of pad bs] assms
    by (auto simp: good_alphabet_def split: if_splits)
  then have "filter (\<lambda>c. c \<noteq> CHR 0x0A \<and> c \<noteq> CHR 0x0D) (b64_encode al pad bs)
      = b64_encode al pad bs"
    by (simp add: filter_id_conv)
  then show ?thesis by (simp add: b64_decode_def b64_quanta_encode [OF assms])
qed

lemma Std_round_trip [simp, wire_simps]: "StdDecodeString (StdEncodeToString b) = Some b"
  by (simp add: StdDecodeString_def StdEncodeToString_def b64_decode_encode good_std_alphabet)

lemma RawURL_round_trip [simp, wire_simps]:
  "RawURLDecodeString (RawURLEncodeToString b) = Some b"
  by (simp add: RawURLDecodeString_def RawURLEncodeToString_def b64_decode_encode
      good_url_alphabet)

lemma RawURL_chars: "set (RawURLEncodeToString b) \<subseteq> set url_alphabet"
  using b64_encode_chars [OF good_url_alphabet, of False b]
  by (simp add: RawURLEncodeToString_def)

section \<open>Cutting strings\<close>

text \<open>strings.Cut at a one-character separator: before, after, and whether it occurs.\<close>

fun cut :: "char \<Rightarrow> string \<Rightarrow> string \<times> string \<times> bool" where
  "cut sep [] = ([], [], False)"
| "cut sep (c # cs) =
     (if c = sep then ([], cs, True)
      else (let (a, b, f) = cut sep cs in (c # a, b, f)))"

lemma cut_append [simp]: "sep \<notin> set a \<Longrightarrow> cut sep (a @ sep # b) = (a, b, True)"
  by (induction a) auto

lemma cut_no_sep [simp]: "sep \<notin> set a \<Longrightarrow> cut sep a = (a, [], False)"
  by (induction a) auto

lemma cut_length: "cut sep s = (a, b, f) \<Longrightarrow> length b \<le> length s"
  by (induction s arbitrary: a b f) (auto split: if_splits prod.splits intro: le_SucI)

lemma cut_length_less:
  "cut sep s = (a, b, f) \<Longrightarrow> s \<noteq> [] \<Longrightarrow> length b < length s"
proof (cases s)
  case (Cons c cs)
  then show "cut sep s = (a, b, f) \<Longrightarrow> length b < length s"
    by (auto split: if_splits prod.splits dest: cut_length intro: le_imp_less_Suc)
qed simp

end
