(* ===== verification/Krot_Crypto.thy ===== *)
theory Krot_Crypto
  imports Krot_Link Go_Text Go_Sha256
begin

text \<open>
  internal/crypto/crypto.go without its replay filter (\<open>Krot_Replay\<close>): key pairs and the
  Diffie-Hellman step, key derivation, the AEAD stream with counter nonces, the MAC and the
  constant-time comparison.

  What comes from golang.org/x/crypto is a parameter: a record of its three functions.
  Randomness is an argument of the function that draws it, with \<^term>\<open>None\<close> for a failing
  system generator.
\<close>

section \<open>The third-party primitives\<close>

text \<open>
  \<^item> \<open>cipher\<close> is the interface cipher.AEAD: Seal appends the ciphertext of a nonce, a
    plaintext and additional data, Open inverts it or fails.
  \<^item> \<open>X25519\<close> is curve25519.X25519 (scalar, point), \<open>hkdf\<close> reads n bytes of
    hkdf.New (secret, salt, info), \<open>chacha_New\<close> is chacha20poly1305.New.
\<close>

record cipher =
  cipher_Overhead :: nat
  cipher_Seal :: "bytes \<Rightarrow> bytes \<Rightarrow> bytes \<Rightarrow> bytes"
  cipher_Open :: "bytes \<Rightarrow> bytes \<Rightarrow> bytes \<Rightarrow> bytes option"

record prims =
  X25519 :: "bytes \<Rightarrow> bytes \<Rightarrow> bytes option"
  Basepoint :: bytes
  hkdf :: "bytes \<Rightarrow> bytes \<Rightarrow> bytes \<Rightarrow> nat \<Rightarrow> bytes option"
  chacha_New :: "bytes \<Rightarrow> cipher option"

text \<open>Documented behaviour of an AEAD: decryption inverts encryption, the expansion is fixed.\<close>

definition cipher_ok :: "cipher \<Rightarrow> bool" where
  "cipher_ok c \<longleftrightarrow>
     (\<forall>n p ad. cipher_Open c n (cipher_Seal c n p ad) ad = Some p
       \<and> length (cipher_Seal c n p ad) = length p + cipher_Overhead c)"

text \<open>Every cipher chacha20poly1305.New makes behaves so.\<close>

definition chacha_ok :: "prims \<Rightarrow> bool" where
  "chacha_ok P \<longleftrightarrow> (\<forall>k c. chacha_New P k = Some c \<longrightarrow> cipher_ok c)"

text \<open>
  Concrete functions with the documented behaviour, to evaluate the model on: a cipher that
  masks the bytes and appends the nonce as a tag, and an addition in place of X25519.
\<close>

definition sample_tag :: "bytes \<Rightarrow> bytes" where
  "sample_tag n = take 16 (n @ replicate 16 0)"

definition sample_cipher :: cipher where
  "sample_cipher =
     \<lparr>cipher_Overhead = 16,
      cipher_Seal = (\<lambda>n p ad. map (\<lambda>b. b XOR 0x5a) p @ sample_tag n),
      cipher_Open = (\<lambda>n c ad.
        if length c \<ge> 16 \<and> drop (length c - 16) c = sample_tag n
        then Some (map (\<lambda>b. b XOR 0x5a) (take (length c - 16) c)) else None)\<rparr>"

lemma length_sample_tag [simp]: "length (sample_tag n) = 16"
  by (simp add: sample_tag_def)

lemma sample_cipher_ok: "cipher_ok sample_cipher"
  by (simp add: cipher_ok_def sample_cipher_def xor.assoc comp_def)

lemma cipher_Overhead_sample [simp]: "cipher_Overhead sample_cipher = 16"
  by (simp add: sample_cipher_def)

definition sample_prims :: prims where
  "sample_prims =
     \<lparr>X25519 = (\<lambda>a p. if length a = 32 \<and> length p = 32 then Some (map (\<lambda>(x, y). x + y) (zip a p))
                   else None),
      Basepoint = replicate 32 9,
      hkdf = (\<lambda>secret salt info n. Some (take n (info @ secret @ salt @ replicate n 0))),
      chacha_New = (\<lambda>key. if length key = 32 then Some sample_cipher else None)\<rparr>"

lemma sample_chacha: "chacha_ok sample_prims"
  by (simp add: chacha_ok_def sample_prims_def sample_cipher_ok)

section \<open>Constants and errors\<close>

definition KeySize :: nat where "KeySize = 32"
definition NonceSize :: nat where "NonceSize = 12"
definition TagSize :: nat where "TagSize = 16"

datatype crypto_error =
    ErrCounterExhausted
  | ErrKeyLength       \<comment> \<open>chacha20poly1305.New\<close>
  | ErrOpen            \<comment> \<open>message authentication failed\<close>
  | ErrRandom          \<comment> \<open>rand.Reader failed\<close>
  | ErrX25519          \<comment> \<open>curve25519.X25519 failed\<close>
  | ErrLowOrder        \<comment> \<open>invalid (low-order) peer public key\<close>

text \<open>Go's \<open>copy(dst[:], src)\<close>: as many bytes as both have.\<close>

definition copy_into :: "bytes \<Rightarrow> bytes \<Rightarrow> bytes" where
  "copy_into dst src = take (length dst) src @ drop (length src) dst"

lemma length_copy_into [simp]: "length (copy_into dst src) = length dst"
  by (simp add: copy_into_def)

lemma copy_into_same [simp]: "length src = length dst \<Longrightarrow> copy_into dst src = src"
  by (simp add: copy_into_def)

section \<open>Key pairs and Diffie-Hellman\<close>

record keypair =
  Private :: bytes
  Public :: bytes

definition PublicFromPrivate :: "prims \<Rightarrow> bytes \<Rightarrow> crypto_error + bytes" where
  "PublicFromPrivate P priv =
     try_bind (or_err ErrX25519 (X25519 P priv (Basepoint P)))
       (\<lambda>p. Inr (copy_into (replicate KeySize 0) p))"

definition GenerateKeypair :: "prims \<Rightarrow> bytes option \<Rightarrow> crypto_error + keypair" where
  "GenerateKeypair P rnd =
     try_bind (or_err ErrRandom rnd) (\<lambda>b.
     let priv = copy_into (replicate KeySize 0) b in
     try_bind (or_err ErrX25519 (X25519 P priv (Basepoint P))) (\<lambda>pub.
     Inr \<lparr>Private = priv, Public = copy_into (replicate KeySize 0) pub\<rparr>))"

text \<open>subtle.ConstantTimeCompare: the lengths first, then every byte.\<close>

definition ConstantTimeCompare :: "bytes \<Rightarrow> bytes \<Rightarrow> int" where
  "ConstantTimeCompare a b =
     (if length a \<noteq> length b then 0
      else if foldl (\<lambda>v (x, y). v OR (x XOR y)) 0 (zip a b) = 0 then 1 else 0)"

definition ConstantTimeEqual :: "bytes \<Rightarrow> bytes \<Rightarrow> bool" where
  "ConstantTimeEqual a b \<longleftrightarrow> ConstantTimeCompare a b = 1"

definition DH :: "prims \<Rightarrow> bytes \<Rightarrow> bytes \<Rightarrow> crypto_error + bytes" where
  "DH P priv peerPub =
     try_bind (or_err ErrX25519 (X25519 P priv peerPub)) (\<lambda>s.
     if ConstantTimeCompare s (replicate KeySize 0) = 1 then Inl ErrLowOrder
     else Inr (copy_into (replicate KeySize 0) s))"

lemma or_fold_zero_iff:
  fixes v :: byte
  shows "foldl (\<lambda>v (x, y). v OR (x XOR y)) v ps = 0 \<longleftrightarrow> v = 0 \<and> (\<forall>(x, y) \<in> set ps. x = y)"
proof (induction ps arbitrary: v)
  case (Cons p ps)
  obtain x y where p: "p = (x, y)" by (cases p)
  have "v OR (x XOR y) = 0 \<longleftrightarrow> v = 0 \<and> x = y"
    by (metis or_eq_0_iff xor_self_eq xor.assoc xor.left_neutral xor.right_neutral)
  with Cons p show ?case by auto
qed simp

lemma ConstantTimeCompare_iff: "ConstantTimeCompare a b = 1 \<longleftrightarrow> a = b"
proof (cases "length a = length b")
  case True
  then have "(\<forall>(x, y) \<in> set (zip a b). x = y) \<longleftrightarrow> a = b"
    by (induction a b rule: list_induct2) auto
  with True show ?thesis by (simp add: ConstantTimeCompare_def or_fold_zero_iff)
qed (auto simp: ConstantTimeCompare_def)

lemma ConstantTimeEqual_iff: "ConstantTimeEqual a b \<longleftrightarrow> a = b"
  by (simp add: ConstantTimeEqual_def ConstantTimeCompare_iff)

lemma DH_Inr: "DH P priv pub = Inr k \<Longrightarrow> length k = KeySize"
  by (auto simp: DH_def try_bind_Inr_iff split: if_splits)

lemma GenerateKeypair_lengths:
  "GenerateKeypair P rnd = Inr kp \<Longrightarrow> length (Private kp) = KeySize \<and> length (Public kp) = KeySize"
  by (auto simp: GenerateKeypair_def try_bind_Inr_iff Let_def)

lemma GenerateKeypair_public:
  "GenerateKeypair P rnd = Inr kp \<Longrightarrow> PublicFromPrivate P (Private kp) = Inr (Public kp)"
  by (auto simp: GenerateKeypair_def PublicFromPrivate_def try_bind_Inr_iff Let_def)

section \<open>Key derivation\<close>

text \<open>\<^term>\<open>None\<close> is the panic of HKDF when the reader fails.\<close>

definition HKDF :: "prims \<Rightarrow> bytes \<Rightarrow> bytes \<Rightarrow> bytes \<Rightarrow> nat \<Rightarrow> bytes option" where
  "HKDF P secret salt info n = map_option (copy_into (replicate n 0)) (hkdf P secret salt info n)"

record session_keys =
  TxKey :: bytes
  RxKey :: bytes

definition infoClientToServer :: string where
  "infoClientToServer = ''mirage v1 c2s''"

definition infoServerToClient :: string where
  "infoServerToClient = ''mirage v1 s2c''"

definition DeriveSessionKeys :: "prims \<Rightarrow> bytes \<Rightarrow> bytes \<Rightarrow> bool \<Rightarrow> session_keys option" where
  "DeriveSessionKeys P shared salt isClient =
     (case HKDF P shared salt (bytes_of infoClientToServer) KeySize of
        None \<Rightarrow> None
      | Some c2s \<Rightarrow>
          (case HKDF P shared salt (bytes_of infoServerToClient) KeySize of
             None \<Rightarrow> None
           | Some s2c \<Rightarrow>
               if isClient then Some \<lparr>TxKey = c2s, RxKey = s2c\<rparr>
               else Some \<lparr>TxKey = s2c, RxKey = c2s\<rparr>))"

lemma DeriveSessionKeys_mirror:
  "DeriveSessionKeys P shared salt False =
     map_option (\<lambda>k. \<lparr>TxKey = RxKey k, RxKey = TxKey k\<rparr>) (DeriveSessionKeys P shared salt True)"
  by (auto simp: DeriveSessionKeys_def split: option.splits)

lemma DeriveSessionKeys_lengths:
  "DeriveSessionKeys P shared salt c = Some k \<Longrightarrow> length (TxKey k) = KeySize \<and> length (RxKey k) = KeySize"
  by (auto simp: DeriveSessionKeys_def HKDF_def split: option.splits if_splits)

section \<open>The AEAD stream\<close>

record aead_stream =
  aead :: cipher
  counter :: "64 word"
  nonce :: bytes

definition NewAEADStream :: "prims \<Rightarrow> bytes \<Rightarrow> crypto_error + aead_stream" where
  "NewAEADStream P key =
     try_bind (or_err ErrKeyLength (chacha_New P key)) (\<lambda>a.
     Inr \<lparr>aead = a, counter = 0, nonce = replicate NonceSize 0\<rparr>)"

definition AEADStream_advance :: "aead_stream \<Rightarrow> crypto_error + aead_stream" where
  "AEADStream_advance s =
     (if counter s = NOT 0 then Inl ErrCounterExhausted
      else Inr (s\<lparr>nonce := take 4 (nonce s) @ PutUint64 (counter s) @ drop 12 (nonce s),
                  counter := counter s + 1\<rparr>))"

definition AEADStream_Overhead :: "aead_stream \<Rightarrow> nat" where
  "AEADStream_Overhead s = cipher_Overhead (aead s)"

definition AEADStream_Seal ::
  "aead_stream \<Rightarrow> bytes \<Rightarrow> bytes \<Rightarrow> (crypto_error + bytes) \<times> aead_stream" where
  "AEADStream_Seal s dst plaintext =
     (case AEADStream_advance s of
        Inl e \<Rightarrow> (Inl e, s)
      | Inr s' \<Rightarrow> (Inr (dst @ cipher_Seal (aead s') (nonce s') plaintext []), s'))"

definition AEADStream_Open ::
  "aead_stream \<Rightarrow> bytes \<Rightarrow> bytes \<Rightarrow> (crypto_error + bytes) \<times> aead_stream" where
  "AEADStream_Open s dst ciphertext =
     (case AEADStream_advance s of
        Inl e \<Rightarrow> (Inl e, s)
      | Inr s' \<Rightarrow>
          (case cipher_Open (aead s') (nonce s') ciphertext [] of
             None \<Rightarrow> (Inl ErrOpen, s')
           | Some p \<Rightarrow> (Inr (dst @ p), s')))"

definition HMAC :: "bytes \<Rightarrow> bytes list \<Rightarrow> bytes" where
  "HMAC key parts = hmac_sha256 key (concat parts)"

lemma length_HMAC [simp, wire_simps]: "length (HMAC key parts) = 32"
  by (simp add: HMAC_def)

subsection \<open>Nonces never repeat\<close>

lemma word64_Suc:
  fixes c :: "64 word"
  assumes "c \<noteq> NOT 0" shows "unat (c + 1) = Suc (unat c)"
proof -
  have "1 + c \<noteq> 0"
  proof
    assume "1 + c = 0"
    then have "c = - 1" by (simp add: eq_neg_iff_add_eq_0 add.commute)
    with assms show False by simp
  qed
  then show ?thesis using unatSuc [of c] by (simp add: add.commute)
qed

lemma advance_counter:
  "AEADStream_advance s = Inr s' \<Longrightarrow> unat (counter s') = Suc (unat (counter s))"
  by (auto simp: AEADStream_advance_def word64_Suc split: if_splits)

lemma advance_frame:
  "AEADStream_advance s = Inr s' \<Longrightarrow>
     aead s' = aead s \<and> nonce s' = take 4 (nonce s) @ PutUint64 (counter s) @ drop 12 (nonce s)"
  by (auto simp: AEADStream_advance_def split: if_splits)

text \<open>A stream's nonce buffer: four zero bytes, then room for the counter.\<close>

definition nonce_wf :: "aead_stream \<Rightarrow> bool" where
  "nonce_wf s \<longleftrightarrow> length (nonce s) = NonceSize \<and> take 4 (nonce s) = replicate 4 0"

lemma NewAEADStream_wf:
  "NewAEADStream P key = Inr s \<Longrightarrow> nonce_wf s \<and> counter s = 0 \<and> chacha_New P key = Some (aead s)"
  by (auto simp: NewAEADStream_def try_bind_Inr_iff nonce_wf_def NonceSize_def)

lemma advance_wf:
  assumes "nonce_wf s" and "AEADStream_advance s = Inr s'"
  shows "nonce_wf s'" and "nonce s' = replicate 4 0 @ PutUint64 (counter s)"
  using assms by (auto simp: nonce_wf_def NonceSize_def dest: advance_frame)

text \<open>The nonces and ciphertexts of a run of Seal, up to the first error.\<close>

fun seal_trace :: "aead_stream \<Rightarrow> bytes list \<Rightarrow> (bytes \<times> bytes) list" where
  "seal_trace s [] = []"
| "seal_trace s (p # ps) =
     (case AEADStream_Seal s [] p of
        (Inl e, s') \<Rightarrow> []
      | (Inr ct, s') \<Rightarrow> (nonce s', ct) # seal_trace s' ps)"

lemma seal_trace_Cons:
  "seal_trace s (p # ps) =
     (case AEADStream_advance s of
        Inl e \<Rightarrow> []
      | Inr s' \<Rightarrow> (nonce s', cipher_Seal (aead s) (nonce s') p []) # seal_trace s' ps)"
  by (auto simp: AEADStream_Seal_def dest: advance_frame split: sum.splits)

declare seal_trace.simps(2) [simp del] seal_trace_Cons [simp]

lemma seal_trace_nonces:
  "nonce_wf s \<Longrightarrow> n \<in> fst ` set (seal_trace s ps) \<Longrightarrow>
     \<exists>c. unat (counter s) \<le> unat c \<and> n = replicate 4 0 @ PutUint64 c"
proof (induction ps arbitrary: s)
  case (Cons p ps)
  show ?case
  proof (cases "AEADStream_advance s")
    case (Inr s')
    note wf = advance_wf [OF Cons.prems(1) Inr]
    from Cons.prems(2) Inr consider "n = nonce s'" | "n \<in> fst ` set (seal_trace s' ps)"
      by auto
    then show ?thesis
    proof cases
      case 1
      with wf(2) show ?thesis by auto
    next
      case 2
      from Cons.IH [OF wf(1) this] advance_counter [OF Inr] show ?thesis
        by (auto dest: Suc_leD)
    qed
  qed (use Cons.prems in simp)
qed simp

lemma seal_trace_distinct: "nonce_wf s \<Longrightarrow> distinct (map fst (seal_trace s ps))"
proof (induction ps arbitrary: s)
  case (Cons p ps)
  show ?case
  proof (cases "AEADStream_advance s")
    case (Inr s')
    note wf = advance_wf [OF Cons.prems Inr]
    have "nonce s' \<notin> fst ` set (seal_trace s' ps)"
      using seal_trace_nonces [OF wf(1)] wf(2) advance_counter [OF Inr]
      by (fastforce simp: PutUint64_inj)
    with Cons.IH [OF wf(1)] Inr show ?thesis by simp
  qed simp
qed simp

lemma length_seal_trace:
  "length (seal_trace s ps) = min (length ps) (2 ^ 64 - 1 - unat (counter s))"
proof (induction ps arbitrary: s)
  case (Cons p ps)
  show ?case
  proof (cases "AEADStream_advance s")
    case (Inl e)
    then have "unat (counter s) = 2 ^ 64 - 1"
      by (auto simp: AEADStream_advance_def unsigned_minus_1_eq_mask mask_eq_exp_minus_1
          split: if_splits)
    with Inl show ?thesis by simp
  next
    case (Inr s')
    have "unat (counter s') < 2 ^ 64" using unsigned_less [of "counter s'"] by simp
    with advance_counter [OF Inr] have "Suc (unat (counter s)) < 2 ^ 64" by simp
    with advance_counter [OF Inr] Cons.IH [of s'] Inr show ?thesis by simp
  qed
qed simp

subsection \<open>The two ends of a stream\<close>

definition stream_insync :: "aead_stream \<Rightarrow> aead_stream \<Rightarrow> bool" where
  "stream_insync s r \<longleftrightarrow> aead r = aead s \<and> cipher_ok (aead s) \<and> counter r = counter s
     \<and> nonce_wf s \<and> nonce_wf r"

lemma NewAEADStream_insync:
  "NewAEADStream P key = Inr s \<Longrightarrow> NewAEADStream P key = Inr r \<Longrightarrow> cipher_ok (aead s) \<Longrightarrow>
     stream_insync s r"
  by (auto simp: stream_insync_def dest: NewAEADStream_wf)

lemma advance_insync:
  assumes "stream_insync s r" and "AEADStream_advance s = Inr s'"
  shows "\<exists>r'. AEADStream_advance r = Inr r' \<and> stream_insync s' r' \<and> nonce r' = nonce s'"
proof -
  from assms have "counter r \<noteq> NOT 0"
    by (auto simp: stream_insync_def AEADStream_advance_def split: if_splits)
  then obtain r' where r': "AEADStream_advance r = Inr r'"
    by (auto simp: AEADStream_advance_def)
  with assms show ?thesis
    by (auto simp: stream_insync_def dest: advance_wf advance_frame)
      (auto simp: AEADStream_advance_def nonce_wf_def NonceSize_def split: if_splits)
qed

lemma Open_Seal:
  assumes "stream_insync s r" and "AEADStream_Seal s [] p = (Inr ct, s')"
  shows "\<exists>r'. AEADStream_Open r [] ct = (Inr p, r') \<and> stream_insync s' r'"
proof -
  from assms(2) have adv: "AEADStream_advance s = Inr s'"
    and ct: "ct = cipher_Seal (aead s') (nonce s') p []"
    by (auto simp: AEADStream_Seal_def split: sum.splits)
  from advance_insync [OF assms(1) adv] obtain r' where
    r': "AEADStream_advance r = Inr r'" "stream_insync s' r'" "nonce r' = nonce s'" by blast
  then have "cipher_Open (aead r') (nonce r') ct [] = Some p"
    by (simp add: ct stream_insync_def cipher_ok_def)
  with r' show ?thesis by (simp add: AEADStream_Open_def)
qed

lemma Seal_error:
  "AEADStream_Seal s dst p = (Inl e, s') \<Longrightarrow> s' = s \<and> e = ErrCounterExhausted"
  by (auto simp: AEADStream_Seal_def AEADStream_advance_def split: sum.splits if_splits)

lemma Seal_length:
  "AEADStream_Seal s dst p = (Inr ct, s') \<Longrightarrow> cipher_ok (aead s) \<Longrightarrow>
     length ct = length dst + length p + AEADStream_Overhead s"
  by (auto simp: AEADStream_Seal_def AEADStream_Overhead_def cipher_ok_def
      dest: advance_frame split: sum.splits)

lemma Seal_frame:
  "AEADStream_Seal s dst p = (r, s') \<Longrightarrow> aead s' = aead s"
  by (auto simp: AEADStream_Seal_def dest: advance_frame split: sum.splits)

interpretation stream: lockstep_retry
  "\<lambda>s. AEADStream_Seal s []" "\<lambda>r. AEADStream_Open r []" stream_insync "\<lambda>p. p"
  by unfold_locales (auto intro: Open_Seal dest: Seal_error)

section \<open>Properties\<close>


definition sample_stream :: aead_stream where
  "sample_stream = \<lparr>aead = sample_cipher, counter = 0, nonce = replicate NonceSize 0\<rparr>"

lemma sample_stream: "NewAEADStream sample_prims (replicate 32 1) = Inr sample_stream"
  by (simp add: NewAEADStream_def sample_prims_def sample_stream_def or_err_def)


end
