(* ===== verification/Krot_Frame.thy ===== *)
theory Krot_Frame
  imports Krot_Crypto
begin

text \<open>
  internal/frame/frame.go: the padded, sealed records. A record's plaintext is the type
  byte, the payload's length in two bytes, the payload, and random padding. Randomness is
  an argument: \<open>raw\<close> is the number mrand.IntN draws from (reduced to its range) and \<open>fill\<close>
  what the system generator delivers for the padding bytes.
\<close>

section \<open>Constants, policy, errors\<close>

definition TypeData :: byte where "TypeData = 1"
definition TypePad :: byte where "TypePad = 2"
definition headerLen :: nat where "headerLen = 3"
definition MaxPayload :: nat where "MaxPayload = 9000"

datatype frame_error =
    errShort | errLen | errBig
  | errAead crypto_error
  | RandomPanic   \<comment> \<open>crypto.Random panics when the system generator fails\<close>

record pad_policy =
  BurstRecords :: int
  BurstMin :: int
  BurstMax :: int
  SteadyMax :: int

definition DefaultPad :: pad_policy where
  "DefaultPad = \<lparr>BurstRecords = 12, BurstMin = 900, BurstMax = 1380, SteadyMax = 128\<rparr>"

record sealer =
  sealer_aead :: aead_stream
  sealer_pad :: pad_policy
  sealer_count :: int

record opener =
  opener_aead :: aead_stream

definition NewSealer :: "prims \<Rightarrow> bytes \<Rightarrow> pad_policy \<Rightarrow> crypto_error + sealer" where
  "NewSealer P key pad =
     try_bind (NewAEADStream P key)
       (\<lambda>a. Inr \<lparr>sealer_aead = a, sealer_pad = pad, sealer_count = 0\<rparr>)"

definition NewOpener :: "prims \<Rightarrow> bytes \<Rightarrow> crypto_error + opener" where
  "NewOpener P key = try_bind (NewAEADStream P key) (\<lambda>a. Inr \<lparr>opener_aead = a\<rparr>)"

section \<open>Padding\<close>

text \<open>mrand.IntN(n) for positive n: some number from 0 to n - 1.\<close>

definition IntN :: "int \<Rightarrow> int \<Rightarrow> int" where
  "IntN raw n = raw mod n"

definition Sealer_padFor :: "sealer \<Rightarrow> int \<Rightarrow> int \<Rightarrow> int" where
  "Sealer_padFor s payloadLen raw =
     (let used = int headerLen + payloadLen; p = sealer_pad s in
      if sealer_count s < BurstRecords p then
        (let span = BurstMax p - BurstMin p;
             target = (if span > 0 then BurstMin p + IntN raw span else BurstMin p)
         in if target > used then target - used else 0)
      else if SteadyMax p > 0 then IntN raw (SteadyMax p)
      else 0)"

lemma padFor_nonneg: "0 \<le> Sealer_padFor s n raw"
  by (simp add: Sealer_padFor_def Let_def IntN_def)

section \<open>Seal and Open\<close>

text \<open>The two bytes that follow the type: the payload's length as a uint16.\<close>

definition Sealer_Seal ::
  "sealer \<Rightarrow> byte \<Rightarrow> bytes \<Rightarrow> int \<Rightarrow> bytes option \<Rightarrow> (frame_error + bytes) \<times> sealer" where
  "Sealer_Seal s typ payload raw fill =
     (if length payload > MaxPayload then (Inl errBig, s)
      else
        let pad = Sealer_padFor s (int (length payload)) raw;
            header = typ # PutUint16 (of_nat (length payload));
            padding = (if pad > 0 then map_option (copy_into (replicate (nat pad) 0)) fill
                       else Some [])
        in case padding of
             None \<Rightarrow> (Inl RandomPanic, s)
           | Some rnd \<Rightarrow>
               let s1 = s\<lparr>sealer_count := sealer_count s + 1\<rparr>;
                   (r, a) = AEADStream_Seal (sealer_aead s1) [] (header @ payload @ rnd)
               in (case r of
                     Inl e \<Rightarrow> (Inl (errAead e), s1\<lparr>sealer_aead := a\<rparr>)
                   | Inr ct \<Rightarrow> (Inr ct, s1\<lparr>sealer_aead := a\<rparr>)))"

definition parse_record :: "bytes \<Rightarrow> frame_error + byte \<times> bytes" where
  "parse_record plain =
     (if length plain < headerLen then Inl errShort
      else
        let n = unat (Uint16 (take 2 (drop 1 plain))) in
        if n > length plain - headerLen then Inl errLen
        else Inr (plain ! 0, take n (drop headerLen plain)))"

definition Opener_Open :: "opener \<Rightarrow> bytes \<Rightarrow> (frame_error + byte \<times> bytes) \<times> opener" where
  "Opener_Open r ciphertext =
     (let (res, a) = AEADStream_Open (opener_aead r) [] ciphertext; r' = r\<lparr>opener_aead := a\<rparr>
      in case res of
           Inl e \<Rightarrow> (Inl (errAead e), r')
         | Inr plain \<Rightarrow> (parse_record plain, r'))"

subsection \<open>The record format\<close>

definition build_record :: "byte \<Rightarrow> bytes \<Rightarrow> bytes \<Rightarrow> bytes" where
  "build_record typ payload rnd = typ # PutUint16 (of_nat (length payload)) @ payload @ rnd"

lemma parse_build_short:
  assumes "length payload < 65536"
  shows "parse_record (build_record typ payload rnd) = Inr (typ, payload)"
proof -
  let ?v = "of_nat (length payload) :: 16 word"
  obtain x y where xy: "PutUint16 ?v = [x, y]"
    by (simp add: PutUint16_def)
  then have "Uint16 [x, y] = ?v" by (metis Uint16_PutUint16)
  moreover from assms have "unat ?v = length payload"
    by (intro Uint16_of_nat)
  ultimately show ?thesis
    by (simp add: parse_record_def build_record_def headerLen_def xy Let_def)
qed

lemma parse_build [simp, wire_simps]:
  "length payload \<le> MaxPayload \<Longrightarrow> parse_record (build_record typ payload rnd) = Inr (typ, payload)"
  by (rule parse_build_short) (simp add: MaxPayload_def)

text \<open>What a parsed record is: a prefix of the plaintext after the header.\<close>

lemma parse_record_Inr:
  assumes "parse_record plain = Inr (typ, payload)"
  shows "\<exists>rnd. length plain = headerLen + length payload + length rnd
    \<and> plain ! 0 = typ \<and> drop headerLen plain = payload @ rnd"
proof -
  let ?n = "unat (Uint16 (take 2 (drop 1 plain)))"
  from assms have l: "headerLen \<le> length plain" "?n \<le> length plain - headerLen"
    and "plain ! 0 = typ" "payload = take ?n (drop headerLen plain)"
    by (auto simp: parse_record_def Let_def split: if_splits)
  then show ?thesis
    by (intro exI [of _ "drop ?n (drop headerLen plain)"]) (simp only: append_take_drop_id, simp)
qed

text \<open>Exactly the built records parse: the header's length is the payload's.\<close>

lemma parse_record_Inr_build:
  assumes "parse_record plain = Inr (typ, payload)"
  shows "length payload < 65536 \<and> (\<exists>rnd. plain = build_record typ payload rnd)"
proof -
  let ?v = "Uint16 (take 2 (drop 1 plain))"
  let ?n = "unat ?v"
  from assms have l: "headerLen \<le> length plain" "?n \<le> length plain - headerLen"
    and ty: "plain ! 0 = typ" and p: "payload = take ?n (drop headerLen plain)"
    by (auto simp: parse_record_def Let_def split: if_splits)
  then obtain t a b rest where plain: "plain = t # a # b # rest"
    by (cases plain; cases "tl plain"; cases "tl (tl plain)") (auto simp: headerLen_def)
  have len: "length payload = ?n" using l p by simp
  moreover have "?n < 65536" using unsigned_less [of ?v] by simp
  moreover have "PutUint16 (of_nat (length payload)) = [a, b]"
    using len by (simp add: plain PutUint16_Uint16)
  ultimately show ?thesis
    using ty p plain
    by (intro conjI exI [of _ "drop ?n rest"]) (simp_all add: build_record_def headerLen_def)
qed

lemma Seal_big:
  "length payload > MaxPayload \<Longrightarrow> Sealer_Seal s typ payload raw fill = (Inl errBig, s)"
  by (simp add: Sealer_Seal_def)

lemma Seal_Inr:
  assumes "Sealer_Seal s typ payload raw fill = (Inr ct, s')"
  shows "length payload \<le> MaxPayload
    \<and> (\<exists>rnd a. AEADStream_Seal (sealer_aead s) [] (build_record typ payload rnd) = (Inr ct, a)
        \<and> length rnd = nat (Sealer_padFor s (int (length payload)) raw)
        \<and> s' = s\<lparr>sealer_count := sealer_count s + 1, sealer_aead := a\<rparr>)"
proof -
  let ?pad = "Sealer_padFor s (int (length payload)) raw"
  from assms have le: "length payload \<le> MaxPayload"
    by (auto simp: Sealer_Seal_def split: if_splits)
  obtain rnd where rnd: "(if ?pad > 0 then map_option (copy_into (replicate (nat ?pad) 0)) fill
      else Some []) = Some rnd"
    using assms by (auto simp: Sealer_Seal_def Let_def split: if_splits option.splits)
  then have "length rnd = nat ?pad" by (auto split: if_splits)
  moreover have "AEADStream_Seal (sealer_aead s) [] (build_record typ payload rnd)
      = (Inr ct, sealer_aead s') \<and> s' = s\<lparr>sealer_count := sealer_count s + 1,
          sealer_aead := sealer_aead s'\<rparr>"
    using assms le rnd
    by (auto simp: Sealer_Seal_def build_record_def Let_def split: prod.splits sum.splits)
  ultimately show ?thesis using le by blast
qed

lemma Seal_Inl_stream:
  assumes "Sealer_Seal s typ payload raw fill = (Inl e, s')"
  shows "sealer_aead s' = sealer_aead s"
  using assms
  by (auto simp: Sealer_Seal_def Let_def dest: Seal_error
      split: if_splits option.splits prod.splits sum.splits)

text \<open>A payload that fits is sealed, unless the counter or the randomness is exhausted.\<close>

lemma Seal_ready:
  assumes "length payload \<le> MaxPayload" "fill \<noteq> None" "counter (sealer_aead s) \<noteq> NOT 0"
  shows "\<exists>ct s'. Sealer_Seal s typ payload raw fill = (Inr ct, s')"
proof -
  from assms(2) obtain f where "fill = Some f" by auto
  with assms(1,3) show ?thesis
    by (auto simp: Sealer_Seal_def AEADStream_Seal_def AEADStream_advance_def Let_def
        split: prod.splits sum.splits)
qed

lemma Seal_exhausted:
  "counter (sealer_aead s) = NOT 0 \<Longrightarrow> \<exists>e s'. Sealer_Seal s typ payload raw fill = (Inl e, s')"
  by (auto simp: Sealer_Seal_def AEADStream_Seal_def AEADStream_advance_def Let_def
      split: prod.splits sum.splits option.splits)

subsection \<open>Record sizes\<close>

lemma padFor_DefaultPad:
  assumes "sealer_pad s = DefaultPad"
  shows "sealer_count s < 12 \<Longrightarrow> used = headerLen + n \<Longrightarrow>
           int used + Sealer_padFor s (int n) raw
             = max (int used) (900 + raw mod 480)"
    and "sealer_count s \<ge> 12 \<Longrightarrow> Sealer_padFor s (int n) raw = raw mod 128"
  using assms by (simp_all add: Sealer_padFor_def Let_def IntN_def DefaultPad_def max_def)

lemma Seal_size:
  assumes "Sealer_Seal s typ payload raw fill = (Inr ct, s')" and "cipher_ok (aead (sealer_aead s))"
  shows "int (length ct) = int headerLen + int (length payload)
    + Sealer_padFor s (int (length payload)) raw + int (AEADStream_Overhead (sealer_aead s))"
proof -
  from Seal_Inr [OF assms(1)] obtain rnd a where
    "length rnd = nat (Sealer_padFor s (int (length payload)) raw)"
    and "AEADStream_Seal (sealer_aead s) [] (build_record typ payload rnd) = (Inr ct, a)"
    by blast
  with assms(2) padFor_nonneg [of s "int (length payload)" raw] show ?thesis
    by (simp add: Seal_length build_record_def headerLen_def)
qed

section \<open>The two ends of a record layer\<close>

definition record_insync :: "sealer \<Rightarrow> opener \<Rightarrow> bool" where
  "record_insync s r \<longleftrightarrow> stream_insync (sealer_aead s) (opener_aead r)"

text \<open>A message to seal: type, payload, and the randomness its padding will use.\<close>

type_synonym record_msg = "byte \<times> bytes \<times> int \<times> bytes option"

definition seal_msg :: "sealer \<Rightarrow> record_msg \<Rightarrow> (frame_error + bytes) \<times> sealer" where
  "seal_msg s = (\<lambda>(typ, payload, raw, fill). Sealer_Seal s typ payload raw fill)"

definition msg_view :: "record_msg \<Rightarrow> byte \<times> bytes" where
  "msg_view = (\<lambda>(typ, payload, raw, fill). (typ, payload))"

lemma Opener_Open_Seal:
  assumes "record_insync s r" and "Sealer_Seal s typ payload raw fill = (Inr ct, s')"
  shows "\<exists>r'. Opener_Open r ct = (Inr (typ, payload), r') \<and> record_insync s' r'"
proof -
  from Seal_Inr [OF assms(2)] obtain rnd a where
    len: "length payload \<le> MaxPayload"
    and a: "AEADStream_Seal (sealer_aead s) [] (build_record typ payload rnd) = (Inr ct, a)"
    and s': "s' = s\<lparr>sealer_count := sealer_count s + 1, sealer_aead := a\<rparr>" by blast
  from assms(1) have "stream_insync (sealer_aead s) (opener_aead r)"
    by (simp add: record_insync_def)
  from stream.recv_send [OF this a] obtain b where
    "AEADStream_Open (opener_aead r) [] ct = (Inr (build_record typ payload rnd), b)"
    "stream_insync a b" by blast
  with len s' show ?thesis by (simp add: Opener_Open_def record_insync_def)
qed

interpretation record_layer: lockstep_retry seal_msg Opener_Open record_insync msg_view
proof unfold_locales
  fix s r m w s'
  assume "record_insync s r" "seal_msg s m = (Inr w, s')"
  then show "\<exists>r'. Opener_Open r w = (Inr (msg_view m), r') \<and> record_insync s' r'"
    by (cases m) (simp add: seal_msg_def msg_view_def Opener_Open_Seal)
next
  fix s r m e s'
  assume "record_insync s r" "seal_msg s m = (Inl e, s')"
  then show "record_insync s' r"
    by (cases m) (simp add: seal_msg_def record_insync_def Seal_Inl_stream)
qed

lemma New_record_insync:
  assumes "NewSealer P key pad = Inr s" and "NewOpener P key = Inr r"
    and "chacha_ok P"
  shows "record_insync s r"
proof -
  from assms(1,2) have "NewAEADStream P key = Inr (sealer_aead s)"
    "NewAEADStream P key = Inr (opener_aead r)"
    by (auto simp: NewSealer_def NewOpener_def try_bind_Inr_iff)
  moreover from this(1) assms(3) have "cipher_ok (aead (sealer_aead s))"
    unfolding chacha_ok_def using NewAEADStream_wf by blast
  ultimately show ?thesis by (simp add: record_insync_def NewAEADStream_insync)
qed

text \<open>Every record opens, whatever the failures of Open: the opener always moves by one.\<close>

lemma Opener_Open_errors:
  "Opener_Open r ct = (Inl e, r') \<Longrightarrow>
     e = errShort \<or> e = errLen \<or> e = errAead ErrOpen
       \<or> (e = errAead ErrCounterExhausted \<and> r' = r)"
  by (auto simp: Opener_Open_def AEADStream_Open_def AEADStream_advance_def parse_record_def Let_def
      split: prod.splits sum.splits option.splits if_splits)

section \<open>Properties\<close>

text \<open>The record parser accepts exactly the well-formed records: it returns type and
  payload of a plaintext precisely when the plaintext is that type, that payload's length in
  two bytes, the payload, and padding of any length.\<close>

theorem parser_accepts_exactly_records:
  "parse_record plain = Inr (ty, payload)
     \<longleftrightarrow> length payload < 65536 \<and> (\<exists>rnd. plain = build_record ty payload rnd)"
  using parse_record_Inr_build [of plain ty payload] parse_build_short [of payload ty] by blast

text \<open>C12. The size of a sealed record: among the first twelve of a connection a record is
  stretched to a random target between 900 and 1379 bytes (or keeps its size when larger),
  later ones get fewer than 128 bytes of padding; with the cipher's expansion no record
  exceeds the read limit the peer sets, the largest payload plus 2048.\<close>

theorem record_size:
  assumes "Sealer_Seal s ty payload raw fill = (Inr ct, s')"
    and "sealer_pad s = DefaultPad" and "cipher_ok (aead (sealer_aead s))"
    and "AEADStream_Overhead (sealer_aead s) = TagSize"
  shows "int (length ct) = (if sealer_count s < 12 then max (3 + int (length payload)) (900 + raw mod 480)
             else 3 + int (length payload) + raw mod 128) + 16
    \<and> length ct \<le> MaxPayload + 2048"
proof -
  have "length payload \<le> MaxPayload" using Seal_Inr [OF assms(1)] by blast
  moreover have "raw mod 480 < 480" "raw mod 128 < 128" by simp_all
  ultimately show ?thesis
    using Seal_size [OF assms(1,3)]
      padFor_DefaultPad(1) [OF assms(2) _ refl, of "length payload" raw]
      padFor_DefaultPad(2) [OF assms(2), of "length payload" raw]
    by (auto simp: assms(4) TagSize_def headerLen_def MaxPayload_def)
qed

definition sample_sealer :: sealer where
  "sample_sealer = \<lparr>sealer_aead = sample_stream, sealer_pad = DefaultPad, sealer_count = 12\<rparr>"

theorem record_size_witness:
  "\<exists>ct s'. Sealer_Seal sample_sealer TypeData [7, 8] 5 (Some [1, 2, 3, 4, 5]) = (Inr ct, s')
     \<and> length ct = 26 \<and> length ct \<le> MaxPayload + 2048"
proof -
  obtain ct s' where s: "Sealer_Seal sample_sealer TypeData [7, 8] 5 (Some [1, 2, 3, 4, 5]) = (Inr ct, s')"
    using Seal_ready [of "[7, 8]" "Some [1, 2, 3, 4, 5]" sample_sealer TypeData 5]
    by (auto simp: MaxPayload_def sample_sealer_def sample_stream_def)
  from record_size [OF s] show ?thesis
    by (intro exI [of _ ct] exI [of _ s'])
      (use s in \<open>simp add: sample_sealer_def sample_stream_def sample_cipher_ok
        AEADStream_Overhead_def TagSize_def\<close>)
qed

end
