(* ===== verification/Krot_Conn.thy ===== *)
theory Krot_Conn
  imports Krot_Frame
begin

text \<open>
  internal/transport/conn.go: one WebSocket that carries sealed records. The WebSocket is
  the package gorilla/websocket: what a call of it returns is an argument (whether
  WriteMessage succeeded; the sequence of results of ReadMessage, \<^term>\<open>None\<close> an error), and
  the messages handed to it are results. Seal and WriteMessage happen together under the
  write lock, so any number of writers is one sequence of writes.
\<close>

section \<open>The connection\<close>

datatype conn_error =
    ConnSeal frame_error
  | ConnWrite               \<comment> \<open>WriteMessage failed\<close>
  | ConnRead                \<comment> \<open>ReadMessage failed\<close>
  | ConnOpen frame_error

record conn =
  conn_seal :: sealer
  conn_open :: opener
  conn_limit :: nat         \<comment> \<open>the WebSocket's read limit\<close>

definition newConn :: "prims \<Rightarrow> bytes \<Rightarrow> bytes \<Rightarrow> pad_policy \<Rightarrow> crypto_error + conn" where
  "newConn P sealKey openKey pad =
     try_bind (NewSealer P sealKey pad) (\<lambda>s.
     try_bind (NewOpener P openKey) (\<lambda>r.
     Inr \<lparr>conn_seal = s, conn_open = r, conn_limit = MaxPayload + 2048\<rparr>))"

text \<open>The common part of the two writers: seal, then write. \<open>wok\<close> is WriteMessage's result.\<close>

definition conn_send ::
  "conn \<Rightarrow> byte \<Rightarrow> bytes \<Rightarrow> int \<Rightarrow> bytes option \<Rightarrow> bool \<Rightarrow> (conn_error + bytes) \<times> conn" where
  "conn_send c typ p raw fill wok =
     (case Sealer_Seal (conn_seal c) typ p raw fill of
        (Inl e, s) \<Rightarrow> (Inl (ConnSeal e), c\<lparr>conn_seal := s\<rparr>)
      | (Inr ct, s) \<Rightarrow> (if wok then Inr ct else Inl ConnWrite, c\<lparr>conn_seal := s\<rparr>))"

definition Conn_WritePacket ::
  "conn \<Rightarrow> bytes \<Rightarrow> int \<Rightarrow> bytes option \<Rightarrow> bool \<Rightarrow> (conn_error + bytes) \<times> conn" where
  "Conn_WritePacket c p raw fill wok = conn_send c TypeData p raw fill wok"

definition Conn_WriteKeepalive ::
  "conn \<Rightarrow> int \<Rightarrow> bytes option \<Rightarrow> bool \<Rightarrow> (conn_error + bytes) \<times> conn" where
  "Conn_WriteKeepalive c raw fill wok = conn_send c TypePad [] raw fill wok"

text \<open>
  ReadPacket loops over incoming messages until one is not padding. The input is what
  ReadMessage will return, call by call; when it runs out the reader blocks.
\<close>

datatype read_result = ReadBlocked | ReadErr conn_error | ReadData bytes

fun Conn_ReadPacket :: "conn \<Rightarrow> bytes option list \<Rightarrow> read_result \<times> conn \<times> bytes option list" where
  "Conn_ReadPacket c [] = (ReadBlocked, c, [])"
| "Conn_ReadPacket c (None # ms) = (ReadErr ConnRead, c, ms)"
| "Conn_ReadPacket c (Some ct # ms) =
     (case Opener_Open (conn_open c) ct of
        (Inl e, r) \<Rightarrow> (ReadErr (ConnOpen e), c\<lparr>conn_open := r\<rparr>, ms)
      | (Inr (typ, payload), r) \<Rightarrow>
          if typ = TypePad then Conn_ReadPacket (c\<lparr>conn_open := r\<rparr>) ms
          else (ReadData payload, c\<lparr>conn_open := r\<rparr>, ms))"

text \<open>A call never leaves more input than it found, and consumes when it returns.\<close>

lemma ReadPacket_consumes:
  "Conn_ReadPacket c ms = (res, c', ms') \<Longrightarrow>
     (\<exists>k. ms' = drop k ms) \<and> (res \<noteq> ReadBlocked \<longrightarrow> length ms' < length ms)
       \<and> (res = ReadBlocked \<longrightarrow> ms' = [])"
proof (induction c ms rule: Conn_ReadPacket.induct)
  case (3 c ct ms)
  obtain o_res r where o: "Opener_Open (conn_open c) ct = (o_res, r)" by fastforce
  have sk: "\<exists>k. drop j ms = drop k (Some ct # ms)" for j by (rule exI [of _ "Suc j"]) simp
  have sk0: "\<exists>k. ms = drop k (Some ct # ms)" by (rule exI [of _ 1]) simp
  show ?case
  proof (cases o_res)
    case (Inl e)
    with 3 o sk0 show ?thesis by auto
  next
    case (Inr tp)
    then obtain ty payload where tp: "o_res = Inr (ty, payload)" by (cases tp) auto
    show ?thesis
    proof (cases "ty = TypePad")
      case True
      with "3.prems" o tp have "Conn_ReadPacket (c\<lparr>conn_open := r\<rparr>) ms = (res, c', ms')" by simp
      from "3.IH" [OF o [symmetric] tp refl True this] sk show ?thesis by fastforce
    next
      case False
      with "3.prems" o tp sk0 show ?thesis by auto
    qed
  qed
qed (auto intro: exI [of _ 0] exI [of _ 1])

text \<open>Reading until the input is used up or a call fails: the packets in order.\<close>

function read_all :: "conn \<Rightarrow> bytes option list \<Rightarrow> bytes list \<times> read_result" where
  "read_all c ms =
     (case Conn_ReadPacket c ms of
        (ReadData p, c', ms') \<Rightarrow> (let (ps, e) = read_all c' ms' in (p # ps, e))
      | (r, c', ms') \<Rightarrow> ([], r))"
  by pat_completeness auto
termination
  by (relation "measure (\<lambda>(c, ms). length ms)") (auto dest: ReadPacket_consumes [OF sym])

declare read_all.simps [simp del]

section \<open>Writers and the reader at the other end\<close>

datatype conn_op =
    Packet bytes int "bytes option"
  | Keepalive int "bytes option"

fun op_msg :: "conn_op \<Rightarrow> record_msg" where
  "op_msg (Packet p raw fill) = (TypeData, p, raw, fill)"
| "op_msg (Keepalive raw fill) = (TypePad, [], raw, fill)"

fun op_data :: "conn_op \<Rightarrow> bytes list" where
  "op_data (Packet p raw fill) = [p]"
| "op_data (Keepalive raw fill) = []"

text \<open>One write that reaches the WebSocket.\<close>

fun conn_do :: "conn \<Rightarrow> conn_op \<Rightarrow> (conn_error + bytes) \<times> conn" where
  "conn_do c (Packet p raw fill) = Conn_WritePacket c p raw fill True"
| "conn_do c (Keepalive raw fill) = Conn_WriteKeepalive c raw fill True"

definition conn_insync :: "conn \<Rightarrow> conn \<Rightarrow> bool" where
  "conn_insync c d \<longleftrightarrow> record_insync (conn_seal c) (conn_open d)"

text \<open>The reader of one message: the packet it carries, or nothing for padding.\<close>

definition conn_recv :: "conn \<Rightarrow> bytes \<Rightarrow> (frame_error + bytes list) \<times> conn" where
  "conn_recv d ct =
     (case Opener_Open (conn_open d) ct of
        (Inl e, r) \<Rightarrow> (Inl e, d\<lparr>conn_open := r\<rparr>)
      | (Inr (typ, payload), r) \<Rightarrow>
          (Inr (if typ = TypePad then [] else [payload]), d\<lparr>conn_open := r\<rparr>))"

lemma conn_do_msg:
  "conn_do c x =
     (case seal_msg (conn_seal c) (op_msg x) of
        (Inl e, s) \<Rightarrow> (Inl (ConnSeal e), c\<lparr>conn_seal := s\<rparr>)
      | (Inr ct, s) \<Rightarrow> (Inr ct, c\<lparr>conn_seal := s\<rparr>))"
  by (cases x) (auto simp: Conn_WritePacket_def Conn_WriteKeepalive_def conn_send_def seal_msg_def
      split: prod.splits sum.splits)

lemma TypeData_not_Pad [simp]: "TypeData \<noteq> TypePad"
  by (simp add: TypeData_def TypePad_def)

lemma msg_view_op [simp]:
  "msg_view (op_msg (Packet p raw fill)) = (TypeData, p)"
  "msg_view (op_msg (Keepalive raw fill)) = (TypePad, [])"
  by (simp_all add: msg_view_def)

interpretation packets: lockstep_retry conn_do conn_recv conn_insync op_data
proof unfold_locales
  fix c d x w c'
  assume sync: "conn_insync c d" and x: "conn_do c x = (Inr w, c')"
  from x obtain s where s: "seal_msg (conn_seal c) (op_msg x) = (Inr w, s)"
    and c': "c' = c\<lparr>conn_seal := s\<rparr>"
    by (auto simp: conn_do_msg split: prod.splits sum.splits)
  from sync have "record_insync (conn_seal c) (conn_open d)" by (simp add: conn_insync_def)
  from record_layer.recv_send [OF this s] obtain r where
    r: "Opener_Open (conn_open d) w = (Inr (msg_view (op_msg x)), r)" "record_insync s r" by blast
  then show "\<exists>d'. conn_recv d w = (Inr (op_data x), d') \<and> conn_insync c' d'"
    using msg_view_op by (cases x) (auto simp: conn_recv_def conn_insync_def c' msg_view_def)
next
  fix c d x e c'
  assume sync: "conn_insync c d" and x: "conn_do c x = (Inl e, c')"
  from x obtain s f where s: "seal_msg (conn_seal c) (op_msg x) = (Inl f, s)"
    and c': "c' = c\<lparr>conn_seal := s\<rparr>"
    by (auto simp: conn_do_msg split: prod.splits sum.splits)
  from sync have "record_insync (conn_seal c) (conn_open d)" by (simp add: conn_insync_def)
  from record_layer.send_err [OF this s] show "conn_insync c' d"
    by (simp add: conn_insync_def c')
qed

text \<open>Reading messages through the loop of ReadPacket is reading them one by one.\<close>

lemma read_all_recv_all:
  "recv_all conn_recv d ws = Inr (dss, d') \<Longrightarrow>
     read_all d (map Some ws) = (concat dss, ReadBlocked)"
proof (induction ws arbitrary: d dss)
  case Nil
  then show ?case by (simp add: read_all.simps)
next
  case (Cons w ws)
  from Cons.prems obtain ds d1 dss1 where
    w: "conn_recv d w = (Inr ds, d1)" and rest: "recv_all conn_recv d1 ws = Inr (dss1, d')"
    and dss: "dss = ds # dss1"
    by (auto split: sum.splits prod.splits)
  from w obtain ty payload r where
    r: "Opener_Open (conn_open d) w = (Inr (ty, payload), r)"
    and d1: "d1 = d\<lparr>conn_open := r\<rparr>" and ds: "ds = (if ty = TypePad then [] else [payload])"
    by (auto simp: conn_recv_def split: prod.splits sum.splits)
  note IH = Cons.IH [OF rest]
  show ?case
  proof (cases "ty = TypePad")
    case True
    then have "Conn_ReadPacket d (map Some (w # ws)) = Conn_ReadPacket d1 (map Some ws)"
      by (simp add: r d1)
    then have "read_all d (map Some (w # ws)) = read_all d1 (map Some ws)"
      by (simp only: read_all.simps [of d] read_all.simps [of d1])
    with IH True show ?thesis by (simp add: dss ds)
  next
    case False
    then have "Conn_ReadPacket d (map Some (w # ws)) = (ReadData payload, d1, map Some ws)"
      by (simp add: r d1)
    with IH False show ?thesis by (simp add: read_all.simps [of d] dss ds)
  qed
qed

lemma writes_arrive:
  assumes "conn_insync c d" and "send_some conn_do c ops = (ws, sent, c')"
  shows "read_all d (map Some ws) = (concat (map op_data sent), ReadBlocked)"
  using packets.recv_all_send_some [OF assms] read_all_recv_all by blast

text \<open>Two ends whose keys mirror each other start in step, in both directions.\<close>

lemma newConn_insync:
  assumes "newConn P k1 k2 pad = Inr c" and "newConn P k2 k1 pad' = Inr d"
    and "chacha_ok P"
  shows "conn_insync c d" and "conn_insync d c"
proof -
  from assms(1,2) have "NewSealer P k1 pad = Inr (conn_seal c)"
    "NewOpener P k2 = Inr (conn_open c)" "NewSealer P k2 pad' = Inr (conn_seal d)"
    "NewOpener P k1 = Inr (conn_open d)"
    by (auto simp: newConn_def try_bind_Inr_iff)
  then show "conn_insync c d" "conn_insync d c"
    using assms(3) by (auto simp: conn_insync_def intro: New_record_insync)
qed

lemma conn_send_error:
  "conn_send c typ p raw fill wok = (Inl ConnWrite, c') \<Longrightarrow> \<not> wok"
  by (auto simp: conn_send_def split: prod.splits sum.splits if_splits)

lemma WritePacket_big:
  "length p > MaxPayload \<Longrightarrow> Conn_WritePacket c p raw fill wok = (Inl (ConnSeal errBig), c)"
  by (simp add: Conn_WritePacket_def conn_send_def Seal_big)

text \<open>When a write goes out: the WebSocket takes it and nonces are left.\<close>

definition write_ready :: "conn \<Rightarrow> bool" where
  "write_ready c \<longleftrightarrow> counter (sealer_aead (conn_seal c)) \<noteq> NOT 0"

lemma WritePacket_ready:
  assumes "length p \<le> MaxPayload" "fill \<noteq> None"
  shows "(\<exists>ct c'. Conn_WritePacket c p raw fill wok = (Inr ct, c')) \<longleftrightarrow> wok \<and> write_ready c"
proof (cases "write_ready c")
  case True
  with Seal_ready [OF assms, of "conn_seal c" TypeData raw] obtain ct s' where
    "Sealer_Seal (conn_seal c) TypeData p raw fill = (Inr ct, s')" by (auto simp: write_ready_def)
  with True show ?thesis by (simp add: Conn_WritePacket_def conn_send_def)
next
  case False
  with Seal_exhausted [of "conn_seal c" TypeData p raw fill] obtain e s' where
    "Sealer_Seal (conn_seal c) TypeData p raw fill = (Inl e, s')" by (auto simp: write_ready_def)
  with False show ?thesis by (simp add: Conn_WritePacket_def conn_send_def)
qed

section \<open>Everything that fits is sent\<close>

fun op_fits :: "conn_op \<Rightarrow> bool" where
  "op_fits (Packet p raw fill) = (length p \<le> MaxPayload)"
| "op_fits (Keepalive raw fill) = True"

fun op_fill :: "conn_op \<Rightarrow> bytes option" where
  "op_fill (Packet p raw fill) = fill"
| "op_fill (Keepalive raw fill) = fill"

definition conn_count :: "conn \<Rightarrow> nat" where
  "conn_count c = unat (counter (sealer_aead (conn_seal c)))"

lemma conn_do_fits:
  assumes "op_fits x" "op_fill x \<noteq> None" "conn_count c < 2 ^ 64 - 1"
  shows "\<exists>ct c'. conn_do c x = (Inr ct, c') \<and> conn_count c' = Suc (conn_count c)"
proof -
  have "counter (sealer_aead (conn_seal c)) \<noteq> NOT 0"
  proof
    assume "counter (sealer_aead (conn_seal c)) = NOT 0"
    then have "conn_count c = 2 ^ 64 - 1"
      by (simp add: conn_count_def unsigned_minus_1_eq_mask mask_eq_exp_minus_1)
    with assms(3) show False by simp
  qed
  moreover obtain ty p raw fill where m: "op_msg x = (ty, p, raw, fill)"
    and "length p \<le> MaxPayload" "fill \<noteq> None"
    using assms(1,2) by (cases x) auto
  ultimately obtain ct s where s: "Sealer_Seal (conn_seal c) ty p raw fill = (Inr ct, s)"
    using Seal_ready by blast
  from Seal_Inr [OF this] obtain rnd where
    "AEADStream_Seal (sealer_aead (conn_seal c)) [] (build_record ty p rnd) = (Inr ct, sealer_aead s)"
    by auto
  then have "unat (counter (sealer_aead s)) = Suc (conn_count c)"
    by (auto simp: AEADStream_Seal_def conn_count_def advance_counter split: sum.splits)
  with s m show ?thesis by (simp add: conn_do_msg seal_msg_def conn_count_def)
qed

lemma conn_do_big:
  "\<not> op_fits x \<Longrightarrow> conn_do c x = (Inl (ConnSeal errBig), c)"
  by (cases x) (simp_all add: WritePacket_big)

lemma send_some_fits:
  "\<forall>x \<in> set ops. op_fill x \<noteq> None \<Longrightarrow> conn_count c + length ops < 2 ^ 64 \<Longrightarrow>
     \<exists>ws c'. send_some conn_do c ops = (ws, filter op_fits ops, c')"
proof (induction ops arbitrary: c)
  case (Cons x ops)
  show ?case
  proof (cases "op_fits x")
    case True
    have "conn_count c < 2 ^ 64 - 1" using Cons.prems(2) by simp
    with conn_do_fits [OF True] Cons.prems(1) obtain ct c' where
      c': "conn_do c x = (Inr ct, c')" "conn_count c' = Suc (conn_count c)" by force
    with Cons.IH [of c'] Cons.prems True show ?thesis by auto
  next
    case False
    with Cons.IH [of c] Cons.prems show ?thesis by (auto simp: conn_do_big)
  qed
qed simp

section \<open>Properties\<close>


definition sample_conn :: conn where
  "sample_conn =
     \<lparr>conn_seal = \<lparr>sealer_aead = sample_stream, sealer_pad = DefaultPad, sealer_count = 0\<rparr>,
      conn_open = \<lparr>opener_aead = sample_stream\<rparr>, conn_limit = MaxPayload + 2048\<rparr>"

lemma sample_conn:
  "newConn sample_prims (replicate 32 1) (replicate 32 1) DefaultPad = Inr sample_conn"
  by (simp add: newConn_def NewSealer_def NewOpener_def sample_stream sample_conn_def)


end
