(* ===== verification/Krot_Tunnel.thy ===== *)
theory Krot_Tunnel
  imports Krot_Conn "HOL-Library.AList"
begin

text \<open>
  internal/transport/tunnel.go: the bonded tunnel. This theory has its data, each operation
  as one function on the tunnel's state (as the code runs when no other goroutine moves in
  between) and the lemmas about them; \<open>Krot_Bond\<close> has the interleavings.

  Pointers to connections are numbers; the state holds the connection of each number (the
  heap), the WebSockets that were closed, and the messages written, so that the effects of
  an operation on its connections are part of its result. \<open>channels\<close> is Go's map from channel
  index to connection, as an association list with distinct keys; \<open>order\<close> is the slice of
  live indices. The counter \<open>emptied\<close> counts calls of onEmpty.
\<close>

section \<open>Flow hash\<close>

definition fnv_offset :: "32 word" where "fnv_offset = 2166136261"
definition fnv_prime :: "32 word" where "fnv_prime = 16777619"

definition mix :: "32 word \<Rightarrow> byte \<Rightarrow> 32 word" where
  "mix h b = (h XOR ucast b) * fnv_prime"

definition flowHash :: "bytes \<Rightarrow> 32 word" where
  "flowHash p =
     (if length p < 20 \<or> drop_bit 4 (p ! 0) \<noteq> 4 then 0
      else
        let ihl = unat (p ! 0 AND 0x0f) * 4 in
        if ihl < 20 \<or> length p < ihl then 0
        else
          let proto = p ! 9;
              h = foldl mix fnv_offset (take 8 (drop 12 p));
              h = mix h proto;
              fragOffset = (push_bit 8 (ucast (p ! 6 AND 0x1f)) OR ucast (p ! 7) :: 16 word)
          in if fragOffset = 0 \<and> (proto = 6 \<or> proto = 17 \<or> proto = 132) \<and> length p \<ge> ihl + 4
             then mix (mix (mix (mix h (p ! ihl)) (p ! (ihl + 1))) (p ! (ihl + 2))) (p ! (ihl + 3))
             else h)"

text \<open>
  The reference: FNV-1a over the flow's identity, which is the two addresses, the protocol
  and, where the packet shows them, the two ports.
\<close>

definition fnv1a :: "bytes \<Rightarrow> 32 word" where
  "fnv1a bs = foldl mix fnv_offset bs"

definition flow_key :: "bytes \<Rightarrow> (bytes \<times> byte \<times> bytes) option" where
  "flow_key p =
     (let ihl = unat (p ! 0 AND 0x0f) * 4;
          first = (p ! 6 AND 0x1f = 0 \<and> p ! 7 = 0);
          ported = (p ! 9 \<in> {6, 17, 132})
      in if length p \<ge> 20 \<and> drop_bit 4 (p ! 0) = 4 \<and> ihl \<ge> 20 \<and> length p \<ge> ihl
         then Some (take 8 (drop 12 p), p ! 9,
           if first \<and> ported \<and> length p \<ge> ihl + 4 then take 4 (drop ihl p) else [])
         else None)"

lemma push_bit_ucast_zero_iff:
  fixes a :: byte
  assumes "k \<le> 8"
  shows "(push_bit k (ucast a) :: 16 word) = 0 \<longleftrightarrow> a = 0"
proof
  assume z: "(push_bit k (ucast a) :: 16 word) = 0"
  show "a = 0"
  proof (rule bit_word_eqI)
    fix n assume "n < LENGTH(8)"
    then have "n < 8" by simp
    from z have "\<not> bit (push_bit k (ucast a) :: 16 word) (n + k)" by simp
    with \<open>n < 8\<close> assms show "bit a n \<longleftrightarrow> bit (0 :: byte) n"
      by (simp add: bit_simps)
  qed
qed simp

lemma frag_zero_iff:
  fixes a b :: byte
  shows "(push_bit 8 (ucast (a AND 0x1f)) OR ucast b :: 16 word) = 0 \<longleftrightarrow> a AND 0x1f = 0 \<and> b = 0"
  using push_bit_ucast_zero_iff [of 8 "a AND 0x1f"] push_bit_ucast_zero_iff [of 0 b]
  by (simp add: or_eq_0_iff)

lemma take4_drop: "length p \<ge> k + 4 \<Longrightarrow> take 4 (drop k p) = [p ! k, p ! (k+1), p ! (k+2), p ! (k+3)]"
  by (rule nth_equalityI) (auto simp: less_Suc_eq numeral_eq_Suc nth_Cons')

lemma flowHash_fnv:
  "flowHash p = (case flow_key p of None \<Rightarrow> 0 | Some (addrs, proto, ports) \<Rightarrow> fnv1a (addrs @ proto # ports))"
  by (auto simp: flowHash_def flow_key_def fnv1a_def Let_def frag_zero_iff take4_drop)

section \<open>State\<close>

datatype tunnel_error =
    errTunnelClosed
  | NilConn           \<comment> \<open>the panic of a call on a nil connection\<close>

record tunnel =
  heap :: "nat \<Rightarrow> conn"
  ws_closed :: "nat set"
  wire :: "(nat \<times> bytes) list"
  channels :: "(int \<times> nat) list"
  order :: "int list"
  t_closed :: bool
  inbound :: "bytes list"
  dead :: bool
  deadOnce :: bool
  has_onEmpty :: bool
  emptied :: nat

definition inbound_cap :: nat where "inbound_cap = 1024"

definition newTunnel :: "(nat \<Rightarrow> conn) \<Rightarrow> bool \<Rightarrow> tunnel" where
  "newTunnel hp onEmpty =
     \<lparr>heap = hp, ws_closed = {}, wire = [], channels = [], order = [], t_closed = False,
      inbound = [], dead = False, deadOnce = False, has_onEmpty = onEmpty, emptied = 0\<rparr>"

text \<open>The content of the addresses of a new tunnel's heap: nothing reads it before a connection is put there.\<close>

definition zero_conn :: conn where
  "zero_conn =
     (let a = \<lparr>aead = \<lparr>cipher_Overhead = 0, cipher_Seal = (\<lambda>_ _ _. []), cipher_Open = (\<lambda>_ _ _. None)\<rparr>,
               counter = 0, nonce = []\<rparr>
      in \<lparr>conn_seal = \<lparr>sealer_aead = a, sealer_pad = DefaultPad, sealer_count = 0\<rparr>,
          conn_open = \<lparr>opener_aead = a\<rparr>, conn_limit = 0\<rparr>)"

section \<open>Operations\<close>

text \<open>\<open>c.Close()\<close> on a connection: its WebSocket is torn down.\<close>

definition Conn_Close :: "nat \<Rightarrow> tunnel \<Rightarrow> tunnel" where
  "Conn_Close c t = t\<lparr>ws_closed := insert c (ws_closed t)\<rparr>"

text \<open>The result tells whether the read loop was started (else the done channel is closed).\<close>

definition addChannel :: "int \<Rightarrow> nat \<Rightarrow> tunnel \<Rightarrow> bool \<times> tunnel" where
  "addChannel idx c t =
     (if t_closed t then (False, Conn_Close c t)
      else (True, t\<lparr>channels := AList.update idx c (channels t), order := order t @ [idx]\<rparr>))"

definition markDead :: "tunnel \<Rightarrow> tunnel" where
  "markDead t =
     (if deadOnce t then t
      else t\<lparr>deadOnce := True, t_closed := True, dead := True,
             emptied := emptied t + (if has_onEmpty t then 1 else 0)\<rparr>)"

text \<open>The critical section of removeChannel: the connection to close and whether it was the last.\<close>

definition removeChannel_locked :: "int \<Rightarrow> tunnel \<Rightarrow> (nat \<times> bool) option \<times> tunnel" where
  "removeChannel_locked idx t =
     (case map_of (channels t) idx of
        None \<Rightarrow> (None, t)
      | Some c \<Rightarrow>
          let t' = t\<lparr>channels := AList.delete idx (channels t),
                     order := filter (\<lambda>i. i \<noteq> idx) (order t)\<rparr>
          in (Some (c, length (channels t') = 0), t'))"

definition removeChannel :: "int \<Rightarrow> tunnel \<Rightarrow> tunnel" where
  "removeChannel idx t =
     (case removeChannel_locked idx t of
        (None, t') \<Rightarrow> t'
      | (Some (c, was_last), t') \<Rightarrow>
          let t'' = Conn_Close c t' in if was_last then markDead t'' else t'')"

definition channelCount :: "tunnel \<Rightarrow> nat" where
  "channelCount t = length (channels t)"

text \<open>
  What the environment does during a write: the randomness of the padding, by attempt, and
  whether the WebSocket of a connection takes a message.
\<close>

record write_env =
  env_raw :: "nat \<Rightarrow> int"
  env_fill :: "nat \<Rightarrow> bytes option"
  env_ok :: "nat \<Rightarrow> bool"

definition set_conn :: "nat \<Rightarrow> conn \<Rightarrow> tunnel \<Rightarrow> tunnel" where
  "set_conn c k t = t\<lparr>heap := (heap t)(c := k)\<rparr>"

text \<open>The loop over \<open>tries\<close> from 0 to 3; the first argument counts the iterations left.\<close>

fun write_loop ::
  "nat \<Rightarrow> 32 word \<Rightarrow> nat \<Rightarrow> bytes \<Rightarrow> write_env \<Rightarrow> tunnel \<Rightarrow> (tunnel_error + nat) \<times> tunnel" where
  "write_loop 0 h tries p env t = (Inl errTunnelClosed, t)"
| "write_loop (Suc k) h tries p env t =
     (let n = length (order t) in
      if n = 0 then (Inl errTunnelClosed, t)
      else
        let idx = order t ! unat ((h + of_nat tries) mod of_nat n) in
        case map_of (channels t) idx of
          None \<Rightarrow> (Inl NilConn, t)
        | Some c \<Rightarrow>
            (case Conn_WritePacket (heap t c) p (env_raw env tries) (env_fill env tries) (env_ok env c) of
               (Inl e, k') \<Rightarrow>
                 write_loop k h (tries + 1) p env (removeChannel idx (set_conn c k' t))
             | (Inr ct, k') \<Rightarrow>
                 (Inr c, (set_conn c k' t)\<lparr>wire := wire t @ [(c, ct)]\<rparr>)))"

definition Tunnel_WritePacket ::
  "bytes \<Rightarrow> write_env \<Rightarrow> tunnel \<Rightarrow> (tunnel_error + nat) \<times> tunnel" where
  "Tunnel_WritePacket p env t = write_loop 4 (flowHash p) 0 p env t"

text \<open>The snapshot of WriteKeepalive, then one keepalive for each connection of it.\<close>

fun keepalive_loop ::
  "nat \<Rightarrow> (int \<times> nat option) list \<Rightarrow> write_env \<Rightarrow> tunnel \<Rightarrow> tunnel_error option \<times> tunnel" where
  "keepalive_loop i [] env t = (None, t)"
| "keepalive_loop i ((idx, None) # cs) env t = (Some NilConn, t)"
| "keepalive_loop i ((idx, Some c) # cs) env t =
     (case Conn_WriteKeepalive (heap t c) (env_raw env i) (env_fill env i) (env_ok env c) of
        (Inl e, k') \<Rightarrow> keepalive_loop (i + 1) cs env (removeChannel idx (set_conn c k' t))
      | (Inr ct, k') \<Rightarrow>
          keepalive_loop (i + 1) cs env ((set_conn c k' t)\<lparr>wire := wire t @ [(c, ct)]\<rparr>))"

definition Tunnel_WriteKeepalive :: "write_env \<Rightarrow> tunnel \<Rightarrow> tunnel_error option \<times> tunnel" where
  "Tunnel_WriteKeepalive env t =
     (let cs = map (\<lambda>idx. (idx, map_of (channels t) idx)) (order t) in
      if cs = [] then (Some errTunnelClosed, t) else keepalive_loop 0 cs env t)"

datatype tunnel_read = TunnelBlocked | TunnelEOF tunnel_error | TunnelPacket bytes

definition Tunnel_ReadPacket :: "tunnel \<Rightarrow> tunnel_read \<times> tunnel" where
  "Tunnel_ReadPacket t =
     (case inbound t of
        p # ps \<Rightarrow> (TunnelPacket p, t\<lparr>inbound := ps\<rparr>)
      | [] \<Rightarrow> if dead t then (TunnelEOF errTunnelClosed, t) else (TunnelBlocked, t))"

definition Tunnel_Close_locked :: "tunnel \<Rightarrow> nat list \<times> tunnel" where
  "Tunnel_Close_locked t = (map snd (channels t), t\<lparr>channels := [], order := []\<rparr>)"

definition Tunnel_Close :: "tunnel \<Rightarrow> tunnel" where
  "Tunnel_Close t =
     (let (cs, t') = Tunnel_Close_locked t in markDead (fold Conn_Close cs t'))"

section \<open>Invariants\<close>

text \<open>Keys of the map are distinct, and the slice holds exactly the keys.\<close>

definition tunnel_inv :: "tunnel \<Rightarrow> bool" where
  "tunnel_inv t \<longleftrightarrow> distinct (map fst (channels t)) \<and> set (order t) = fst ` set (channels t)"

text \<open>The death of the tunnel is one event, and fires the callback once.\<close>

definition once_inv :: "tunnel \<Rightarrow> bool" where
  "once_inv t \<longleftrightarrow> dead t = deadOnce t \<and> t_closed t = deadOnce t
     \<and> emptied t = (if deadOnce t \<and> has_onEmpty t then 1 else 0)"

text \<open>A dead tunnel has no channels.\<close>

definition dead_inv :: "tunnel \<Rightarrow> bool" where
  "dead_inv t \<longleftrightarrow> (dead t \<longrightarrow> channels t = [])"

definition tunnel_ok :: "tunnel \<Rightarrow> bool" where
  "tunnel_ok t \<longleftrightarrow> tunnel_inv t \<and> once_inv t \<and> dead_inv t"

lemmas tunnel_defs = tunnel_inv_def once_inv_def dead_inv_def

lemma delete_set: "fst ` set (AList.delete k al) = fst ` set al - {k}"
proof -
  have "set (map fst (AList.delete k al)) = set (removeAll k (map fst al))"
    by (simp only: AList.delete_keys)
  then show ?thesis by simp
qed

lemma newTunnel_ok: "tunnel_ok (newTunnel hp f)"
  by (simp add: tunnel_ok_def tunnel_defs newTunnel_def)

lemma Conn_Close_fields [simp]:
  "heap (Conn_Close c t) = heap t" "wire (Conn_Close c t) = wire t"
  "channels (Conn_Close c t) = channels t" "order (Conn_Close c t) = order t"
  "t_closed (Conn_Close c t) = t_closed t" "inbound (Conn_Close c t) = inbound t"
  "dead (Conn_Close c t) = dead t" "deadOnce (Conn_Close c t) = deadOnce t"
  "has_onEmpty (Conn_Close c t) = has_onEmpty t" "emptied (Conn_Close c t) = emptied t"
  "ws_closed (Conn_Close c t) = insert c (ws_closed t)"
  by (simp_all add: Conn_Close_def)

lemma set_conn_fields [simp]:
  "heap (set_conn c k t) = (heap t)(c := k)" "wire (set_conn c k t) = wire t"
  "channels (set_conn c k t) = channels t" "order (set_conn c k t) = order t"
  "t_closed (set_conn c k t) = t_closed t" "inbound (set_conn c k t) = inbound t"
  "dead (set_conn c k t) = dead t" "deadOnce (set_conn c k t) = deadOnce t"
  "has_onEmpty (set_conn c k t) = has_onEmpty t" "emptied (set_conn c k t) = emptied t"
  "ws_closed (set_conn c k t) = ws_closed t"
  by (simp_all add: set_conn_def)

lemma markDead_fields [simp]:
  "heap (markDead t) = heap t" "wire (markDead t) = wire t"
  "channels (markDead t) = channels t" "order (markDead t) = order t"
  "inbound (markDead t) = inbound t" "ws_closed (markDead t) = ws_closed t"
  "has_onEmpty (markDead t) = has_onEmpty t" "deadOnce (markDead t)"
  by (simp_all add: markDead_def)

lemma addChannel_ok: "tunnel_ok t \<Longrightarrow> tunnel_ok (snd (addChannel idx c t))"
  by (auto simp: tunnel_ok_def tunnel_defs addChannel_def AList.dom_update AList.distinct_update)

lemma markDead_ok: "tunnel_inv t \<Longrightarrow> once_inv t \<Longrightarrow> channels t = [] \<Longrightarrow> tunnel_ok (markDead t)"
  by (auto simp: tunnel_ok_def tunnel_defs markDead_def)

lemma removeChannel_None: "map_of (channels t) idx = None \<Longrightarrow> removeChannel idx t = t"
  by (simp add: removeChannel_def removeChannel_locked_def)

lemma removeChannel_fields:
  assumes "map_of (channels t) idx = Some c"
  shows "channels (removeChannel idx t) = AList.delete idx (channels t)"
    and "order (removeChannel idx t) = filter (\<lambda>i. i \<noteq> idx) (order t)"
    and "ws_closed (removeChannel idx t) = insert c (ws_closed t)"
    and "heap (removeChannel idx t) = heap t" and "wire (removeChannel idx t) = wire t"
    and "inbound (removeChannel idx t) = inbound t"
  using assms by (simp_all add: removeChannel_def removeChannel_locked_def Let_def)

lemma removeChannel_ok:
  assumes "tunnel_ok t" shows "tunnel_ok (removeChannel idx t)"
proof (cases "map_of (channels t) idx")
  case None
  with assms show ?thesis by (simp add: removeChannel_None)
next
  case (Some c)
  let ?t = "t\<lparr>channels := AList.delete idx (channels t), order := filter (\<lambda>i. i \<noteq> idx) (order t)\<rparr>"
  have inv: "tunnel_ok (Conn_Close c ?t)"
    using assms by (auto simp: tunnel_ok_def tunnel_defs delete_set AList.distinct_delete)
  then have "channels (Conn_Close c ?t) = [] \<Longrightarrow> tunnel_ok (markDead (Conn_Close c ?t))"
    by (intro markDead_ok) (simp_all add: tunnel_ok_def)
  with inv Some show ?thesis
    by (simp add: removeChannel_def removeChannel_locked_def Let_def)
qed

lemma tunnel_ok_set_conn [simp]: "tunnel_ok (set_conn c k t) = tunnel_ok t"
  by (simp add: tunnel_ok_def tunnel_defs)

lemma tunnel_ok_wire [simp]: "tunnel_ok (t\<lparr>wire := w\<rparr>) = tunnel_ok t"
  by (simp add: tunnel_ok_def tunnel_defs)

lemma write_loop_ok: "tunnel_ok t \<Longrightarrow> tunnel_ok (snd (write_loop k h tries p env t))"
proof (induction k h tries p env t rule: write_loop.induct)
  case (2 k h tries p env t)
  let ?idx = "order t ! unat ((h + of_nat tries) mod of_nat (length (order t)))"
  show ?case
  proof (cases "order t = [] \<or> map_of (channels t) ?idx = None")
    case True
    with "2.prems" show ?thesis by (auto simp: Let_def)
  next
    case False
    then obtain c where c: "map_of (channels t) ?idx = Some c" and ne: "length (order t) \<noteq> 0"
      by auto
    obtain r k' where w: "Conn_WritePacket (heap t c) p (env_raw env tries) (env_fill env tries)
        (env_ok env c) = (r, k')" by fastforce
    show ?thesis
    proof (cases r)
      case (Inl e)
      from "2.prems" have "tunnel_ok (removeChannel ?idx (set_conn c k' t))"
        by (simp add: removeChannel_ok)
      from "2.IH" [OF refl ne refl c w [symmetric] Inl this] c ne w Inl show ?thesis
        by (simp add: Let_def)
    next
      case (Inr ct)
      with "2.prems" c ne w show ?thesis by (simp add: Let_def)
    qed
  qed
qed simp

lemma keepalive_loop_ok: "tunnel_ok t \<Longrightarrow> tunnel_ok (snd (keepalive_loop i cs env t))"
  by (induction i cs env t rule: keepalive_loop.induct)
    (auto simp: removeChannel_ok split: prod.splits sum.splits)

lemma Tunnel_Close_fields:
  "channels (Tunnel_Close t) = []" "order (Tunnel_Close t) = []"
  "ws_closed (Tunnel_Close t) = ws_closed t \<union> snd ` set (channels t)"
proof -
  have "channels (fold Conn_Close cs u) = channels u" "order (fold Conn_Close cs u) = order u"
    "ws_closed (fold Conn_Close cs u) = ws_closed u \<union> set cs" for cs u
    by (induction cs arbitrary: u) auto
  then show "channels (Tunnel_Close t) = []" "order (Tunnel_Close t) = []"
    "ws_closed (Tunnel_Close t) = ws_closed t \<union> snd ` set (channels t)"
    by (simp_all add: Tunnel_Close_def Tunnel_Close_locked_def)
qed

lemma fold_Conn_Close_once: "once_inv (fold Conn_Close cs u) = once_inv u"
  by (induction cs arbitrary: u) (auto simp: once_inv_def)

lemma Tunnel_Close_ok: "tunnel_ok t \<Longrightarrow> tunnel_ok (Tunnel_Close t)"
proof -
  assume ok: "tunnel_ok t"
  have f: "channels (fold Conn_Close cs u) = channels u" "order (fold Conn_Close cs u) = order u"
    for cs u by (induction cs arbitrary: u) auto
  have "once_inv (t\<lparr>channels := [], order := []\<rparr>)"
    using ok by (simp add: tunnel_ok_def once_inv_def)
  then show ?thesis
    unfolding Tunnel_Close_def Tunnel_Close_locked_def split Let_def
    by (intro markDead_ok) (simp_all add: fold_Conn_Close_once tunnel_inv_def f)
qed

lemma Tunnel_ReadPacket_ok: "tunnel_ok t \<Longrightarrow> tunnel_ok (snd (Tunnel_ReadPacket t))"
  by (auto simp: Tunnel_ReadPacket_def tunnel_ok_def tunnel_defs split: list.split)

lemmas tunnel_ok_intros =
  addChannel_ok removeChannel_ok write_loop_ok keepalive_loop_ok Tunnel_Close_ok Tunnel_ReadPacket_ok

section \<open>What a write does\<close>

text \<open>The index an attempt picks is in range.\<close>

lemma choice_in_order:
  fixes x :: "32 word"
  assumes "length xs \<noteq> 0" and "length xs < 2 ^ 32"
  shows "unat (x mod of_nat (length xs)) < length xs"
proof -
  have "unat (of_nat (length xs) :: 32 word) = length xs"
    using assms(2) by (simp add: unat_of_nat)
  then show ?thesis using assms(1) by (simp add: unat_mod_distrib)
qed

definition choice :: "32 word \<Rightarrow> nat \<Rightarrow> tunnel \<Rightarrow> int" where
  "choice h tries t = order t ! unat ((h + of_nat tries) mod of_nat (length (order t)))"

lemma choice_mem:
  "order t \<noteq> [] \<Longrightarrow> length (order t) < 2 ^ 32 \<Longrightarrow> choice h tries t \<in> set (order t)"
  unfolding choice_def by (intro nth_mem choice_in_order) auto

lemma choice_conn:
  assumes "tunnel_inv t" "order t \<noteq> []" "length (order t) < 2 ^ 32"
  shows "\<exists>c. map_of (channels t) (choice h tries t) = Some c"
proof -
  from choice_mem [OF assms(2,3)] assms(1)
  have "choice h tries t \<in> fst ` set (channels t)" by (simp add: tunnel_inv_def)
  then show ?thesis by (metis map_of_eq_None_iff not_None_eq)
qed

abbreviation attempt :: "bytes \<Rightarrow> write_env \<Rightarrow> nat \<Rightarrow> tunnel \<Rightarrow> nat \<Rightarrow> (conn_error + bytes) \<times> conn" where
  "attempt p env i t c \<equiv>
     Conn_WritePacket (heap t c) p (env_raw env i) (env_fill env i) (env_ok env c)"

text \<open>One iteration: nothing left, a refused write, or a write that goes out.\<close>

lemma write_loop_empty: "order t = [] \<Longrightarrow> write_loop k h i p env t = (Inl errTunnelClosed, t)"
  by (cases k) simp_all

lemma write_loop_fail:
  "order t \<noteq> [] \<Longrightarrow> map_of (channels t) (choice h i t) = Some c \<Longrightarrow>
   attempt p env i t c = (Inl e, k') \<Longrightarrow>
   write_loop (Suc k) h i p env t
     = write_loop k h (i + 1) p env (removeChannel (choice h i t) (set_conn c k' t))"
  by (simp add: choice_def Let_def)

lemma write_loop_success:
  "order t \<noteq> [] \<Longrightarrow> map_of (channels t) (choice h i t) = Some c \<Longrightarrow>
   attempt p env i t c = (Inr ct, k') \<Longrightarrow>
   write_loop (Suc k) h i p env t = (Inr c, (set_conn c k' t)\<lparr>wire := wire t @ [(c, ct)]\<rparr>)"
  by (simp add: choice_def Let_def)

declare write_loop.simps(2) [simp del]

lemma removeChannel_inv: "tunnel_inv t \<Longrightarrow> tunnel_inv (removeChannel idx t)"
proof (cases "map_of (channels t) idx")
  case (Some c)
  then show "tunnel_inv t \<Longrightarrow> tunnel_inv (removeChannel idx t)"
    by (auto simp: tunnel_inv_def removeChannel_fields delete_set AList.distinct_delete)
qed (simp add: removeChannel_None)

lemma removeChannel_order_less:
  assumes "map_of (channels t) idx = Some c" "idx \<in> set (order t)"
  shows "length (order (removeChannel idx t)) < length (order t)"
  using assms by (simp add: removeChannel_fields length_filter_less)

lemma tunnel_inv_set_conn [simp]: "tunnel_inv (set_conn c k t) = tunnel_inv t"
  by (simp add: tunnel_inv_def)

text \<open>Case analysis of one iteration under the invariant.\<close>

lemma write_loop_cases:
  assumes "tunnel_inv t" "length (order t) < 2 ^ 32"
  obtains (stop) "k = 0 \<or> order t = []" "write_loop k h i p env t = (Inl errTunnelClosed, t)"
  | (fail) c e k' j t1 where "k = Suc j" "order t \<noteq> []" "map_of (channels t) (choice h i t) = Some c"
      "attempt p env i t c = (Inl e, k')" "t1 = removeChannel (choice h i t) (set_conn c k' t)"
      "write_loop k h i p env t = write_loop j h (i + 1) p env t1"
      "tunnel_inv t1" "length (order t1) < length (order t)" "length (order t1) < 2 ^ 32"
  | (sent) c ct k' j where "k = Suc j" "order t \<noteq> []" "map_of (channels t) (choice h i t) = Some c"
      "attempt p env i t c = (Inr ct, k')"
      "write_loop k h i p env t = (Inr c, (set_conn c k' t)\<lparr>wire := wire t @ [(c, ct)]\<rparr>)"
proof (cases "k = 0 \<or> order t = []")
  case True
  then show ?thesis using stop write_loop_empty by (metis write_loop.simps(1))
next
  case False
  then obtain j where j: "k = Suc j" and ne: "order t \<noteq> []" by (cases k) auto
  obtain c where c: "map_of (channels t) (choice h i t) = Some c"
    using choice_conn [OF assms(1) ne assms(2)] by blast
  obtain r k' where w: "attempt p env i t c = (r, k')" by fastforce
  show ?thesis
  proof (cases r)
    case (Inl e)
    let ?t1 = "removeChannel (choice h i t) (set_conn c k' t)"
    have less: "length (order ?t1) < length (order t)"
      using removeChannel_order_less [of "set_conn c k' t"] c choice_mem [OF ne assms(2)] by simp
    from w Inl have att: "attempt p env i t c = (Inl e, k')" by simp
    from fail [OF j ne c att refl _ _ less] show ?thesis
      using write_loop_fail [OF ne c att] assms less by (simp add: j removeChannel_inv)
  next
    case (Inr ct)
    with w have att: "attempt p env i t c = (Inr ct, k')" by simp
    from sent [OF j ne c att] show ?thesis using write_loop_success [OF ne c att] j by simp
  qed
qed

lemma write_loop_no_panic:
  "tunnel_inv t \<Longrightarrow> length (order t) < 2 ^ 32 \<Longrightarrow> fst (write_loop k h i p env t) \<noteq> Inl NilConn"
proof (induction k arbitrary: i t)
  case (Suc k)
  show ?case
    by (rule write_loop_cases [OF Suc.prems, of "Suc k" h i p env]) (use Suc.IH in auto)
qed simp

lemma write_loop_order_le:
  "tunnel_inv t \<Longrightarrow> length (order t) < 2 ^ 32 \<Longrightarrow>
     length (order (snd (write_loop k h i p env t))) \<le> length (order t)"
proof (induction k arbitrary: i t)
  case (Suc k)
  show ?case
  proof (rule write_loop_cases [OF Suc.prems, of "Suc k" h i p env])
    fix c e k' j t1
    assume j: "Suc k = Suc j" and eq: "write_loop (Suc k) h i p env t = write_loop j h (i + 1) p env t1"
      and t1: "tunnel_inv t1" "length (order t1) < length (order t)" "length (order t1) < 2 ^ 32"
    have "k = j" using j by simp
    then show ?thesis using Suc.IH [OF t1(1,3), of "i + 1"] t1(2) unfolding eq by simp
  qed simp_all
qed simp

text \<open>A write that loses no channel was done at the first attempt.\<close>

lemma write_keeps_order:
  assumes "tunnel_inv t" "length (order t) < 2 ^ 32"
    and "write_loop k h i p env t = (Inr c, t')" and "order t' = order t"
  shows "map_of (channels t) (choice h i t) = Some c \<and> channels t' = channels t
    \<and> (\<exists>ct. wire t' = wire t @ [(c, ct)])"
proof (rule write_loop_cases [OF assms(1,2), of k h i p env])
  fix c' e k' j t1
  assume eq: "write_loop k h i p env t = write_loop j h (i + 1) p env t1"
    and t1: "tunnel_inv t1" "length (order t1) < length (order t)" "length (order t1) < 2 ^ 32"
  have "length (order t') \<le> length (order t1)"
    using write_loop_order_le [OF t1(1,3), of j h "i + 1" p env] assms(3) eq by simp
  with t1(2) assms(4) show ?thesis by simp
next
  fix d ct k' j
  assume "map_of (channels t) (choice h i t) = Some d" "order t \<noteq> []"
    and "write_loop k h i p env t = (Inr d, (set_conn d k' t)\<lparr>wire := wire t @ [(d, ct)]\<rparr>)"
  with assms(3) show ?thesis by auto
qed (use assms in auto)

subsection \<open>When every write fails\<close>

text \<open>
  A packet that no connection will take: it is too large for a record, or no WebSocket
  accepts a message.
\<close>

definition unwritable :: "bytes \<Rightarrow> write_env \<Rightarrow> bool" where
  "unwritable p env \<longleftrightarrow> length p > MaxPayload \<or> (\<forall>c. \<not> env_ok env c)"

lemma unwritable_attempt: "unwritable p env \<Longrightarrow> \<exists>e k'. attempt p env i t c = (Inl e, k')"
proof (cases "length p > MaxPayload")
  case True then show ?thesis by (simp add: WritePacket_big)
next
  case False
  moreover assume "unwritable p env"
  ultimately show ?thesis
    by (auto simp: unwritable_def Conn_WritePacket_def conn_send_def split: prod.splits sum.splits)
qed

lemma order_channels_length:
  assumes "tunnel_inv t" "distinct (order t)" shows "length (order t) = length (channels t)"
proof -
  from assms(1) have "card (set (order t)) = card (set (map fst (channels t)))"
    by (simp add: tunnel_inv_def)
  then have "length (order t) = length (map fst (channels t))"
    using assms by (simp only: distinct_card tunnel_inv_def)
  then show ?thesis by simp
qed

lemma removeChannel_distinct: "distinct (order t) \<Longrightarrow> distinct (order (removeChannel idx t))"
proof (cases "map_of (channels t) idx")
  case (Some c)
  then show "distinct (order t) \<Longrightarrow> distinct (order (removeChannel idx t))"
    by (simp add: removeChannel_fields)
qed (simp add: removeChannel_None)

lemma removeChannel_length:
  assumes "tunnel_inv t" "distinct (order t)" "map_of (channels t) idx = Some c"
  shows "Suc (length (channels (removeChannel idx t))) = length (channels t)"
proof -
  from assms(3) have "idx \<in> fst ` set (channels t)" by (metis map_of_eq_None_iff option.distinct(1))
  then have mem: "idx \<in> set (order t)" using assms(1) by (simp add: tunnel_inv_def)
  have "order (removeChannel idx t) = remove1 idx (order t)"
    using assms by (simp add: removeChannel_fields distinct_remove1_removeAll removeAll_filter_not_eq)
      (rule filter_cong, auto)
  then have "Suc (length (order (removeChannel idx t))) = length (order t)"
    using mem by (simp add: length_remove1) (metis Suc_pred length_pos_if_in_set)
  then show ?thesis
    using order_channels_length [OF assms(1,2)]
      order_channels_length [OF removeChannel_inv [OF assms(1)] removeChannel_distinct [OF assms(2)]]
    by simp
qed

lemma removeChannel_dead:
  "length (channels t) > 1 \<Longrightarrow> tunnel_inv t \<Longrightarrow> distinct (order t) \<Longrightarrow>
     dead (removeChannel idx t) = dead t"
proof (cases "map_of (channels t) idx")
  case (Some c)
  assume a: "length (channels t) > 1" "tunnel_inv t" "distinct (order t)"
  from removeChannel_length [OF a(2,3) Some] a(1)
  have "channels (removeChannel idx t) \<noteq> []" by auto
  then have "AList.delete idx (channels t) \<noteq> []" using Some by (simp add: removeChannel_fields)
  with Some show "dead (removeChannel idx t) = dead t"
    by (simp add: removeChannel_def removeChannel_locked_def Let_def)
qed (simp add: removeChannel_None)

lemma write_loop_unwritable:
  "tunnel_inv t \<Longrightarrow> distinct (order t) \<Longrightarrow> length (order t) < 2 ^ 32 \<Longrightarrow> unwritable p env \<Longrightarrow>
   \<exists>t'. write_loop k h i p env t = (Inl errTunnelClosed, t')
     \<and> length (channels t') = length (channels t) - k
     \<and> (k < length (channels t) \<longrightarrow> dead t' = dead t)"
proof (induction k arbitrary: i t)
  case (Suc k)
  note inv = Suc.prems(1,2) and small = Suc.prems(3)
  show ?case
  proof (rule write_loop_cases [OF inv(1) small, of "Suc k" h i p env])
    assume "Suc k = 0 \<or> order t = []" "write_loop (Suc k) h i p env t = (Inl errTunnelClosed, t)"
    then show ?thesis using order_channels_length [OF inv] by auto
  next
    fix c e k' j t1
    assume j: "Suc k = Suc j" and c: "map_of (channels t) (choice h i t) = Some c"
      and t1: "t1 = removeChannel (choice h i t) (set_conn c k' t)"
      and eq: "write_loop (Suc k) h i p env t = write_loop j h (i + 1) p env t1"
      and inv1: "tunnel_inv t1" and "length (order t1) < length (order t)"
      and small1: "length (order t1) < 2 ^ 32"
    let ?u = "set_conn c k' t"
    have u: "tunnel_inv ?u" "distinct (order ?u)" "map_of (channels ?u) (choice h i t) = Some c"
      using inv c by simp_all
    have d1: "distinct (order t1)" unfolding t1 by (rule removeChannel_distinct) (simp add: inv)
    have len: "Suc (length (channels t1)) = length (channels t)"
      unfolding t1 using removeChannel_length [OF u] by simp
    have dd: "dead t1 = dead t" if "1 < length (channels t)"
      unfolding t1 using removeChannel_dead [of ?u] that u by simp
    from Suc.IH [OF inv1 d1 small1 Suc.prems(4), of "i + 1"] obtain t' where
      "write_loop k h (i + 1) p env t1 = (Inl errTunnelClosed, t')"
      "length (channels t') = length (channels t1) - k"
      "k < length (channels t1) \<longrightarrow> dead t' = dead t1" by blast
    with j eq len dd show ?thesis by (intro exI [of _ t']) auto
  next
    fix c ct k' j
    assume "attempt p env i t c = (Inr ct, k')"
    then show ?thesis using unwritable_attempt [OF Suc.prems(4), where i = i and t = t and c = c] by auto
  qed
qed simp

subsection \<open>When some connection can take the packet\<close>

definition refusing :: "write_env \<Rightarrow> tunnel \<Rightarrow> nat set" where
  "refusing env t = {c \<in> snd ` set (channels t). \<not> (env_ok env c \<and> write_ready (heap t c))}"

lemma refusing_finite: "finite (refusing env t)"
  by (simp add: refusing_def)

lemma delete_conns:
  assumes "distinct (map snd al)" "map_of al k = Some c"
  shows "snd ` set (AList.delete k al) \<subseteq> snd ` set al"
    and "distinct (map fst al) \<Longrightarrow> snd ` set (AList.delete k al) = snd ` set al - {c}"
    and "distinct (map snd (AList.delete k al))"
proof -
  have eq: "AList.delete k al = filter (\<lambda>x. fst x \<noteq> k) al"
    unfolding AList.delete_eq by (rule filter_cong) auto
  show "snd ` set (AList.delete k al) \<subseteq> snd ` set al" by (auto simp: eq)
  show "distinct (map snd (AList.delete k al))"
    unfolding eq using assms(1) by (rule distinct_map_filter)
  assume fst: "distinct (map fst al)"
  from assms(2) have mem: "(k, c) \<in> set al" by (rule map_of_SomeD)
  have "y = c \<longleftrightarrow> x = k" if xy: "(x, y) \<in> set al" for x y
  proof
    assume "x = k" with xy mem fst show "y = c" by (blast dest: eq_key_imp_eq_value)
  next
    assume "y = c"
    moreover have "inj_on snd (set al)" using assms(1) by (simp add: distinct_map)
    ultimately have "(x, y) = (k, c)" using inj_onD [of snd "set al" "(x, y)" "(k, c)"] xy mem by simp
    then show "x = k" by simp
  qed
  then show "snd ` set (AList.delete k al) = snd ` set al - {c}"
    unfolding eq by (auto simp: image_iff) fastforce+
qed

lemma refusing_remove:
  assumes "tunnel_inv t" "distinct (map snd (channels t))" "map_of (channels t) idx = Some c"
  shows "refusing env (removeChannel idx (set_conn c k t)) = refusing env t - {c}"
proof -
  have "snd ` set (channels (removeChannel idx (set_conn c k t))) = snd ` set (channels t) - {c}"
    using assms delete_conns(2) [OF assms(2,3)]
    by (simp add: removeChannel_fields tunnel_inv_def)
  then show ?thesis using assms(3) by (auto simp: refusing_def removeChannel_fields)
qed

text \<open>
  If fewer connections refuse than the loop has attempts, and one does not, the packet goes
  out on one of those, and only connections that refused are closed.
\<close>

lemma write_loop_delivers:
  "tunnel_inv t \<Longrightarrow> distinct (map snd (channels t)) \<Longrightarrow> length (order t) < 2 ^ 32 \<Longrightarrow>
   length p \<le> MaxPayload \<Longrightarrow> (\<And>j. env_fill env j \<noteq> None) \<Longrightarrow>
   card (refusing env t) < k \<Longrightarrow> refusing env t \<noteq> snd ` set (channels t) \<Longrightarrow>
   \<exists>c ct t'. write_loop k h i p env t = (Inr c, t') \<and> c \<in> snd ` set (channels t) - refusing env t
     \<and> wire t' = wire t @ [(c, ct)] \<and> ws_closed t' \<subseteq> ws_closed t \<union> refusing env t"
proof (induction k arbitrary: i t)
  case (Suc k)
  note ready = WritePacket_ready [OF Suc.prems(4,5)]
  show ?case
  proof (rule write_loop_cases [OF Suc.prems(1,3), of "Suc k" h i p env])
    assume "Suc k = 0 \<or> order t = []"
    then have "channels t = []" using Suc.prems(1) by (auto simp: tunnel_inv_def)
    with Suc.prems(7) show ?thesis by (auto simp: refusing_def)
  next
    fix c e k' j t1
    assume j: "Suc k = Suc j" and c: "map_of (channels t) (choice h i t) = Some c"
      and att: "attempt p env i t c = (Inl e, k')"
      and t1: "t1 = removeChannel (choice h i t) (set_conn c k' t)"
      and eq: "write_loop (Suc k) h i p env t = write_loop j h (i + 1) p env t1"
      and inv1: "tunnel_inv t1" and small1: "length (order t1) < 2 ^ 32"
    have mem: "c \<in> snd ` set (channels t)" using map_of_SomeD [OF c] by force
    have "\<not> (env_ok env c \<and> write_ready (heap t c))"
      using ready [of "heap t c" "env_raw env i" i "env_ok env c"] att by auto
    with mem have ref: "c \<in> refusing env t" by (simp add: refusing_def)
    have conns: "snd ` set (channels t1) = snd ` set (channels t) - {c}"
      unfolding t1 using Suc.prems(1) c delete_conns(2) [OF Suc.prems(2) c]
      by (simp add: removeChannel_fields tunnel_inv_def)
    have dist: "distinct (map snd (channels t1))"
      unfolding t1 using c delete_conns(3) [OF Suc.prems(2) c] by (simp add: removeChannel_fields)
    have ref1: "refusing env t1 = refusing env t - {c}"
      unfolding t1 by (rule refusing_remove [OF Suc.prems(1,2) c])
    have few: "card (refusing env t1) < k"
      unfolding ref1 using card_Suc_Diff1 [OF refusing_finite ref] Suc.prems(6) by simp
    have some: "refusing env t1 \<noteq> snd ` set (channels t1)"
      using Suc.prems(7) insert_Diff [OF ref] insert_Diff [OF mem] by (simp only: ref1 conns) metis
    from Suc.IH [OF inv1 dist small1 Suc.prems(4,5) few some, of "i + 1"]
    obtain d ct t' where
      "write_loop k h (i + 1) p env t1 = (Inr d, t')"
      "d \<in> snd ` set (channels t1) - refusing env t1"
      "wire t' = wire t1 @ [(d, ct)]" "ws_closed t' \<subseteq> ws_closed t1 \<union> refusing env t1"
      by blast
    moreover have "wire t1 = wire t" "ws_closed t1 = insert c (ws_closed t)"
      unfolding t1 using c by (simp_all add: removeChannel_fields)
    moreover have "k = j" using j by simp
    ultimately have "write_loop (Suc k) h i p env t = (Inr d, t')"
      "d \<in> snd ` set (channels t) - refusing env t" "wire t' = wire t @ [(d, ct)]"
      "ws_closed t' \<subseteq> ws_closed t \<union> refusing env t"
      using eq ref ref1 conns by auto
    then show ?thesis by blast
  next
    fix c ct k' j
    assume c: "map_of (channels t) (choice h i t) = Some c"
      and att: "attempt p env i t c = (Inr ct, k')"
      and eq: "write_loop (Suc k) h i p env t = (Inr c, (set_conn c k' t)\<lparr>wire := wire t @ [(c, ct)]\<rparr>)"
    have "c \<in> snd ` set (channels t)" using map_of_SomeD [OF c] by force
    moreover have "env_ok env c \<and> write_ready (heap t c)"
      using ready [of "heap t c" "env_raw env i" i "env_ok env c"] att by auto
    ultimately show ?thesis using eq by (auto simp: refusing_def)
  qed
qed simp

subsection \<open>Two channels under one index\<close>

lemma update_conns:
  assumes "distinct (map fst al)" "map_of al k = Some c0"
    and "\<And>i. map_of al i = Some c0 \<Longrightarrow> i = k" and "c \<noteq> c0"
  shows "c0 \<notin> snd ` set (AList.update k c al)"
proof
  assume "c0 \<in> snd ` set (AList.update k c al)"
  then obtain i where "(i, c0) \<in> set (AList.update k c al)" by auto
  then have "map_of (AList.update k c al) i = Some c0"
    using AList.distinct_update [OF assms(1), of k c] by (rule map_of_is_SomeI [rotated])
  with assms(3,4) show False
    by (auto simp: AList.update_conv' split: if_splits)
qed

text \<open>
  The connection that a second addChannel with its index displaces is out of the tunnel's
  reach: closing the tunnel does not close it.
\<close>

lemma displaced_not_closed:
  assumes "tunnel_inv t" "\<not> t_closed t" "map_of (channels t) idx = Some c0" "c \<noteq> c0"
    and "\<And>i. map_of (channels t) i = Some c0 \<Longrightarrow> i = idx" and "c0 \<notin> ws_closed t"
  shows "c0 \<notin> ws_closed (Tunnel_Close (snd (addChannel idx c t)))"
proof -
  have "distinct (map fst (channels t))" using assms(1) by (simp add: tunnel_inv_def)
  from update_conns [OF this assms(3,5,4)] assms(2,6) show ?thesis
    by (simp add: Tunnel_Close_fields addChannel_def)
qed

text \<open>The first attempt succeeds when its connection takes the packet.\<close>

lemma write_first_try:
  assumes "map_of (channels t) (choice (flowHash p) 0 t) = Some c" "order t \<noteq> []"
    and "length p \<le> MaxPayload" "env_fill env 0 \<noteq> None" "env_ok env c"
    and "conn_count (heap t c) < 2 ^ 64 - 1"
  shows "\<exists>k ct. Tunnel_WritePacket p env t = (Inr c, (set_conn c k t)\<lparr>wire := wire t @ [(c, ct)]\<rparr>)
    \<and> conn_count k = Suc (conn_count (heap t c))"
proof -
  from conn_do_fits [of "Packet p (env_raw env 0) (env_fill env 0)" "heap t c"] assms(3-6)
  obtain ct k where "attempt p env 0 t c = (Inr ct, k)" "conn_count k = Suc (conn_count (heap t c))"
    by auto
  with write_loop_success [OF assms(2,1) this(1), of 3] show ?thesis
    by (auto simp: Tunnel_WritePacket_def numeral_eq_Suc)
qed

section \<open>Properties\<close>

text \<open>A tunnel with five channels, to evaluate the model on.\<close>

definition sample_tunnel :: tunnel where
  "sample_tunnel = (newTunnel (\<lambda>_. sample_conn) True)
     \<lparr>channels := [(0, 10), (1, 11), (2, 12), (3, 13), (4, 14)], order := [0, 1, 2, 3, 4]\<rparr>"

lemma sample_tunnel_ok: "tunnel_ok sample_tunnel"
  by (simp add: sample_tunnel_def tunnel_ok_def tunnel_defs newTunnel_def)

lemma sample_tunnel_fields [simp]:
  "channels sample_tunnel = [(0, 10), (1, 11), (2, 12), (3, 13), (4, 14)]"
  "order sample_tunnel = [0, 1, 2, 3, 4]" "heap sample_tunnel = (\<lambda>_. sample_conn)"
  "ws_closed sample_tunnel = {}" "wire sample_tunnel = []" "dead sample_tunnel = False"
  "t_closed sample_tunnel = False"
  by (simp_all add: sample_tunnel_def newTunnel_def)

lemma sample_write_ready [simp]: "write_ready sample_conn"
  by (simp add: write_ready_def sample_conn_def sample_stream_def)

definition sample_env :: "nat set \<Rightarrow> write_env" where
  "sample_env bad = \<lparr>env_raw = (\<lambda>_. 0), env_fill = (\<lambda>_. Some []), env_ok = (\<lambda>c. c \<notin> bad)\<rparr>"

lemma sample_env_fields [simp]:
  "env_raw (sample_env bad) = (\<lambda>_. 0)" "env_fill (sample_env bad) = (\<lambda>_. Some [])"
  "env_ok (sample_env bad) c = (c \<notin> bad)"
  by (simp_all add: sample_env_def)

text \<open>C13. Every operation of the tunnel keeps its invariant: the channel map has distinct
  indices and the order slice lists exactly these, the dead and closed flags are set together
  and only by the one event that also calls onEmpty (once, or never when there is none), and
  a dead tunnel has no channels.\<close>

theorem tunnel_operations_keep_invariant:
  assumes "tunnel_ok t"
  shows "tunnel_ok (snd (addChannel idx c t)) \<and> tunnel_ok (removeChannel idx t)
    \<and> tunnel_ok (snd (Tunnel_WritePacket p env t)) \<and> tunnel_ok (snd (Tunnel_WriteKeepalive env t))
    \<and> tunnel_ok (snd (Tunnel_ReadPacket t)) \<and> tunnel_ok (Tunnel_Close t)"
  using assms tunnel_ok_intros
  by (simp add: Tunnel_WritePacket_def Tunnel_WriteKeepalive_def Let_def)

theorem tunnel_operations_keep_invariant_witness:
  "tunnel_ok (Tunnel_Close sample_tunnel)"
  using tunnel_operations_keep_invariant [OF sample_tunnel_ok] by blast

text \<open>A packet is hashed by its flow: the hash is FNV-1a over the two IPv4 addresses, the
  protocol and, when the packet shows them (TCP, UDP or SCTP, first fragment, long enough),
  the two ports; anything that is not IPv4 hashes to zero, and the function is total: no
  input reads past the packet's end.\<close>

theorem flowHash_is_fnv_of_flow:
  "flowHash p =
     (case flow_key p of None \<Rightarrow> 0 | Some (addrs, proto, ports) \<Rightarrow> fnv1a (addrs @ proto # ports))"
  by (rule flowHash_fnv)

text \<open>C14. Flows are pinned: while no channel is lost, two packets of one flow go out on the same
  connection, so a flow is never reordered across channels.\<close>

theorem one_flow_one_channel:
  assumes "tunnel_inv t" "length (order t) < 2 ^ 32" "flow_key p = flow_key q"
    and "Tunnel_WritePacket p env t = (Inr c, t')" "order t' = order t"
    and "Tunnel_WritePacket q env' t' = (Inr d, t'')" "order t'' = order t'"
  shows "d = c \<and> (\<exists>ct ct'. wire t'' = wire t @ [(c, ct), (c, ct')])"
proof -
  have h: "flowHash p = flowHash q" using assms(3) by (simp add: flowHash_fnv)
  note 1 = write_keeps_order [OF assms(1,2) assms(4) [unfolded Tunnel_WritePacket_def] assms(5)]
  have "tunnel_inv t'" using 1 assms(1,5) by (simp add: tunnel_inv_def)
  from write_keeps_order [OF this _ assms(6) [unfolded Tunnel_WritePacket_def] assms(7)]
  have "map_of (channels t') (choice (flowHash q) 0 t') = Some d" "\<exists>ct. wire t'' = wire t' @ [(d, ct)]"
    using assms(2,5) by simp_all
  with 1 h assms(5) show ?thesis by (auto simp: choice_def)
qed

theorem one_flow_one_channel_witness:
  "\<exists>c t' t''. Tunnel_WritePacket [1] (sample_env {}) sample_tunnel = (Inr c, t')
     \<and> Tunnel_WritePacket [2] (sample_env {}) t' = (Inr c, t'')"
proof -
  let ?e = "sample_env {}"
  have inv: "tunnel_inv sample_tunnel" using sample_tunnel_ok by (simp add: tunnel_ok_def)
  have h: "flowHash [b] = 0" "choice 0 0 sample_tunnel = 0" for b
    by (simp_all add: flowHash_def choice_def)
  have "conn_count sample_conn = 0" by (simp add: conn_count_def sample_conn_def sample_stream_def)
  then obtain k ct where k: "Tunnel_WritePacket [1] ?e sample_tunnel
      = (Inr 10, (set_conn 10 k sample_tunnel)\<lparr>wire := wire sample_tunnel @ [(10, ct)]\<rparr>)" "conn_count k = 1"
    using write_first_try [of sample_tunnel "[1]" 10 ?e] by (auto simp: h MaxPayload_def)
  define t' where "t' = (set_conn 10 k sample_tunnel)\<lparr>wire := wire sample_tunnel @ [(10, ct)]\<rparr>"
  have "map_of (channels t') (choice 0 0 t') = Some 10" by (simp add: t'_def choice_def)
  with k(2) obtain k' ct' where k': "Tunnel_WritePacket [2] ?e t'
      = (Inr 10, (set_conn 10 k' t')\<lparr>wire := wire t' @ [(10, ct')]\<rparr>)"
    using write_first_try [of t' "[2]" 10 ?e] by (auto simp: h MaxPayload_def t'_def)
  have "(10 :: nat) = 10"
    using one_flow_one_channel [OF inv _ _ k(1) _ k' [unfolded t'_def]]
    by (simp add: flow_key_def)
  with k(1) k' show ?thesis unfolding t'_def by blast
qed

text \<open>Delivery: when fewer than four of the tunnel's connections refuse a packet that fits
  a record (their WebSocket fails or their nonces are used up) and at least one does not, the
  write succeeds on one that does not, writes exactly one message, and closes no connection
  but refusing ones.\<close>

theorem write_delivers:
  assumes "tunnel_inv t" "distinct (map snd (channels t))" "length (order t) < 2 ^ 32"
    and "length p \<le> MaxPayload" "\<And>j. env_fill env j \<noteq> None"
    and "card (refusing env t) < 4" "refusing env t \<noteq> snd ` set (channels t)"
  shows "\<exists>c ct t'. Tunnel_WritePacket p env t = (Inr c, t') \<and> c \<in> snd ` set (channels t) - refusing env t
    \<and> wire t' = wire t @ [(c, ct)] \<and> ws_closed t' \<subseteq> ws_closed t \<union> refusing env t"
  unfolding Tunnel_WritePacket_def by (rule write_loop_delivers [OF assms])

theorem write_delivers_witness:
  "\<exists>c ct t'. Tunnel_WritePacket [1] (sample_env {10, 11, 12}) sample_tunnel = (Inr c, t')
     \<and> c \<in> {13, 14} \<and> wire t' = [(c, ct)] \<and> ws_closed t' \<subseteq> {10, 11, 12}"
proof -
  define e where "e = sample_env {10, 11, 12}"
  have e: "env_fill e = (\<lambda>_. Some [])" "env_ok e c = (c \<notin> {10, 11, 12})" for c by (simp_all add: e_def)
  have r: "refusing e sample_tunnel = {10, 11, 12}" by (auto simp: refusing_def e)
  have inv: "tunnel_inv sample_tunnel" using sample_tunnel_ok by (simp add: tunnel_ok_def)
  have "13 \<in> snd ` set (channels sample_tunnel)" "13 \<notin> refusing e sample_tunnel" by (simp_all add: r)
  then have ne: "refusing e sample_tunnel \<noteq> snd ` set (channels sample_tunnel)" by metis
  have "snd ` set (channels sample_tunnel) - refusing e sample_tunnel = {13, 14}" by (auto simp: r)
  with write_delivers [OF inv _ _ _ _ _ ne, of "[1]"] show ?thesis
    unfolding e_def [symmetric] by (simp add: r e MaxPayload_def)
qed

text \<open>A write that every connection refuses gives up after four of them: it reports the
  tunnel as closed and removes exactly four channels (or all, when there are fewer), so with
  five or more channels the tunnel it calls closed is alive. A single packet larger than a
  record does this to four healthy channels.\<close>

theorem refused_write_costs_four_channels:
  assumes "tunnel_inv t" "distinct (order t)" "length (order t) < 2 ^ 32"
    and "length p > MaxPayload \<or> (\<forall>c. \<not> env_ok env c)"
  shows "\<exists>t'. Tunnel_WritePacket p env t = (Inl errTunnelClosed, t')
    \<and> channelCount t' = channelCount t - 4 \<and> (channelCount t > 4 \<longrightarrow> dead t' = dead t)"
  using write_loop_unwritable [OF assms(1-3), of p env 4 "flowHash p" 0] assms(4)
  by (simp add: Tunnel_WritePacket_def channelCount_def unwritable_def)

definition sample_big :: bytes where
  "sample_big = replicate 9001 0"

lemma length_sample_big: "length sample_big = 9001"
  unfolding sample_big_def by (rule length_replicate)

theorem refused_write_costs_four_channels_witness:
  "\<exists>t'. Tunnel_WritePacket sample_big (sample_env {}) sample_tunnel = (Inl errTunnelClosed, t')
     \<and> channelCount t' = 1 \<and> \<not> dead t'"
proof -
  have inv: "tunnel_inv sample_tunnel" using sample_tunnel_ok by (simp add: tunnel_ok_def)
  have count: "channelCount sample_tunnel = 5" by (simp add: channelCount_def)
  have big: "length sample_big > MaxPayload \<or> (\<forall>c. \<not> env_ok (sample_env {}) c)"
    by (simp only: length_sample_big MaxPayload_def) simp
  have "distinct (order sample_tunnel)" "length (order sample_tunnel) < 2 ^ 32" by simp_all
  from refused_write_costs_four_channels [OF inv this big] obtain t' where
    t': "Tunnel_WritePacket sample_big (sample_env {}) sample_tunnel = (Inl errTunnelClosed, t')"
    and "channelCount t' = 5 - 4" "5 > (4 :: nat) \<longrightarrow> dead t' = dead sample_tunnel"
    by (auto simp only: count)
  then have "channelCount t' = 1 \<and> \<not> dead t'" by simp
  with t' show ?thesis by blast
qed

text \<open>A second channel under an index already in use displaces the first one's connection
  from the map: closing the tunnel afterwards closes the new connection and leaves the
  displaced one open.\<close>

theorem duplicate_index_leaks_connection:
  assumes "tunnel_inv t" "\<not> t_closed t" "map_of (channels t) idx = Some c0" "c \<noteq> c0"
    and "\<And>i. map_of (channels t) i = Some c0 \<Longrightarrow> i = idx" and "c0 \<notin> ws_closed t"
  shows "c0 \<notin> ws_closed (Tunnel_Close (snd (addChannel idx c t)))
    \<and> c \<in> ws_closed (Tunnel_Close (snd (addChannel idx c t)))"
proof
  show "c0 \<notin> ws_closed (Tunnel_Close (snd (addChannel idx c t)))"
    by (rule displaced_not_closed [OF assms])
  have "map_of (AList.update idx c (channels t)) idx = Some c" by (simp add: AList.update_conv')
  then have "c \<in> snd ` set (AList.update idx c (channels t))" using map_of_SomeD by force
  then show "c \<in> ws_closed (Tunnel_Close (snd (addChannel idx c t)))"
    using assms(2) by (simp add: Tunnel_Close_fields addChannel_def)
qed

theorem duplicate_index_leaks_connection_witness:
  "10 \<notin> ws_closed (Tunnel_Close (snd (addChannel 0 20 sample_tunnel)))"
proof -
  have inv: "tunnel_inv sample_tunnel" using sample_tunnel_ok by (simp add: tunnel_ok_def)
  have "map_of (channels sample_tunnel) 0 = Some 10" "\<not> t_closed sample_tunnel"
    "(20 :: nat) \<noteq> 10" "10 \<notin> ws_closed sample_tunnel" by simp_all
  moreover have "i = 0" if "map_of (channels sample_tunnel) i = Some 10" for i
    using map_of_SomeD [OF that] by auto
  ultimately show ?thesis
    using duplicate_index_leaks_connection [OF inv, of 0 10 20] by blast
qed

end
