(* ===== verification/Krot_Bond.thy ===== *)
theory Krot_Bond
  imports Krot_Tunnel "HOL-Library.Multiset"
begin

text \<open>
  internal/transport/tunnel.go with its goroutines: a step relation whose steps are the
  critical sections of the tunnel's mutex and the effects between them. removeChannel leaves
  its critical section with a connection to close and, after the last channel, the call of
  markDead still to come; Close likewise; markDead sets the closed flag under the mutex, then
  closes the dead channel, then calls onEmpty. Any other step may come in between.

  \<open>Krot_Tunnel\<close>'s one-function operations are the runs of these steps that nothing
  interrupts (\<open>removeChannel_run\<close>, \<open>Close_run\<close>).
\<close>

section \<open>State and steps\<close>

text \<open>What a goroutine still has to do after its critical section.\<close>

datatype cont =
    Finish nat bool        \<comment> \<open>removeChannel: close the connection; was it the last channel\<close>
  | Closing "nat list"     \<comment> \<open>Close: the connections left to close\<close>
  | Marking                \<comment> \<open>about to call markDead\<close>
  | MarkDead1              \<comment> \<open>in markDead: \<open>close(t.dead)\<close> comes next\<close>
  | MarkDead2              \<comment> \<open>in markDead: \<open>t.onEmpty()\<close> comes next\<close>

record bond =
  btun :: tunnel
  pend :: "cont multiset"
  loops :: "(int \<times> nat) list"   \<comment> \<open>the running read loops\<close>
  added :: "nat set"            \<comment> \<open>connections handed to addChannel so far\<close>
  displaced :: "nat set"        \<comment> \<open>connections overwritten in the map\<close>

definition newBond :: "(nat \<Rightarrow> conn) \<Rightarrow> bool \<Rightarrow> bond" where
  "newBond hp onEmpty =
     \<lparr>btun = newTunnel hp onEmpty, pend = {#}, loops = [], added = {}, displaced = {}\<rparr>"

text \<open>
  \<open>remove\<close> is the critical section of removeChannel when a write failed (on whatever index
  the writer remembered), \<open>loop_err\<close> when a read loop failed; \<open>deliver\<close> is a read loop's
  send on the inbound channel, \<open>loop_dead\<close> its return when the tunnel is dead. A second
  markDead is held up by the sync.Once and then does nothing (\<open>mark_again\<close>).
\<close>

inductive bond_step :: "bond \<Rightarrow> bond \<Rightarrow> bool" where
  add: "addChannel idx c (btun b) = (started, t) \<Longrightarrow> c \<notin> added b \<Longrightarrow>
    bond_step b (b\<lparr>btun := t, added := insert c (added b),
      loops := (if started then (idx, c) # loops b else loops b),
      displaced := (if started then displaced b \<union> set_option (map_of (channels (btun b)) idx)
                    else displaced b)\<rparr>)"
| remove: "removeChannel_locked idx (btun b) = (Some (c, l), t) \<Longrightarrow>
    bond_step b (b\<lparr>btun := t, pend := add_mset (Finish c l) (pend b)\<rparr>)"
| loop_err: "(idx, c) \<in> set (loops b) \<Longrightarrow> removeChannel_locked idx (btun b) = (r, t) \<Longrightarrow>
    bond_step b (b\<lparr>btun := t, loops := remove1 (idx, c) (loops b),
      pend := (case r of None \<Rightarrow> pend b | Some (d, l) \<Rightarrow> add_mset (Finish d l) (pend b))\<rparr>)"
| finish: "pend b = add_mset (Finish c l) ps \<Longrightarrow>
    bond_step b (b\<lparr>btun := Conn_Close c (btun b), pend := (if l then add_mset Marking ps else ps)\<rparr>)"
| close: "Tunnel_Close_locked (btun b) = (cs, t) \<Longrightarrow>
    bond_step b (b\<lparr>btun := t, pend := add_mset (Closing cs) (pend b)\<rparr>)"
| closing: "pend b = add_mset (Closing (c # cs)) ps \<Longrightarrow>
    bond_step b (b\<lparr>btun := Conn_Close c (btun b), pend := add_mset (Closing cs) ps\<rparr>)"
| closed: "pend b = add_mset (Closing []) ps \<Longrightarrow> bond_step b (b\<lparr>pend := add_mset Marking ps\<rparr>)"
| mark: "pend b = add_mset Marking ps \<Longrightarrow> \<not> deadOnce (btun b) \<Longrightarrow>
    bond_step b (b\<lparr>btun := (btun b)\<lparr>deadOnce := True, t_closed := True\<rparr>, pend := add_mset MarkDead1 ps\<rparr>)"
| mark_again: "pend b = add_mset Marking ps \<Longrightarrow> deadOnce (btun b) \<Longrightarrow> bond_step b (b\<lparr>pend := ps\<rparr>)"
| mark_dead: "pend b = add_mset MarkDead1 ps \<Longrightarrow>
    bond_step b (b\<lparr>btun := (btun b)\<lparr>dead := True\<rparr>, pend := add_mset MarkDead2 ps\<rparr>)"
| mark_empty: "pend b = add_mset MarkDead2 ps \<Longrightarrow>
    bond_step b (b\<lparr>btun := (btun b)\<lparr>emptied := emptied (btun b) + (if has_onEmpty (btun b) then 1 else 0)\<rparr>,
      pend := ps\<rparr>)"
| deliver: "(idx, c) \<in> set (loops b) \<Longrightarrow> length (inbound (btun b)) < inbound_cap \<Longrightarrow>
    bond_step b (b\<lparr>btun := (btun b)\<lparr>inbound := inbound (btun b) @ [p]\<rparr>\<rparr>)"
| loop_dead: "(idx, c) \<in> set (loops b) \<Longrightarrow> dead (btun b) \<Longrightarrow>
    bond_step b (b\<lparr>loops := remove1 (idx, c) (loops b)\<rparr>)"
| read: "Tunnel_ReadPacket (btun b) = (TunnelPacket p, t) \<Longrightarrow> bond_step b (b\<lparr>btun := t\<rparr>)"

inductive bond_steps :: "bond \<Rightarrow> bond \<Rightarrow> bool" where
  refl: "bond_steps b b"
| step: "bond_step b b' \<Longrightarrow> bond_steps b' b'' \<Longrightarrow> bond_steps b b''"

definition reachable :: "bond \<Rightarrow> bool" where
  "reachable b \<longleftrightarrow> (\<exists>hp f. bond_steps (newBond hp f) b)"

lemma bond_steps_trans: "bond_steps a b \<Longrightarrow> bond_steps b c \<Longrightarrow> bond_steps a c"
  by (induction rule: bond_steps.induct) (auto intro: bond_steps.step)

lemma bond_steps_last: "bond_steps a b \<Longrightarrow> bond_step b c \<Longrightarrow> bond_steps a c"
  by (blast intro: bond_steps_trans bond_steps.intros)

section \<open>The uninterrupted runs\<close>

lemma mark_run:
  assumes "pend b = add_mset Marking ps" and "once_inv (btun b)"
  shows "bond_steps b (b\<lparr>btun := markDead (btun b), pend := ps\<rparr>)"
proof (cases "deadOnce (btun b)")
  case True
  then have "bond_step b (b\<lparr>pend := ps\<rparr>)" using assms(1) by (rule mark_again [rotated])
  with True show ?thesis by (auto simp: markDead_def intro: bond_steps.intros)
next
  case False
  let ?b1 = "b\<lparr>btun := (btun b)\<lparr>deadOnce := True, t_closed := True\<rparr>, pend := add_mset MarkDead1 ps\<rparr>"
  let ?b2 = "?b1\<lparr>btun := (btun ?b1)\<lparr>dead := True\<rparr>, pend := add_mset MarkDead2 ps\<rparr>"
  let ?b3 = "?b2\<lparr>btun := (btun ?b2)\<lparr>emptied := emptied (btun ?b2) + (if has_onEmpty (btun ?b2) then 1 else 0)\<rparr>,
      pend := ps\<rparr>"
  have "bond_step b ?b1" using assms(1) False by (rule mark)
  moreover have "bond_step ?b1 ?b2" by (rule mark_dead) simp
  moreover have "bond_step ?b2 ?b3" by (rule mark_empty) simp
  ultimately have "bond_steps b ?b3" by (blast intro: bond_steps.intros)
  moreover have "?b3 = b\<lparr>btun := markDead (btun b), pend := ps\<rparr>"
    using False by (simp add: markDead_def)
  ultimately show ?thesis by simp
qed

lemma bond_same [simp]: "b\<lparr>btun := btun b\<rparr> = b" "b\<lparr>btun := btun b, pend := pend b\<rparr> = b"
  by simp_all

lemma once_inv_Close [simp]: "once_inv (Conn_Close c t) = once_inv t"
  by (simp add: once_inv_def)

lemma removeChannel_run:
  assumes "once_inv (btun b)"
  shows "bond_steps b (b\<lparr>btun := removeChannel idx (btun b)\<rparr>)"
proof (cases "map_of (channels (btun b)) idx")
  case None
  then show ?thesis by (simp add: removeChannel_None bond_steps.refl)
next
  case (Some c)
  obtain l t where r: "removeChannel_locked idx (btun b) = (Some (c, l), t)"
    using Some by (simp add: removeChannel_locked_def Let_def)
  then have once: "once_inv (Conn_Close c t)" using assms Some
    by (auto simp: removeChannel_locked_def Let_def once_inv_def)
  let ?b1 = "b\<lparr>btun := t, pend := add_mset (Finish c l) (pend b)\<rparr>"
  let ?b2 = "?b1\<lparr>btun := Conn_Close c (btun ?b1), pend := (if l then add_mset Marking (pend b) else pend b)\<rparr>"
  have "bond_step b ?b1" using r by (rule remove)
  moreover have "bond_step ?b1 ?b2" by (rule finish) simp
  ultimately have s: "bond_steps b ?b2" by (blast intro: bond_steps.intros)
  show ?thesis
  proof (cases l)
    case True
    then have "bond_steps ?b2 (?b2\<lparr>btun := markDead (btun ?b2), pend := pend b\<rparr>)"
      using once by (intro mark_run) simp_all
    from bond_steps_trans [OF s this] True r show ?thesis by (simp add: removeChannel_def)
  next
    case False
    with s r show ?thesis by (simp add: removeChannel_def)
  qed
qed

lemma closing_run:
  "pend b = add_mset (Closing cs) ps \<Longrightarrow>
     bond_steps b (b\<lparr>btun := fold Conn_Close cs (btun b), pend := add_mset Marking ps\<rparr>)"
proof (induction cs arbitrary: b)
  case Nil
  from closed [OF Nil] show ?case by (auto intro: bond_steps.intros)
next
  case (Cons c cs)
  let ?b1 = "b\<lparr>btun := Conn_Close c (btun b), pend := add_mset (Closing cs) ps\<rparr>"
  have "bond_steps ?b1 (?b1\<lparr>btun := fold Conn_Close cs (btun ?b1), pend := add_mset Marking ps\<rparr>)"
    by (rule Cons.IH) simp
  with closing [OF Cons.prems] show ?case by (auto intro: bond_steps.step)
qed

lemma Close_run:
  assumes "once_inv (btun b)"
  shows "bond_steps b (b\<lparr>btun := Tunnel_Close (btun b)\<rparr>)"
proof -
  obtain cs t where r: "Tunnel_Close_locked (btun b) = (cs, t)" by fastforce
  then have once: "once_inv t" using assms by (auto simp: Tunnel_Close_locked_def once_inv_def)
  let ?b1 = "b\<lparr>btun := t, pend := add_mset (Closing cs) (pend b)\<rparr>"
  let ?b2 = "?b1\<lparr>btun := fold Conn_Close cs (btun ?b1), pend := add_mset Marking (pend b)\<rparr>"
  have "bond_step b ?b1" using r by (rule close)
  moreover have "bond_steps ?b1 ?b2" by (rule closing_run) simp
  moreover have "bond_steps ?b2 (?b2\<lparr>btun := markDead (btun ?b2), pend := pend b\<rparr>)"
    using once by (intro mark_run) (simp_all add: fold_Conn_Close_once)
  ultimately have "bond_steps b (?b2\<lparr>btun := markDead (btun ?b2), pend := pend b\<rparr>)"
    by (blast intro: bond_steps.step bond_steps_trans)
  with r show ?thesis by (simp add: Tunnel_Close_def)
qed

section \<open>Invariants of every interleaving\<close>

text \<open>markDead happens once, in its three steps, and onEmpty is called by the last.\<close>

definition once_ok :: "tunnel \<Rightarrow> nat \<Rightarrow> nat \<Rightarrow> bool" where
  "once_ok t m1 m2 \<longleftrightarrow> t_closed t = deadOnce t \<and> m1 + m2 \<le> (if deadOnce t then 1 else 0)
     \<and> dead t = (deadOnce t \<and> m1 = 0)
     \<and> emptied t = (if deadOnce t \<and> m1 + m2 = 0 \<and> has_onEmpty t then 1 else 0)"

definition bond_once :: "bond \<Rightarrow> bool" where
  "bond_once b \<longleftrightarrow> once_ok (btun b) (count (pend b) MarkDead1) (count (pend b) MarkDead2)"

text \<open>Some goroutine is on its way to markDead.\<close>

definition to_mark :: "cont \<Rightarrow> bool" where
  "to_mark k \<longleftrightarrow> (case k of Finish c l \<Rightarrow> l | Closing cs \<Rightarrow> True | Marking \<Rightarrow> True | _ \<Rightarrow> False)"

text \<open>When the last channel has left, the tunnel is dead or about to be.\<close>

definition bond_torn :: "bond \<Rightarrow> bool" where
  "bond_torn b \<longleftrightarrow> (t_closed (btun b) \<or> added b = {} \<or> channels (btun b) \<noteq> []
     \<or> (\<exists>k \<in># pend b. to_mark k))"

text \<open>A goroutine that will close the connection.\<close>

definition closes :: "nat \<Rightarrow> cont \<Rightarrow> bool" where
  "closes c k \<longleftrightarrow> (case k of Finish d l \<Rightarrow> d = c | Closing cs \<Rightarrow> c \<in> set cs | _ \<Rightarrow> False)"

text \<open>No connection is lost: it is closed, in the map, about to be closed, or displaced.\<close>

definition bond_accounted :: "bond \<Rightarrow> bool" where
  "bond_accounted b \<longleftrightarrow> (\<forall>c \<in> added b. c \<in> ws_closed (btun b) \<or> c \<in> snd ` set (channels (btun b))
     \<or> (\<exists>k \<in># pend b. closes c k) \<or> c \<in> displaced b)"

text \<open>Every channel in the map has its read loop, until the tunnel is dead.\<close>

definition bond_watched :: "bond \<Rightarrow> bool" where
  "bond_watched b \<longleftrightarrow> (dead (btun b) \<or> set (channels (btun b)) \<subseteq> set (loops b))"

lemma addChannel_cases:
  assumes "addChannel idx c t = (started, t')"
  obtains (no) "t_closed t" "\<not> started" "t' = Conn_Close c t"
  | (yes) "\<not> t_closed t" "started"
      "t' = t\<lparr>channels := AList.update idx c (channels t), order := order t @ [idx]\<rparr>"
  using assms by (auto simp: addChannel_def split: if_splits)

lemma locked_cases:
  assumes "removeChannel_locked idx t = (r, t')"
  obtains (none) "r = None" "t' = t" "map_of (channels t) idx = None"
  | (some) c where "map_of (channels t) idx = Some c"
      "t' = t\<lparr>channels := AList.delete idx (channels t), order := filter (\<lambda>i. i \<noteq> idx) (order t)\<rparr>"
      "r = Some (c, channels t' = [])"
  using assms by (auto simp: removeChannel_locked_def Let_def split: option.splits)

lemma ReadPacket_fields:
  "Tunnel_ReadPacket t = (r, t') \<Longrightarrow>
     channels t' = channels t \<and> order t' = order t \<and> t_closed t' = t_closed t \<and> dead t' = dead t
     \<and> deadOnce t' = deadOnce t \<and> emptied t' = emptied t \<and> has_onEmpty t' = has_onEmpty t
     \<and> ws_closed t' = ws_closed t \<and> length (inbound t') \<le> length (inbound t)"
  by (auto simp: Tunnel_ReadPacket_def split: list.splits if_splits)

lemma once_ok_frame [simp]:
  "once_ok (Conn_Close c t) = once_ok t" "once_ok (t\<lparr>channels := al\<rparr>) = once_ok t"
  "once_ok (t\<lparr>order := is\<rparr>) = once_ok t" "once_ok (t\<lparr>inbound := ps\<rparr>) = once_ok t"
  by (simp_all add: once_ok_def fun_eq_iff)

lemma step_once: "bond_step b b' \<Longrightarrow> bond_once b \<Longrightarrow> bond_once b'"
proof (induction rule: bond_step.induct)
  case (add idx c b started t)
  from add.hyps(1) show ?case
    by (cases rule: addChannel_cases) (use add.prems in \<open>simp_all add: bond_once_def\<close>)
next
  case (remove idx b c l t)
  from remove.hyps show ?case
    by (cases rule: locked_cases) (use remove.prems in \<open>simp_all add: bond_once_def\<close>)
next
  case (loop_err idx c b r t)
  from loop_err.hyps(2) show ?case
    by (cases rule: locked_cases) (use loop_err.prems in \<open>simp_all add: bond_once_def\<close>)
next
  case (close b cs t)
  then show ?case by (auto simp: bond_once_def Tunnel_Close_locked_def)
next
  case (read b p t)
  from ReadPacket_fields [OF read.hyps] read.prems show ?case by (simp add: bond_once_def once_ok_def)
next
  case (mark b ps)
  then show ?case by (simp add: bond_once_def once_ok_def)
next
  case (mark_dead b ps)
  then show ?case by (auto simp: bond_once_def once_ok_def split: if_splits)
next
  case (mark_empty b ps)
  then show ?case
    by (auto simp: bond_once_def once_ok_def simp flip: count_eq_zero_iff split: if_splits)
qed (simp_all add: bond_once_def)

lemma step_torn: "bond_step b b' \<Longrightarrow> bond_once b \<Longrightarrow> bond_torn b \<Longrightarrow> bond_torn b'"
proof (induction rule: bond_step.induct)
  case (add idx c b started t)
  have ne: "AList.update idx c al \<noteq> []" for al :: "(int \<times> nat) list" by (cases al) auto
  from add.hyps(1) show ?case
    by (cases rule: addChannel_cases) (use add.prems ne in \<open>simp_all add: bond_torn_def\<close>)
next
  case (remove idx b c l t)
  from remove.hyps show ?case
    by (cases rule: locked_cases) (use remove.prems in \<open>auto simp: bond_torn_def to_mark_def\<close>)
next
  case (loop_err idx c b r t)
  from loop_err.hyps(2) show ?case
    by (cases rule: locked_cases) (use loop_err.prems in \<open>auto simp: bond_torn_def to_mark_def\<close>)
next
  case (close b cs t)
  then show ?case by (auto simp: bond_torn_def Tunnel_Close_locked_def to_mark_def)
next
  case (read b p t)
  from ReadPacket_fields [OF read.hyps] read.prems show ?case by (simp add: bond_torn_def)
next
  case (mark_again b ps)
  then show ?case by (auto simp: bond_torn_def to_mark_def bond_once_def once_ok_def)
qed (auto simp: bond_torn_def to_mark_def)

lemma accounted_delete:
  assumes "x \<in> snd ` set (channels t)" "map_of (channels t) idx = Some c" "tunnel_inv t"
  shows "x = c \<or> x \<in> snd ` set (AList.delete idx (channels t))"
proof -
  from assms(1) obtain i where i: "(i, x) \<in> set (channels t)" by auto
  then have "map_of (channels t) i = Some x" using assms(3) by (simp add: tunnel_inv_def)
  with i assms(2) show ?thesis by (cases "i = idx") (force simp: AList.delete_eq)+
qed

lemma accounted_locked:
  assumes "removeChannel_locked idx (btun b) = (Some (d, l), t)"
    and "tunnel_inv (btun b)" "bond_accounted b"
  shows "bond_accounted (b\<lparr>btun := t, loops := ls, pend := add_mset (Finish d l) (pend b)\<rparr>)"
  using assms(1)
proof (cases rule: locked_cases)
  case (some c)
  then have d: "d = c" by simp
  show ?thesis
    unfolding bond_accounted_def
  proof
    fix x assume "x \<in> added (b\<lparr>btun := t, loops := ls, pend := add_mset (Finish d l) (pend b)\<rparr>)"
    then have "x \<in> added b" by simp
    then consider "x \<in> ws_closed (btun b)" | "x \<in> snd ` set (channels (btun b))"
      | k where "k \<in># pend b" "closes x k" | "x \<in> displaced b"
      using assms(3) unfolding bond_accounted_def by blast
    then show "x \<in> ws_closed (btun (b\<lparr>btun := t, loops := ls, pend := add_mset (Finish d l) (pend b)\<rparr>))
      \<or> x \<in> snd ` set (channels (btun (b\<lparr>btun := t, loops := ls, pend := add_mset (Finish d l) (pend b)\<rparr>)))
      \<or> (\<exists>k \<in># pend (b\<lparr>btun := t, loops := ls, pend := add_mset (Finish d l) (pend b)\<rparr>). closes x k)
      \<or> x \<in> displaced (b\<lparr>btun := t, loops := ls, pend := add_mset (Finish d l) (pend b)\<rparr>)"
    proof cases
      case 2
      from accounted_delete [OF this some(1) assms(2)] show ?thesis
        using some(2) d by (auto simp: closes_def)
    next
      case 3
      then show ?thesis by auto
    qed (use some(2) in simp_all)
  qed
qed simp

lemma step_accounted: "bond_step b b' \<Longrightarrow> tunnel_inv (btun b) \<Longrightarrow> bond_accounted b \<Longrightarrow> bond_accounted b'"
proof (induction rule: bond_step.induct)
  case (add idx c b started t)
  from add.hyps(1) show ?case
  proof (cases rule: addChannel_cases)
    case no
    with add.prems show ?thesis by (auto simp: bond_accounted_def)
  next
    case yes
    have d: "distinct (map fst (channels (btun b)))" using add.prems by (simp add: tunnel_inv_def)
    have m: "map_of (AList.update idx c (channels (btun b))) = (map_of (channels (btun b)))(idx \<mapsto> c)"
      by (simp add: AList.update_conv')
    have new: "c \<in> snd ` set (AList.update idx c (channels (btun b)))"
      using map_of_SomeD [of "AList.update idx c (channels (btun b))" idx c] m by force
    have old: "x \<in> snd ` set (AList.update idx c (channels (btun b)))
        \<or> map_of (channels (btun b)) idx = Some x" if "x \<in> snd ` set (channels (btun b))" for x
    proof -
      from that obtain i where "(i, x) \<in> set (channels (btun b))" by auto
      then have i: "map_of (channels (btun b)) i = Some x" using d by simp
      show ?thesis
      proof (cases "i = idx")
        case False
        with i m have "map_of (AList.update idx c (channels (btun b))) i = Some x" by simp
        then show ?thesis by (force dest: map_of_SomeD)
      qed (use i in simp)
    qed
    from yes add.prems(2) new show ?thesis
      by (auto simp: bond_accounted_def dest!: old)
  qed
next
  case (remove idx b c l t)
  from accounted_locked [OF remove.hyps remove.prems, of "loops b"] show ?case by simp
next
  case (loop_err idx c b r t)
  show ?case
  proof (cases r)
    case None
    with loop_err show ?thesis
      by (auto simp: bond_accounted_def removeChannel_locked_def Let_def split: option.splits)
  next
    case (Some dl)
    then obtain d l where dl: "r = Some (d, l)" by (cases dl) auto
    from accounted_locked [OF loop_err.hyps(2) [unfolded dl] loop_err.prems] show ?thesis
      by (simp add: dl)
  qed
next
  case (close b cs t)
  then show ?case by (fastforce simp: bond_accounted_def Tunnel_Close_locked_def closes_def)
next
  case (finish b c l ps)
  then show ?case by (fastforce simp: bond_accounted_def closes_def)
next
  case (closing b c cs ps)
  then show ?case by (fastforce simp: bond_accounted_def closes_def)
next
  case (read b p t)
  from ReadPacket_fields [OF read.hyps] read.prems show ?case by (simp add: bond_accounted_def)
qed (auto simp: bond_accounted_def closes_def)

lemma remove1_keeps: "A \<subseteq> set xs \<Longrightarrow> x \<notin> A \<Longrightarrow> A \<subseteq> set (remove1 x xs)"
  by (metis in_set_remove1 subset_iff)

lemma step_watched: "bond_step b b' \<Longrightarrow> bond_watched b \<Longrightarrow> bond_watched b'"
proof (induction rule: bond_step.induct)
  case (add idx c b started t)
  have up: "set (AList.update idx c al) \<subseteq> insert (idx, c) (set al)" for al :: "(int \<times> nat) list"
    by (induction al) auto
  from add.hyps(1) show ?case
    by (cases rule: addChannel_cases)
      (use add.prems up [of "channels (btun b)"] in \<open>auto simp: bond_watched_def\<close>)
next
  case (remove idx b c l t)
  from remove.hyps show ?case
    by (cases rule: locked_cases)
      (use remove.prems in \<open>auto simp: bond_watched_def AList.delete_eq\<close>)
next
  case (loop_err idx c b r t)
  from loop_err.hyps(2) show ?case
  proof (cases rule: locked_cases)
    case none
    then have "(idx, c) \<notin> set (channels (btun b))" by (force simp: map_of_eq_None_iff)
    from remove1_keeps [OF _ this] none loop_err.prems show ?thesis
      by (simp add: bond_watched_def) blast
  next
    case (some d)
    have "set (AList.delete idx (channels (btun b))) \<subseteq> set (remove1 (idx, c) (loops b))"
      if "set (channels (btun b)) \<subseteq> set (loops b)"
      using that by (intro remove1_keeps) (auto simp: AList.delete_eq)
    with some loop_err.prems show ?thesis by (auto simp: bond_watched_def)
  qed
next
  case (close b cs t)
  then show ?case by (auto simp: bond_watched_def Tunnel_Close_locked_def)
next
  case (read b p t)
  from ReadPacket_fields [OF read.hyps] read.prems show ?case by (simp add: bond_watched_def)
qed (auto simp: bond_watched_def)

lemma step_inv: "bond_step b b' \<Longrightarrow> tunnel_inv (btun b) \<Longrightarrow> tunnel_inv (btun b')"
proof (induction rule: bond_step.induct)
  case (add idx c b started t)
  from add.hyps(1) show ?case
    by (cases rule: addChannel_cases)
      (use add.prems in \<open>auto simp: tunnel_inv_def AList.dom_update AList.distinct_update\<close>)
next
  case (remove idx b c l t)
  from remove.hyps show ?case
    by (cases rule: locked_cases)
      (use remove.prems in \<open>auto simp: tunnel_inv_def delete_set AList.distinct_delete\<close>)
next
  case (loop_err idx c b r t)
  from loop_err.hyps(2) show ?case
    by (cases rule: locked_cases)
      (use loop_err.prems in \<open>auto simp: tunnel_inv_def delete_set AList.distinct_delete\<close>)
next
  case (close b cs t)
  then show ?case by (auto simp: tunnel_inv_def Tunnel_Close_locked_def)
next
  case (read b p t)
  from ReadPacket_fields [OF read.hyps] read.prems show ?case by (simp add: tunnel_inv_def)
qed (auto simp: tunnel_inv_def)

lemma step_inbound: "bond_step b b' \<Longrightarrow> length (inbound (btun b)) \<le> inbound_cap \<Longrightarrow>
    length (inbound (btun b')) \<le> inbound_cap"
proof (induction rule: bond_step.induct)
  case (add idx c b started t)
  from add.hyps(1) show ?case by (cases rule: addChannel_cases) (use add.prems in simp_all)
next
  case (remove idx b c l t)
  from remove.hyps show ?case by (cases rule: locked_cases) (use remove.prems in simp_all)
next
  case (loop_err idx c b r t)
  from loop_err.hyps(2) show ?case by (cases rule: locked_cases) (use loop_err.prems in simp_all)
next
  case (read b p t)
  from ReadPacket_fields [OF read.hyps] read.prems show ?case by simp
qed (auto simp: Tunnel_Close_locked_def)

definition bond_ok :: "bond \<Rightarrow> bool" where
  "bond_ok b \<longleftrightarrow> tunnel_inv (btun b) \<and> bond_once b \<and> bond_torn b \<and> bond_accounted b
     \<and> bond_watched b \<and> length (inbound (btun b)) \<le> inbound_cap"

lemma bond_ok_step: "bond_step b b' \<Longrightarrow> bond_ok b \<Longrightarrow> bond_ok b'"
  unfolding bond_ok_def
  by (intro conjI) (auto intro: step_inv step_once step_torn step_accounted step_watched step_inbound)

lemma bond_ok_steps: "bond_steps b b' \<Longrightarrow> bond_ok b \<Longrightarrow> bond_ok b'"
  by (induction rule: bond_steps.induct) (auto intro: bond_ok_step)

lemma bond_ok_init: "bond_ok (newBond hp f)"
  by (simp add: bond_ok_def newBond_def newTunnel_def tunnel_inv_def bond_once_def once_ok_def
      bond_torn_def bond_accounted_def bond_watched_def)

lemma reachable_ok: "reachable b \<Longrightarrow> bond_ok b"
  unfolding reachable_def by (auto intro: bond_ok_steps bond_ok_init)

section \<open>Properties\<close>

text \<open>C6. In every interleaving of adding, losing and closing channels, reading and delivering,
  markDead takes effect once: onEmpty is called at most once, exactly once when the tunnel is
  dead and nobody is inside markDead, and never before; the map and the order slice agree;
  and the inbound buffer never exceeds its capacity.\<close>

theorem onEmpty_exactly_once:
  assumes "reachable b"
  shows "emptied (btun b) \<le> 1 \<and> (emptied (btun b) = 1 \<longrightarrow> dead (btun b))
    \<and> (dead (btun b) \<and> has_onEmpty (btun b) \<and> MarkDead2 \<notin># pend b \<longrightarrow> emptied (btun b) = 1)
    \<and> tunnel_inv (btun b) \<and> length (inbound (btun b)) \<le> 1024"
  using reachable_ok [OF assms]
  by (auto simp: bond_ok_def bond_once_def once_ok_def inbound_cap_def simp flip: count_eq_zero_iff
      split: if_splits)

text \<open>The last channel leaving tears the tunnel down: in every interleaving, once some
  channel has been added and no goroutine is between a critical section and its aftermath, a
  tunnel with no channels is dead.\<close>

theorem no_channels_means_dead:
  assumes "reachable b" "pend b = {#}" "added b \<noteq> {}" "channels (btun b) = []"
  shows "dead (btun b)"
  using reachable_ok [OF assms(1)] assms(2-4)
  by (auto simp: bond_ok_def bond_torn_def bond_once_def once_ok_def)

text \<open>No connection is leaked: in every interleaving, when nothing is pending, every
  connection ever handed to the tunnel has been closed, is in the channel map, or was
  displaced by a second channel under its index; and every connection in the map of a live
  tunnel has a running read loop.\<close>

theorem connections_accounted_for:
  assumes "reachable b" "pend b = {#}" "c \<in> added b" "c \<notin> displaced b"
  shows "c \<in> ws_closed (btun b)
    \<or> (\<exists>i. (i, c) \<in> set (channels (btun b)) \<and> (dead (btun b) \<or> (i, c) \<in> set (loops b)))"
proof -
  have acc: "bond_accounted b" and watched: "bond_watched b"
    using reachable_ok [OF assms(1)] by (simp_all add: bond_ok_def)
  from acc assms(2-4) consider "c \<in> ws_closed (btun b)" | "c \<in> snd ` set (channels (btun b))"
    by (auto simp: bond_accounted_def)
  then show ?thesis
  proof cases
    case 2
    then obtain i where "(i, c) \<in> set (channels (btun b))" by auto
    with watched show ?thesis by (auto simp: bond_watched_def)
  qed simp
qed

text \<open>
  The schedule of the race: channel 0 is added, its loss leaves the critical section, channel
  1 is added while the tunnel is not marked yet, then the tunnel is marked dead.
\<close>

definition race_1 :: bond where
  "race_1 = (newBond (\<lambda>_. sample_conn) True)
     \<lparr>btun := (newTunnel (\<lambda>_. sample_conn) True)\<lparr>channels := [(0, 10)], order := [0]\<rparr>,
      added := {10}, loops := [(0, 10)]\<rparr>"

definition race_2 :: bond where
  "race_2 = race_1\<lparr>btun := newTunnel (\<lambda>_. sample_conn) True, loops := [], pend := {#Finish 10 True#}\<rparr>"

definition race_3 :: bond where
  "race_3 = race_2\<lparr>btun := (newTunnel (\<lambda>_. sample_conn) True)\<lparr>channels := [(1, 11)], order := [1]\<rparr>,
     added := {10, 11}, loops := [(1, 11)]\<rparr>"

lemma race_add: "bond_steps (newBond (\<lambda>_. sample_conn) True) race_1"
proof -
  have "bond_step (newBond (\<lambda>_. sample_conn) True) race_1"
    using bond_step.add [of 0 10 "newBond (\<lambda>_. sample_conn) True" True "btun race_1"]
    by (simp add: newBond_def race_1_def newTunnel_def addChannel_def)
  then show ?thesis by (blast intro: bond_steps.intros)
qed

lemma race_locked: "bond_step race_1 race_2"
  using bond_step.loop_err [of 0 10 race_1 "Some (10, True)" "btun race_2"]
  by (simp add: race_1_def race_2_def newBond_def newTunnel_def removeChannel_locked_def)

lemma race_add_again: "bond_step race_2 race_3"
  using bond_step.add [of 1 11 race_2 True "btun race_3"]
  by (simp add: race_1_def race_2_def race_3_def newBond_def newTunnel_def addChannel_def insert_commute)

lemma race_end:
  "bond_steps race_3 (race_3\<lparr>btun := markDead (Conn_Close 10 (btun race_3)), pend := {#}\<rparr>)"
proof -
  let ?b = "race_3\<lparr>btun := Conn_Close 10 (btun race_3), pend := {#Marking#}\<rparr>"
  have "bond_step race_3 ?b"
    using bond_step.finish [of race_3 10 True "{#}"] by (simp add: race_3_def race_2_def)
  moreover have "bond_steps ?b (?b\<lparr>btun := markDead (btun ?b), pend := {#}\<rparr>)"
    by (rule mark_run) (simp_all add: race_3_def once_inv_def newTunnel_def)
  ultimately show ?thesis by (auto intro: bond_steps.step)
qed

text \<open>The race of a joining channel with the loss of the last one: a channel added between
  the last removal's critical section and markDead stays, open and in the map, in a tunnel
  that is dead, whose onEmpty has run and where nothing is left to do.\<close>

theorem channel_survives_in_dead_tunnel:
  "\<exists>b c. reachable b \<and> pend b = {#} \<and> displaced b = {} \<and> dead (btun b) \<and> emptied (btun b) = 1
     \<and> c \<in> snd ` set (channels (btun b)) \<and> c \<notin> ws_closed (btun b)"
proof -
  let ?b = "race_3\<lparr>btun := markDead (Conn_Close 10 (btun race_3)), pend := {#}\<rparr>"
  have "bond_steps (newBond (\<lambda>_. sample_conn) True) ?b"
    using race_add race_locked race_add_again race_end
    by (blast intro: bond_steps_trans bond_steps_last)
  then have "reachable ?b" unfolding reachable_def by blast
  then show ?thesis
    by (intro exI [of _ ?b] exI [of _ 11])
      (simp add: race_3_def race_2_def race_1_def newBond_def newTunnel_def markDead_def)
qed

lemma race_1_reachable: "reachable race_1"
  unfolding reachable_def using race_add by blast

lemma race_closed_reachable:
  "reachable (race_1\<lparr>btun := removeChannel 0 (btun race_1)\<rparr>)"
proof -
  have "once_inv (btun race_1)" by (simp add: race_1_def once_inv_def newTunnel_def)
  from removeChannel_run [OF this] race_add show ?thesis
    unfolding reachable_def by (blast intro: bond_steps_trans)
qed

theorem onEmpty_exactly_once_witness: "emptied (btun race_1) \<le> 1 \<and> tunnel_inv (btun race_1)"
  using onEmpty_exactly_once [OF race_1_reachable] by blast

theorem no_channels_means_dead_witness: "dead (removeChannel 0 (btun race_1))"
proof -
  have "channels (removeChannel 0 (btun race_1)) = []"
    by (simp add: race_1_def removeChannel_def removeChannel_locked_def)
  with no_channels_means_dead [OF race_closed_reachable] show ?thesis
    by (simp add: race_1_def newBond_def)
qed

theorem connections_accounted_for_witness:
  "10 \<in> ws_closed (btun race_1) \<or> (\<exists>i. (i, 10) \<in> set (channels (btun race_1)) \<and> (i, 10) \<in> set (loops race_1))"
  using connections_accounted_for [OF race_1_reachable, of 10]
  by (auto simp: race_1_def newBond_def newTunnel_def)

text \<open>The tunnel's operations, taken as a whole, are uninterrupted runs of these steps:
  removeChannel and Close, as single functions, lead where the interleaved steps lead when
  no other goroutine moves.\<close>

theorem operations_are_runs:
  assumes "once_inv (btun b)"
  shows "bond_steps b (b\<lparr>btun := removeChannel idx (btun b)\<rparr>)
    \<and> bond_steps b (b\<lparr>btun := Tunnel_Close (btun b)\<rparr>)"
  using removeChannel_run [OF assms] Close_run [OF assms] by blast

theorem operations_are_runs_witness:
  "bond_steps race_1 (race_1\<lparr>btun := Tunnel_Close (btun race_1)\<rparr>)"
proof -
  have "once_inv (btun race_1)" by (simp add: race_1_def once_inv_def newTunnel_def)
  from operations_are_runs [OF this] show ?thesis by blast
qed

end
