(* ===== verification/Krot_Handshake.thy ===== *)
theory Krot_Handshake
  imports Krot_Crypto
begin

text \<open>
  internal/transport/handshake.go: the authentication token, the combined Diffie-Hellman
  secret and the per-channel salt; and what they give when the two ends run them: the same
  secret on both sides, hence mirrored session keys, and different salts for different
  channels.
\<close>

section \<open>The three functions\<close>

text \<open>\<open>uint64(ts)\<close> of a negative timestamp is its two's complement.\<close>

definition authToken :: "bytes \<Rightarrow> bytes \<Rightarrow> int \<Rightarrow> bytes \<Rightarrow> bytes \<Rightarrow> bytes" where
  "authToken psk ephPub ts serverStatic sid =
     HMAC psk [ephPub, PutUint64 (word_of_int ts), serverStatic, sid]"

definition combineDH ::
  "prims \<Rightarrow> bytes \<Rightarrow> bytes \<Rightarrow> bytes \<Rightarrow> bytes \<Rightarrow> crypto_error + bytes" where
  "combineDH P priv1 pub1 priv2 pub2 =
     try_bind (DH P priv1 pub1) (\<lambda>ss1.
     try_bind (DH P priv2 pub2) (\<lambda>ss2.
     Inr (ss1 @ ss2)))"

definition channelSalt :: "bytes \<Rightarrow> bytes \<Rightarrow> bytes \<Rightarrow> int \<Rightarrow> bytes" where
  "channelSalt clientEph serverEph sid chanIdx =
     clientEph @ serverEph @ sid @ PutUint32 (word_of_int chanIdx)"

lemma length_authToken [simp, wire_simps]: "length (authToken psk e ts st sid) = 32"
  by (simp add: authToken_def)

lemma combineDH_length: "combineDH P a b c d = Inr k \<Longrightarrow> length k = 64"
  by (auto simp: combineDH_def try_bind_Inr_iff KeySize_def dest!: DH_Inr)

section \<open>What the token covers\<close>

text \<open>The message under the MAC; with fields of fixed length it determines them.\<close>

definition auth_input :: "bytes \<Rightarrow> int \<Rightarrow> bytes \<Rightarrow> bytes \<Rightarrow> bytes" where
  "auth_input ephPub ts serverStatic sid =
     ephPub @ PutUint64 (word_of_int ts) @ serverStatic @ sid"

lemma authToken_input: "authToken psk e ts st sid = hmac_sha256 psk (auth_input e ts st sid)"
  by (simp add: authToken_def HMAC_def auth_input_def)

lemma word64_of_int_inj:
  assumes "- (2 ^ 63) \<le> i" "i < 2 ^ 63" "- (2 ^ 63) \<le> j" "j < 2 ^ 63"
    and "(word_of_int i :: 64 word) = word_of_int j"
  shows "i = j"
proof -
  have "sint (word_of_int k :: 64 word) = k" if "- (2 ^ 63) \<le> k" "k < 2 ^ 63" for k
    using that by (simp add: signed_of_int signed_take_bit_int_eq_self)
  then show ?thesis using assms by metis
qed

lemma auth_input_inj:
  assumes "length e = KeySize" "length e' = KeySize" "length st = KeySize" "length st' = KeySize"
    and "- (2 ^ 63) \<le> ts" "ts < 2 ^ 63" "- (2 ^ 63) \<le> ts'" "ts' < 2 ^ 63"
  shows "auth_input e ts st sid = auth_input e' ts' st' sid'
     \<longleftrightarrow> e = e' \<and> ts = ts' \<and> st = st' \<and> sid = sid'"
proof
  assume eq: "auth_input e ts st sid = auth_input e' ts' st' sid'"
  then have "e = e'" "PutUint64 (word_of_int ts) = PutUint64 (word_of_int ts')" "st = st'" "sid = sid'"
    using assms(1-4) by (simp_all add: auth_input_def append_eq_same_length)
  moreover from this(2) have "ts = ts'"
    unfolding PutUint64_inj by (rule word64_of_int_inj [OF assms(5-8)])
  ultimately show "e = e' \<and> ts = ts' \<and> st = st' \<and> sid = sid'" by simp
qed simp

section \<open>Channels have different salts\<close>

lemma word32_of_int_inj:
  assumes "0 \<le> i" "i < 2 ^ 32" "0 \<le> j" "j < 2 ^ 32"
    and "(word_of_int i :: 32 word) = word_of_int j"
  shows "i = j"
proof -
  have "uint (word_of_int k :: 32 word) = k" if "0 \<le> k" "k < 2 ^ 32" for k
    using that by (simp add: unsigned_of_int take_bit_int_eq_self)
  then show ?thesis using assms by metis
qed

lemma channelSalt_inj:
  assumes "length ce = KeySize" "length ce' = KeySize" "length se = KeySize" "length se' = KeySize"
    and "length sid = length sid'" and "0 \<le> i" "i < 2 ^ 32" "0 \<le> j" "j < 2 ^ 32"
  shows "channelSalt ce se sid i = channelSalt ce' se' sid' j
     \<longleftrightarrow> ce = ce' \<and> se = se' \<and> sid = sid' \<and> i = j"
proof
  assume "channelSalt ce se sid i = channelSalt ce' se' sid' j"
  then have "ce = ce'" "se = se'" "sid = sid'"
    "PutUint32 (word_of_int i) = PutUint32 (word_of_int j)"
    using assms(1-5) by (simp_all add: channelSalt_def append_eq_same_length)
  moreover from this(4) have "i = j"
    unfolding PutUint32_inj by (rule word32_of_int_inj [OF assms(6-9)])
  ultimately show "ce = ce' \<and> se = se' \<and> sid = sid' \<and> i = j" by simp
qed simp

section \<open>Both ends compute the same secret\<close>

text \<open>
  Documented behaviour of X25519 (RFC 7748): the shared secret of two key pairs does not
  depend on which private and which public key are used, and a point has 32 bytes.
\<close>

definition x25519_ok :: "prims \<Rightarrow> bool" where
  "x25519_ok P \<longleftrightarrow>
     (\<forall>a b A B. X25519 P a (Basepoint P) = Some A \<longrightarrow> X25519 P b (Basepoint P) = Some B \<longrightarrow>
        X25519 P a B = X25519 P b A)
     \<and> (\<forall>a p s. X25519 P a p = Some s \<longrightarrow> length s = 32)"

lemma x25519_commutes:
  "x25519_ok P \<Longrightarrow> X25519 P a (Basepoint P) = Some A \<Longrightarrow> X25519 P b (Basepoint P) = Some B \<Longrightarrow>
     X25519 P a B = X25519 P b A"
  unfolding x25519_ok_def by blast

lemma x25519_length: "x25519_ok P \<Longrightarrow> X25519 P a p = Some s \<Longrightarrow> length s = 32"
  unfolding x25519_ok_def by blast

lemma PublicFromPrivate_X25519:
  assumes "x25519_ok P" and "PublicFromPrivate P priv = Inr pub"
  shows "X25519 P priv (Basepoint P) = Some pub"
proof -
  from assms(2) obtain p where p: "X25519 P priv (Basepoint P) = Some p"
    and pub: "pub = copy_into (replicate KeySize 0) p"
    by (auto simp: PublicFromPrivate_def try_bind_Inr_iff)
  from x25519_length [OF assms(1) p] have "pub = p" by (simp add: pub KeySize_def)
  with p show ?thesis by simp
qed

lemma DH_symmetric:
  assumes "x25519_ok P" "PublicFromPrivate P a = Inr A" "PublicFromPrivate P b = Inr B"
  shows "DH P a B = DH P b A"
  unfolding DH_def
  using x25519_commutes [OF assms(1) PublicFromPrivate_X25519 [OF assms(1,2)]
      PublicFromPrivate_X25519 [OF assms(1,3)]]
  by (simp only:)

text \<open>
  The client uses its ephemeral private key twice, with the server's ephemeral and static
  public keys; the server its ephemeral and static private keys with the client's
  ephemeral public key.
\<close>

lemma combineDH_agree:
  assumes "x25519_ok P" "PublicFromPrivate P cPriv = Inr cPub"
    "PublicFromPrivate P ePriv = Inr ePub" "PublicFromPrivate P sPriv = Inr sPub"
  shows "combineDH P cPriv ePub cPriv sPub = combineDH P ePriv cPub sPriv cPub"
  unfolding combineDH_def
  by (simp only: DH_symmetric [OF assms(1,2,3)] DH_symmetric [OF assms(1,2,4)])

section \<open>Properties\<close>

text \<open>C11. The two ends derive mirrored keys: with key pairs made by the code's own generator,
  the client's combined secret (its ephemeral key against the server's ephemeral and static
  ones) is the server's, the derivations succeed on both sides or on neither, and what one
  side sends with is what the other receives with.\<close>

theorem both_ends_derive_mirrored_keys:
  assumes "x25519_ok P"
    and "GenerateKeypair P rc = Inr c" "GenerateKeypair P re = Inr e"
    and "PublicFromPrivate P sPriv = Inr sPub"
    and "combineDH P (Private c) (Public e) (Private c) sPub = Inr shared"
  shows "combineDH P (Private e) (Public c) sPriv (Public c) = Inr shared
    \<and> DeriveSessionKeys P shared salt False
        = map_option (\<lambda>k. \<lparr>TxKey = RxKey k, RxKey = TxKey k\<rparr>) (DeriveSessionKeys P shared salt True)"
  using combineDH_agree [OF assms(1) GenerateKeypair_public [OF assms(2)]
      GenerateKeypair_public [OF assms(3)] assms(4)] assms(5)
  by (simp add: DeriveSessionKeys_mirror)

lemma sample_x25519_ok: "x25519_ok sample_prims"
proof -
  have sum: "map (\<lambda>(x, y). x + y) (zip (a :: bytes) (map (\<lambda>(x, y). x + y) (zip b g)))
      = map (\<lambda>(x, y). x + y) (zip b (map (\<lambda>(x, y). x + y) (zip a g)))"
    if "length a = length b" "length b = length g" for a b g
    using that by (induction a b g rule: list_induct3) (auto simp: ac_simps)
  show ?thesis
    by (auto simp: x25519_ok_def sample_prims_def sum split: if_splits)
qed

definition sample_key :: "byte \<Rightarrow> bytes" where
  "sample_key b = replicate 32 b"

lemma sample_zip: "map (\<lambda>(x, y). x + y) (zip (replicate n (a :: byte)) (replicate n b)) = replicate n (a + b)"
  by simp

lemma sample_keypair:
  "GenerateKeypair sample_prims (Some (sample_key b)) = Inr \<lparr>Private = sample_key b, Public = sample_key (b + 9)\<rparr>"
  by (simp add: GenerateKeypair_def sample_key_def sample_prims_def KeySize_def Let_def sample_zip)

lemma sample_public: "PublicFromPrivate sample_prims (sample_key b) = Inr (sample_key (b + 9))"
  by (simp add: PublicFromPrivate_def sample_key_def sample_prims_def KeySize_def sample_zip)

lemma sample_DH:
  "a + b \<noteq> 0 \<Longrightarrow> DH sample_prims (sample_key a) (sample_key b) = Inr (sample_key (a + b))"
  by (simp add: DH_def sample_key_def sample_prims_def KeySize_def sample_zip ConstantTimeCompare_iff)

theorem both_ends_derive_mirrored_keys_witness:
  "combineDH sample_prims (sample_key 2) (sample_key 10) (sample_key 3) (sample_key 10)
     = Inr (sample_key 12 @ sample_key 13)"
  by (rule both_ends_derive_mirrored_keys [OF sample_x25519_ok sample_keypair sample_keypair
        sample_public, of 1 2 3, THEN conjunct1, simplified])
    (simp add: combineDH_def sample_DH)

text \<open>The authentication token covers all of what the client says: with keys of 32 bytes
  and timestamps in the int64 range, two MAC inputs are equal only if ephemeral key,
  timestamp, server key and session id are.\<close>

theorem token_covers_every_field:
  assumes "length e = KeySize" "length e' = KeySize" "length st = KeySize" "length st' = KeySize"
    and "- (2 ^ 63) \<le> ts" "ts < 2 ^ 63" "- (2 ^ 63) \<le> ts'" "ts' < 2 ^ 63"
  shows "authToken psk e ts st sid = hmac_sha256 psk (auth_input e ts st sid)
    \<and> (auth_input e ts st sid = auth_input e' ts' st' sid'
         \<longleftrightarrow> e = e' \<and> ts = ts' \<and> st = st' \<and> sid = sid')"
  using auth_input_inj [OF assms] by (simp add: authToken_input)

theorem token_covers_every_field_witness:
  "auth_input (sample_key 1) (- 1) (sample_key 2) [1] \<noteq> auth_input (sample_key 1) 1 (sample_key 2) [1]"
  using token_covers_every_field [of "sample_key 1" "sample_key 1" "sample_key 2" "sample_key 2" "- 1" 1
      "[]" "[1]" "[1]"]
  by (simp add: sample_key_def KeySize_def)

text \<open>Different channels of a session never share a key-derivation salt: the salt
  determines both ephemeral keys, the session id and the channel index.\<close>

theorem channel_salts_distinct:
  assumes "length ce = KeySize" "length ce' = KeySize" "length se = KeySize" "length se' = KeySize"
    and "length sid = length sid'" and "0 \<le> i" "i < 2 ^ 32" "0 \<le> j" "j < 2 ^ 32"
  shows "channelSalt ce se sid i = channelSalt ce' se' sid' j
     \<longleftrightarrow> ce = ce' \<and> se = se' \<and> sid = sid' \<and> i = j"
  by (rule channelSalt_inj [OF assms])

theorem channel_salts_distinct_witness:
  "channelSalt (sample_key 1) (sample_key 2) (replicate 16 0) 0
     \<noteq> channelSalt (sample_key 1) (sample_key 2) (replicate 16 0) 1"
  using channel_salts_distinct [of "sample_key 1" "sample_key 1" "sample_key 2" "sample_key 2"
      "replicate 16 0" "replicate 16 0" 0 1]
  by (simp add: sample_key_def KeySize_def)

end
