(* ===== verification/Go_Http.thy ===== *)
theory Go_Http
  imports Go_Text
begin

text \<open>
  What the code uses of net/http: the cookies of a request (Request.Cookie with its parser
  readCookies) and response headers by canonical name. The header lines themselves come
  from the HTTP server.
\<close>

section \<open>Cookies\<close>

definition is_space :: "char \<Rightarrow> bool" where
  "is_space c \<longleftrightarrow> c = CHR '' '' \<or> c = CHR 0x09 \<or> c = CHR 0x0A \<or> c = CHR 0x0D"

text \<open>textproto.TrimString.\<close>

definition trim :: "string \<Rightarrow> string" where
  "trim s = rev (dropWhile is_space (rev (dropWhile is_space s)))"

definition cookie_byte :: "char \<Rightarrow> bool" where
  "cookie_byte c \<longleftrightarrow> (let n = (of_char c :: nat) in
     32 \<le> n \<and> n < 127 \<and> c \<noteq> CHR 0x22 \<and> c \<noteq> CHR '';'' \<and> c \<noteq> CHR 0x5C)"

definition parseCookieValue :: "string \<Rightarrow> string option" where
  "parseCookieValue raw =
     (let v = (if length raw > 1 \<and> hd raw = CHR 0x22 \<and> last raw = CHR 0x22
               then butlast (tl raw) else raw)
      in if list_all cookie_byte v then Some v else None)"

text \<open>One part between semicolons: the value, when it is a cookie of this name.\<close>

definition cookie_part :: "string \<Rightarrow> string \<Rightarrow> string option" where
  "cookie_part nm part =
     (let p = trim part in
      if p = [] then None
      else
        let (n, v, _) = cut CHR ''='' p in
        if trim n \<noteq> nm then None else parseCookieValue v)"

text \<open>The loop of readCookies over one header line, for the cookies of one name.\<close>

function readCookies :: "string \<Rightarrow> string \<Rightarrow> string list" where
  "readCookies nm line =
     (if line = [] then []
      else
        let (part, rest, _) = cut CHR '';'' line in
        case cookie_part nm part of
          None \<Rightarrow> readCookies nm rest
        | Some v \<Rightarrow> v # readCookies nm rest)"
  by pat_completeness auto
termination
  by (relation "measure (\<lambda>(nm, line). length line)") (auto dest: cut_length_less [OF sym])

declare readCookies.simps [simp del]

text \<open>Request.Cookie over the request's Cookie header lines.\<close>

definition Request_Cookie :: "string list \<Rightarrow> string \<Rightarrow> string option" where
  "Request_Cookie lines nm =
     (case concat (map (\<lambda>l. readCookies nm (trim l)) lines) of [] \<Rightarrow> None | v # _ \<Rightarrow> Some v)"

section \<open>Reading back a printed cookie line\<close>

text \<open>Text without spaces, separators and quotes.\<close>

definition plain_char :: "char \<Rightarrow> bool" where
  "plain_char c \<longleftrightarrow> cookie_byte c \<and> c \<noteq> CHR '' '' \<and> c \<noteq> CHR ''=''"

lemma plain_seps [simp]:
  "\<not> plain_char CHR '';''" "\<not> plain_char CHR ''=''" "\<not> plain_char CHR '' ''"
  "\<not> plain_char CHR 0x09" "\<not> plain_char CHR 0x0A" "\<not> plain_char CHR 0x0D" "\<not> plain_char CHR 0x22"
  "\<not> is_space CHR ''=''"
  by (simp_all add: plain_char_def cookie_byte_def is_space_def)

lemma plain_char_not [simp]:
  assumes "plain_char c"
  shows "\<not> is_space c" "c \<noteq> CHR '';''" "c \<noteq> CHR ''=''" "cookie_byte c" "c \<noteq> CHR 0x22"
proof -
  have neq: "c \<noteq> d" if "\<not> plain_char d" for d using that assms by metis
  then show "\<not> is_space c" "c \<noteq> CHR '';''" "c \<noteq> CHR ''=''" "c \<noteq> CHR 0x22"
    by (simp_all only: is_space_def plain_seps not_False_eq_True simp_thms)
  show "cookie_byte c" using assms by (simp only: plain_char_def)
qed

lemma trim_space: "is_space c \<Longrightarrow> trim (c # s) = trim s"
  by (simp add: trim_def)

lemma trim_plain: "\<not> is_space (hd s) \<Longrightarrow> \<not> is_space (last s) \<Longrightarrow> trim s = s"
proof (cases "s = []")
  case False
  assume "\<not> is_space (hd s)" and l: "\<not> is_space (last s)"
  then have h: "dropWhile is_space s = s" by (cases s) auto
  from l False have "dropWhile is_space (rev s) = rev s"
    by (cases s rule: rev_cases) auto
  with h show "trim s = s" by (simp add: trim_def)
qed (simp add: trim_def)

definition cookie_text :: "string \<Rightarrow> string \<Rightarrow> string" where
  "cookie_text nm v = nm @ CHR ''='' # v"

lemma cookie_text_not_Nil [simp]: "cookie_text nm v \<noteq> []"
  by (simp add: cookie_text_def)

lemma cookie_text_plain:
  assumes "list_all plain_char nm" "list_all plain_char v"
  shows "CHR '';'' \<notin> set (cookie_text nm v)"
    and "nm \<noteq> [] \<Longrightarrow> cookie_part k (cookie_text nm v) = (if nm = k then Some v else None)"
proof -
  have semi: "CHR '';'' \<notin> set xs" "CHR ''='' \<notin> set xs" if "list_all plain_char xs" for xs
    using that plain_seps by (auto simp only: list_all_iff)
  show "CHR '';'' \<notin> set (cookie_text nm v)"
    using semi assms by (auto simp: cookie_text_def)
  assume ne: "nm \<noteq> []"
  have tr: "trim xs = xs" if "list_all plain_char xs" "xs \<noteq> []" for xs
    using that by (intro trim_plain) (auto simp: list_all_iff)
  have "\<not> is_space (last (cookie_text nm v))"
    using assms(2) by (auto simp: cookie_text_def list_all_iff dest: last_in_set)
  moreover have "\<not> is_space (hd (cookie_text nm v))"
    using assms(1) ne by (auto simp: cookie_text_def list_all_iff)
  ultimately have t: "trim (cookie_text nm v) = cookie_text nm v" by (rule trim_plain [rotated])
  have "parseCookieValue v = Some v"
  proof -
    have "list_all cookie_byte v" using assms(2) by (auto simp: list_all_iff)
    moreover have "v \<noteq> [] \<Longrightarrow> hd v \<noteq> CHR 0x22" using assms(2) by (auto simp: list_all_iff)
    ultimately show ?thesis by (cases v) (auto simp: parseCookieValue_def)
  qed
  with semi(2) [OF assms(1)] tr [OF assms(1) ne] ne show "cookie_part k (cookie_text nm v) = (if nm = k then Some v else None)"
    by (auto simp: cookie_part_def t) (auto simp: cookie_text_def)
qed

lemma text_ends:
  assumes "list_all plain_char nm" "list_all plain_char v" "nm \<noteq> []"
  shows "\<not> is_space (hd (cookie_text nm v @ r))" "\<not> is_space (last (cookie_text nm v))"
    "\<not> is_space (hd (cookie_text nm v))"
  using assms by (auto simp: cookie_text_def list_all_iff dest: last_in_set)

fun cookie_line :: "(string \<times> string) list \<Rightarrow> string" where
  "cookie_line [] = []"
| "cookie_line [(nm, v)] = cookie_text nm v"
| "cookie_line ((nm, v) # cs) = cookie_text nm v @ ''; '' @ cookie_line cs"

lemma cookie_part_space: "cookie_part k (CHR '' '' # part) = cookie_part k part"
  by (simp add: cookie_part_def trim_space is_space_def)

lemma readCookies_space: "readCookies k (CHR '' '' # line) = (if line = [] then [] else readCookies k line)"
proof -
  obtain a b f where c: "cut CHR '';'' line = (a, b, f)" by (cases "cut CHR '';'' line") auto
  have "cookie_part k [CHR '' ''] = None" by (simp add: cookie_part_def trim_def is_space_def)
  with c show ?thesis
    by (subst (1 2) readCookies.simps) (auto simp: cookie_part_space readCookies.simps [of k "[]"]
        split: option.splits)
qed

lemma readCookies_line:
  "list_all (\<lambda>(nm, v). nm \<noteq> [] \<and> list_all plain_char nm \<and> list_all plain_char v) cs \<Longrightarrow>
     readCookies k (cookie_line cs) = map snd (filter (\<lambda>(nm, v). nm = k) cs)"
proof (induction cs rule: cookie_line.induct)
  case 1
  then show ?case by (simp add: readCookies.simps)
next
  case (2 nm v)
  then have p: "list_all plain_char nm" "list_all plain_char v" "nm \<noteq> []" by simp_all
  note c = cookie_text_plain [OF p(1,2)]
  show ?case
    using c(1) c(2) [OF p(3), of k]
    by (subst readCookies.simps) (auto simp: readCookies.simps [of k "[]"])
next
  case (3 nm v c cs)
  then have p: "list_all plain_char nm" "list_all plain_char v" "nm \<noteq> []" by simp_all
  note t = cookie_text_plain [OF p(1,2)]
  have ne: "cookie_line (c # cs) \<noteq> []" by (cases cs; cases c) (auto simp: cookie_text_def)
  have "readCookies k (cookie_text nm v @ CHR '';'' # CHR '' '' # cookie_line (c # cs))
      = (if nm = k then [v] else []) @ readCookies k (CHR '' '' # cookie_line (c # cs))"
    using t(2) [OF p(3), of k] by (subst readCookies.simps) (auto simp: cut_append [OF t(1)])
  with 3 ne show ?case by (simp add: readCookies_space)
qed

text \<open>A request with such a line: every cookie of the line is found.\<close>

lemma Request_Cookie_line:
  assumes "list_all (\<lambda>(nm, v). nm \<noteq> [] \<and> list_all plain_char nm \<and> list_all plain_char v) cs"
    and "cs \<noteq> []"
  shows "Request_Cookie [cookie_line cs] k = map_of cs k"
proof -
  have ends: "\<not> is_space (hd (cookie_line cs)) \<and> \<not> is_space (last (cookie_line cs)) \<and> cookie_line cs \<noteq> []"
    using assms
  proof (induction cs rule: cookie_line.induct)
    case (2 nm v)
    then show ?case by (auto simp: text_ends)
  next
    case (3 nm v c cs)
    then show ?case by (auto simp: text_ends)
  qed simp
  then have "trim (cookie_line cs) = cookie_line cs" by (intro trim_plain) auto
  moreover have "(case map snd (filter (\<lambda>(nm, v). nm = k) cs) of [] \<Rightarrow> None | v # _ \<Rightarrow> Some v) = map_of cs k"
    by (induction cs) auto
  ultimately show ?thesis using readCookies_line [OF assms(1)] by (simp add: Request_Cookie_def)
qed

end
