(* ===== verification/Krot_Wire.thy ===== *)
theory Krot_Wire
  imports Krot_Handshake Go_Http
begin

text \<open>
  internal/transport/wire.go and the codecs at the end of internal/transport/client.go: the
  names of the cookies and headers that carry the handshake, the channel cap, the
  assignment, and the text forms of keys, session ids and channel indices.
\<close>

section \<open>Names\<close>

definition cookieEph :: string where "cookieEph = ''ek''"
definition cookieTS :: string where "cookieTS = ''ts''"
definition cookieAuth :: string where "cookieAuth = ''au''"
definition cookieSID :: string where "cookieSID = ''si''"
definition cookieChan :: string where "cookieChan = ''ci''"

definition hdrServerEph :: string where "hdrServerEph = ''X-Accel-Token''"
definition hdrAssignAddr :: string where "hdrAssignAddr = ''X-Accel-Addr''"
definition hdrAssignGw :: string where "hdrAssignGw = ''X-Accel-Gw''"
definition hdrAssignDNS :: string where "hdrAssignDNS = ''X-Accel-Dns''"

lemmas wire_names = cookieEph_def cookieTS_def cookieAuth_def cookieSID_def cookieChan_def
  hdrServerEph_def hdrAssignAddr_def hdrAssignGw_def hdrAssignDNS_def

definition maxChannelsPerSession :: int where "maxChannelsPerSession = 16"

record Assignment =
  asg_Addr :: string
  asg_Gw :: string
  asg_DNS :: string

section \<open>Codecs\<close>

definition b64 :: "bytes \<Rightarrow> string" where
  "b64 b = RawURLEncodeToString b"

definition unb64 :: "string \<Rightarrow> bytes option" where
  "unb64 s = RawURLDecodeString s"

definition decodeKey :: "string \<Rightarrow> bytes option" where
  "decodeKey s =
     (case RawURLDecodeString s of
        None \<Rightarrow> None
      | Some b \<Rightarrow> if length b \<noteq> 32 then None else Some (copy_into (replicate 32 0) b))"

definition parseChan :: "string \<Rightarrow> int option" where
  "parseChan s = Atoi s"

lemma unb64_b64 [simp, wire_simps]: "unb64 (b64 b) = Some b"
  by (simp add: unb64_def b64_def)

lemma decodeKey_b64 [simp, wire_simps]: "length b = 32 \<Longrightarrow> decodeKey (b64 b) = Some b"
  by (simp add: decodeKey_def b64_def)

lemma decodeKey_length: "decodeKey s = Some k \<Longrightarrow> length k = 32"
  by (auto simp: decodeKey_def split: option.splits if_splits)

lemma parseChan_dec [simp, wire_simps]:
  "- (2 ^ 63) \<le> i \<Longrightarrow> i < 2 ^ 63 \<Longrightarrow> parseChan (dec_int i) = Some i"
  by (simp add: parseChan_def Atoi_def)

text \<open>Their characters survive a cookie header.\<close>

lemma url_alphabet_plain: "list_all plain_char url_alphabet"
  by (simp add: url_alphabet_def plain_char_def cookie_byte_def)

lemma b64_plain: "list_all plain_char (b64 b)"
  using RawURL_chars [of b] url_alphabet_plain by (auto simp: b64_def list_all_iff)

lemma digit_plain: "d < 10 \<Longrightarrow> plain_char (digit_char d)"
proof -
  have "list_all (\<lambda>d. plain_char (digit_char d)) [0..<10]" by code_simp
  then show "d < 10 \<Longrightarrow> plain_char (digit_char d)" by (simp add: list_all_iff)
qed

lemma dec_int_plain: "list_all plain_char (dec_int i)"
proof -
  have "plain_char CHR ''-''" by (simp add: plain_char_def cookie_byte_def)
  then show ?thesis
    using dec_nat_digits digit_plain by (auto simp: dec_int_def list_all_iff)
qed

section \<open>Headers\<close>

text \<open>http.Header with canonical names: Get gives the empty string when there is none.\<close>

definition Header_Get :: "(string \<times> string) list \<Rightarrow> string \<Rightarrow> string" where
  "Header_Get h k = (case map_of h k of None \<Rightarrow> [] | Some v \<Rightarrow> v)"

end
