(* ===== verification/Krot_Replay.thy ===== *)
theory Krot_Replay
  imports Krot_Prelude
begin

text \<open>
  The replay filter of internal/crypto/crypto.go: its state, NewReplayFilter and Check. The
  clock (\<open>time.Now().Unix()\<close>) is an argument. Times are Go int64 values in seconds: the sums
  \<open>now + ttl\<close> of real clocks are far below 2^63, so they are integers here.

  The filter is refined to a specification that remembers every accepted token for ever,
  and its interface to the handler is the locale \<open>replay_guard\<close>.
\<close>

section \<open>The filter\<close>

record replay_filter =
  seen :: "bytes \<Rightarrow> int option"   \<comment> \<open>token to unix expiry\<close>
  ttl :: int                     \<comment> \<open>seconds a token is remembered\<close>
  lastGC :: int

text \<open>A time.Duration counts nanoseconds; Go's division truncates towards zero.\<close>

definition NewReplayFilter :: "int \<Rightarrow> replay_filter" where
  "NewReplayFilter d =
     (let secs = (if d < 0 then - ((- d) div 1000000000) else d div 1000000000);
          secs' = (if secs \<le> 0 then 300 else secs)
      in \<lparr>seen = (\<lambda>_. None), ttl = secs', lastGC = 0\<rparr>)"

definition sweep :: "replay_filter \<Rightarrow> int \<Rightarrow> replay_filter" where
  "sweep f now =
     (if now - lastGC f > ttl f then
        f\<lparr>seen := (\<lambda>k. case seen f k of
              None \<Rightarrow> None
            | Some exp \<Rightarrow> if exp \<le> now then None else Some exp),
          lastGC := now\<rparr>
      else f)"

definition ReplayFilter_Check :: "replay_filter \<Rightarrow> int \<Rightarrow> bytes \<Rightarrow> bool \<times> replay_filter" where
  "ReplayFilter_Check f now token =
     (let f1 = sweep f now in
      case seen f1 token of
        Some exp \<Rightarrow>
          if exp > now then (False, f1)
          else (True, f1\<lparr>seen := (seen f1)(token \<mapsto> now + ttl f1)\<rparr>)
      | None \<Rightarrow> (True, f1\<lparr>seen := (seen f1)(token \<mapsto> now + ttl f1)\<rparr>))"

text \<open>A sequence of calls: the answers and the filter afterwards.\<close>

fun check_run :: "replay_filter \<Rightarrow> (int \<times> bytes) list \<Rightarrow> bool list \<times> replay_filter" where
  "check_run f [] = ([], f)"
| "check_run f ((now, token) # rs) =
     (let (b, f') = ReplayFilter_Check f now token; (bs, f'') = check_run f' rs in (b # bs, f''))"

lemma check_run_Cons [simp]:
  "fst (check_run f ((now, token) # rs)) =
     fst (ReplayFilter_Check f now token) # fst (check_run (snd (ReplayFilter_Check f now token)) rs)"
  "snd (check_run f ((now, token) # rs)) =
     snd (check_run (snd (ReplayFilter_Check f now token)) rs)"
  by (simp_all add: case_prod_beta Let_def)

declare check_run.simps(2) [simp del]

lemma ttl_sweep [simp]: "ttl (sweep f now) = ttl f"
  by (simp add: sweep_def)

lemma ttl_Check [simp]: "ttl (snd (ReplayFilter_Check f now token)) = ttl f"
  by (simp add: ReplayFilter_Check_def Let_def split: option.split)

lemma NewReplayFilter_pos: "0 < ttl (NewReplayFilter d)"
  by (simp add: NewReplayFilter_def Let_def)

text \<open>A sweep drops exactly the expired entries, or nothing.\<close>

lemma seen_sweep_live:
  "e > now \<Longrightarrow> seen (sweep f now) k = Some e \<longleftrightarrow> seen f k = Some e"
  by (auto simp: sweep_def split: option.splits if_splits)

lemma seen_sweep_sub: "seen (sweep f now) k = Some e \<Longrightarrow> seen f k = Some e"
  by (auto simp: sweep_def split: option.splits if_splits)

lemma Check_rejects_iff:
  "fst (ReplayFilter_Check f now token) = False \<longleftrightarrow> (\<exists>e. seen f token = Some e \<and> e > now)"
proof -
  have "fst (ReplayFilter_Check f now token) = False
      \<longleftrightarrow> (\<exists>e. seen (sweep f now) token = Some e \<and> e > now)"
    by (auto simp: ReplayFilter_Check_def Let_def split: option.splits)
  then show ?thesis by (metis seen_sweep_live)
qed

lemma Check_seen:
  "seen (snd (ReplayFilter_Check f now token)) =
     (if fst (ReplayFilter_Check f now token)
      then (seen (sweep f now))(token \<mapsto> now + ttl f) else seen (sweep f now))"
  by (simp add: ReplayFilter_Check_def Let_def split: option.split)

lemma lastGC_Check:
  "lastGC (snd (ReplayFilter_Check f now token)) =
     (if now - lastGC f > ttl f then now else lastGC f)"
  by (simp add: ReplayFilter_Check_def Let_def sweep_def split: option.split)

section \<open>The interface: a guard against replays\<close>

text \<open>
  What the handler relies on: an accepted token is remembered for the guard's span, stays
  remembered until then whatever else is checked in between, and is refused while it is.
\<close>

locale replay_guard =
  fixes check :: "'f \<Rightarrow> int \<Rightarrow> bytes \<Rightarrow> bool \<times> 'f"
    and remembers :: "'f \<Rightarrow> bytes \<Rightarrow> int \<Rightarrow> bool"
    and span :: "'f \<Rightarrow> int"
  assumes accept: "check f now tok = (True, f') \<Longrightarrow> remembers f' tok (now + span f)"
    and keep: "remembers f tok until \<Longrightarrow> now < until \<Longrightarrow> remembers (snd (check f now tok')) tok until"
    and reject: "remembers f tok until \<Longrightarrow> now < until \<Longrightarrow> \<not> fst (check f now tok)"
    and span_const: "span (snd (check f now tok)) = span f"
begin

lemma remembers_fold:
  "remembers f tok until \<Longrightarrow> \<forall>(now, t) \<in> set rs. now < until \<Longrightarrow>
     remembers (fold (\<lambda>(now, t) f. snd (check f now t)) rs f) tok until"
  by (induction rs arbitrary: f) (auto intro: keep)

lemma no_replay:
  assumes "check f t0 tok = (True, f0)"
    and "\<forall>(now, t) \<in> set rs. now < t0 + span f" and "now < t0 + span f"
  shows "\<not> fst (check (fold (\<lambda>(now, t) f. snd (check f now t)) rs f0) now tok)"
  using accept [OF assms(1), THEN remembers_fold, OF assms(2)] assms(3) by (rule reject)

end

definition remembers :: "replay_filter \<Rightarrow> bytes \<Rightarrow> int \<Rightarrow> bool" where
  "remembers f tok until \<longleftrightarrow> (\<exists>e. seen f tok = Some e \<and> until \<le> e)"

lemma Check_keep:
  assumes "remembers f tok until" and "now < until"
  shows "remembers (snd (ReplayFilter_Check f now tok')) tok until"
proof -
  from assms obtain e where e: "seen f tok = Some e" "until \<le> e" "e > now"
    by (auto simp: remembers_def)
  then have s: "seen (sweep f now) tok = Some e" by (simp add: seen_sweep_live)
  show ?thesis
  proof (cases "tok' = tok \<and> fst (ReplayFilter_Check f now tok')")
    case True
    then have "\<not> (\<exists>e. seen f tok = Some e \<and> e > now)" using Check_rejects_iff by blast
    with e show ?thesis by blast
  next
    case False
    with s e show ?thesis by (auto simp: remembers_def Check_seen)
  qed
qed

interpretation replay: replay_guard ReplayFilter_Check remembers ttl
proof unfold_locales
  fix f now tok f'
  assume "ReplayFilter_Check f now tok = (True, f')"
  then have "fst (ReplayFilter_Check f now tok)" "f' = snd (ReplayFilter_Check f now tok)" by simp_all
  then show "remembers f' tok (now + ttl f)" by (simp add: remembers_def Check_seen)
next
  fix f tok until now
  assume "remembers f tok until" "now < until"
  then show "\<not> fst (ReplayFilter_Check f now tok)"
    using Check_rejects_iff [of f now tok] by (auto simp: remembers_def)
qed (simp_all add: Check_keep)

lemma check_run_fold:
  "snd (check_run f rs) = fold (\<lambda>(now, t) f. snd (ReplayFilter_Check f now t)) rs f"
  by (induction rs arbitrary: f) auto

section \<open>The specification: remember everything\<close>

text \<open>The history of accepted tokens with their times; nothing is ever forgotten.\<close>

definition spec_check :: "int \<Rightarrow> (bytes \<times> int) list \<Rightarrow> int \<Rightarrow> bytes \<Rightarrow> bool \<times> (bytes \<times> int) list" where
  "spec_check life h now token =
     (if list_ex (\<lambda>(k, t). k = token \<and> now < t + life) h then (False, h)
      else (True, (token, now) # h))"

fun spec_run :: "int \<Rightarrow> (bytes \<times> int) list \<Rightarrow> (int \<times> bytes) list \<Rightarrow> bool list" where
  "spec_run life h [] = []"
| "spec_run life h ((now, token) # rs) =
     (let (b, h') = spec_check life h now token in b # spec_run life h' rs)"

lemma spec_run_Cons [simp]:
  "spec_run life h ((now, token) # rs) =
     fst (spec_check life h now token) # spec_run life (snd (spec_check life h now token)) rs"
  by (simp add: case_prod_beta Let_def)

declare spec_run.simps(2) [simp del]

text \<open>From time \<open>t0\<close> on, the filter and the history block the same tokens.\<close>

definition replay_sim :: "int \<Rightarrow> replay_filter \<Rightarrow> (bytes \<times> int) list \<Rightarrow> bool" where
  "replay_sim t0 f h \<longleftrightarrow>
     (\<forall>tok n. t0 \<le> n \<longrightarrow>
        (\<exists>e. seen f tok = Some e \<and> e > n) \<longleftrightarrow> (\<exists>t. (tok, t) \<in> set h \<and> n < t + ttl f))"

lemma replay_sim_mono:
  assumes "replay_sim t0 f h" and "t0 \<le> t1" shows "replay_sim t1 f h"
  unfolding replay_sim_def
proof (intro allI impI)
  fix tok n assume "t1 \<le> n"
  with assms(2) have "t0 \<le> n" by simp
  with assms(1) show "(\<exists>e. seen f tok = Some e \<and> e > n)
      \<longleftrightarrow> (\<exists>t. (tok, t) \<in> set h \<and> n < t + ttl f)"
    unfolding replay_sim_def by simp
qed

lemma replay_sim_sweep:
  assumes "replay_sim now f h" shows "replay_sim now (sweep f now) h"
proof -
  have "(\<exists>e. seen (sweep f now) tok = Some e \<and> e > n) \<longleftrightarrow> (\<exists>e. seen f tok = Some e \<and> e > n)"
    if "now \<le> n" for tok n
  proof -
    have "seen (sweep f now) tok = Some e \<longleftrightarrow> seen f tok = Some e" if "e > n" for e
      using \<open>now \<le> n\<close> that by (intro seen_sweep_live) simp
    then show ?thesis by blast
  qed
  with assms show ?thesis by (simp add: replay_sim_def)
qed

lemma spec_check_rejects_iff:
  "fst (spec_check life h now tok) = False \<longleftrightarrow> (\<exists>t. (tok, t) \<in> set h \<and> now < t + life)"
  by (auto simp: spec_check_def list_ex_iff)

lemma replay_sim_step:
  assumes "replay_sim t0 f h" and "t0 \<le> now"
  shows "fst (ReplayFilter_Check f now tok) = fst (spec_check (ttl f) h now tok)"
    and "replay_sim now (snd (ReplayFilter_Check f now tok)) (snd (spec_check (ttl f) h now tok))"
proof -
  have sim: "replay_sim now f h" using assms by (rule replay_sim_mono)
  then have "(\<exists>e. seen f tok = Some e \<and> e > now) \<longleftrightarrow> (\<exists>t. (tok, t) \<in> set h \<and> now < t + ttl f)"
    by (simp add: replay_sim_def)
  then show eq: "fst (ReplayFilter_Check f now tok) = fst (spec_check (ttl f) h now tok)"
    using Check_rejects_iff spec_check_rejects_iff by metis
  note sw = replay_sim_sweep [OF sim]
  show "replay_sim now (snd (ReplayFilter_Check f now tok)) (snd (spec_check (ttl f) h now tok))"
  proof (cases "fst (ReplayFilter_Check f now tok)")
    case True
    with eq have h: "snd (spec_check (ttl f) h now tok) = (tok, now) # h"
      and old: "\<not> (\<exists>t. (tok, t) \<in> set h \<and> now < t + ttl f)"
      using spec_check_rejects_iff [of "ttl f" h now tok]
      by (auto simp: spec_check_def split: if_splits)
    show ?thesis
      unfolding replay_sim_def
    proof (intro allI impI)
      fix k n assume n: "now \<le> n"
      show "(\<exists>e. seen (snd (ReplayFilter_Check f now tok)) k = Some e \<and> e > n) \<longleftrightarrow>
          (\<exists>t. (k, t) \<in> set (snd (spec_check (ttl f) h now tok))
             \<and> n < t + ttl (snd (ReplayFilter_Check f now tok)))"
      proof (cases "k = tok")
        case k: True
        have "\<not> (\<exists>t. (tok, t) \<in> set h \<and> n < t + ttl f)" using old n by force
        then show ?thesis using True k h by (auto simp: Check_seen)
      next
        case False
        with True sw n h show ?thesis by (auto simp: Check_seen replay_sim_def)
      qed
    qed
  next
    case False
    with eq have "snd (spec_check (ttl f) h now tok) = h"
      by (auto simp: spec_check_def split: if_splits)
    with False sw show ?thesis by (simp add: replay_sim_def Check_seen)
  qed
qed

lemma replay_sim_init: "replay_sim t0 (NewReplayFilter d) []"
  by (simp add: replay_sim_def NewReplayFilter_def Let_def)

lemma check_run_spec_run:
  "replay_sim t0 f h \<Longrightarrow> sorted (t0 # map fst rs) \<Longrightarrow>
     fst (check_run f rs) = spec_run (ttl f) h rs"
proof (induction rs arbitrary: t0 f h)
  case (Cons r rs)
  obtain now tok where r: "r = (now, tok)" by (cases r)
  from Cons.prems(2) r have le: "t0 \<le> now" and s: "sorted (now # map fst rs)" by auto
  note step = replay_sim_step [OF Cons.prems(1) le, of tok]
  from Cons.IH [OF step(2) s] step(1) show ?case by (simp add: r)
qed simp

section \<open>Memory\<close>

text \<open>
  The filter's entries after a call at time \<open>now\<close> are at most two lifetimes old, because the
  last sweep is at most one lifetime back.
\<close>

definition replay_fresh :: "replay_filter \<Rightarrow> int \<Rightarrow> bool" where
  "replay_fresh f now \<longleftrightarrow> lastGC f \<le> now \<and> now - lastGC f \<le> ttl f \<and> 0 < ttl f
     \<and> (\<forall>k e. seen f k = Some e \<longrightarrow> lastGC f < e)"

lemma replay_fresh_Check:
  assumes "replay_fresh f t0" and "t0 \<le> now"
  shows "replay_fresh (snd (ReplayFilter_Check f now tok)) now"
proof -
  have s: "lastGC (sweep f now) < e" if "seen (sweep f now) k = Some e" for k e
    using that assms by (auto simp: replay_fresh_def sweep_def split: if_splits option.splits)
  have g: "lastGC (sweep f now) \<le> now"
    using assms by (auto simp: replay_fresh_def sweep_def)
  have l: "lastGC (snd (ReplayFilter_Check f now tok)) = lastGC (sweep f now)"
    by (simp add: lastGC_Check sweep_def)
  from assms s g show ?thesis
    by (auto simp: replay_fresh_def Check_seen l) (auto simp: sweep_def)
qed

lemma replay_fresh_init: "0 \<le> t0 \<Longrightarrow> t0 \<le> ttl (NewReplayFilter d) \<Longrightarrow> replay_fresh (NewReplayFilter d) t0"
  using NewReplayFilter_pos [of d]
  by (auto simp: replay_fresh_def NewReplayFilter_def Let_def)

lemma replay_fresh_first:
  "0 \<le> now \<Longrightarrow> replay_fresh (snd (ReplayFilter_Check (NewReplayFilter d) now tok)) now"
  using NewReplayFilter_pos [of d]
  by (auto simp: replay_fresh_def Check_seen lastGC_Check sweep_def NewReplayFilter_def Let_def)

lemma replay_fresh_run:
  "replay_fresh f t0 \<Longrightarrow> sorted (t0 # map fst rs) \<Longrightarrow>
     replay_fresh (snd (check_run f rs)) (last (t0 # map fst rs))"
proof (induction rs arbitrary: f t0)
  case (Cons r rs)
  obtain now tok where r: "r = (now, tok)" by (cases r)
  from Cons.prems r have "replay_fresh (snd (ReplayFilter_Check f now tok)) now"
    and s: "sorted (now # map fst rs)" by (auto intro: replay_fresh_Check)
  from Cons.IH [OF this] show ?case by (simp add: r)
qed simp

text \<open>Every entry was made by a call of the run.\<close>

lemma check_run_entries:
  "seen (snd (check_run f rs)) k = Some e \<Longrightarrow>
     seen f k = Some e \<or> (e - ttl f, k) \<in> set rs"
proof (induction rs arbitrary: f)
  case (Cons r rs)
  obtain now tok where r: "r = (now, tok)" by (cases r)
  from Cons.prems r
  have "seen (snd (check_run (snd (ReplayFilter_Check f now tok)) rs)) k = Some e"
    by simp
  from Cons.IH [OF this] have "seen (snd (ReplayFilter_Check f now tok)) k = Some e
      \<or> (e - ttl f, k) \<in> set rs" by simp
  then show ?case
    using r by (auto simp: Check_seen split: if_splits dest: seen_sweep_sub)
qed simp

text \<open>The filter after calls at non-decreasing times from any start.\<close>

lemma replay_fresh_all:
  assumes "sorted (map fst rs)" "rs \<noteq> []" "0 \<le> fst (hd rs)"
  shows "replay_fresh (snd (check_run (NewReplayFilter d) rs)) (fst (last rs))"
proof -
  obtain now tok rs' where rs: "rs = (now, tok) # rs'" using assms(2) by (cases rs) auto
  from assms(3) rs have "replay_fresh (snd (ReplayFilter_Check (NewReplayFilter d) now tok)) now"
    by (simp add: replay_fresh_first)
  from replay_fresh_run [OF this, of rs'] assms(1) show ?thesis
    by (auto simp: rs last_map)
qed

section \<open>Properties\<close>

text \<open>C9. No token is accepted twice within the filter's lifetime, whatever other tokens are
  checked in between (and even if the clock runs backwards in between).\<close>

theorem no_token_accepted_twice:
  assumes "ReplayFilter_Check f t0 tok = (True, f0)"
    and "\<forall>(now, t) \<in> set rs. now < t0 + ttl f" and "now < t0 + ttl f"
  shows "fst (ReplayFilter_Check (snd (check_run f0 rs)) now tok) = False"
  using replay.no_replay [OF assms] by (simp add: check_run_fold)

theorem no_token_accepted_twice_witness:
  "fst (ReplayFilter_Check (snd (check_run (snd (ReplayFilter_Check (NewReplayFilter 240000000000) 1000 [1]))
     [(1100, [2]), (1239, [3])])) 1239 [1]) = False"
  by (rule no_token_accepted_twice [of "NewReplayFilter 240000000000" 1000])
    (simp_all add: NewReplayFilter_def ReplayFilter_Check_def sweep_def)

text \<open>C10. With a clock that never runs backwards the filter, which forgets, gives the answers
  of a filter that remembers every accepted token for ever: a token is refused exactly when
  it was accepted less than one lifetime ago.\<close>

theorem filter_refines_full_history:
  assumes "sorted (map fst rs)"
  shows "fst (check_run (NewReplayFilter d) rs) = spec_run (ttl (NewReplayFilter d)) [] rs"
proof (cases rs)
  case (Cons r rs')
  have "replay_sim (fst r) (NewReplayFilter d) []" by (rule replay_sim_init)
  from check_run_spec_run [OF this, of rs] assms show ?thesis by (simp add: Cons)
qed simp

theorem filter_refines_full_history_witness:
  "fst (check_run (NewReplayFilter 240000000000) [(0, [1]), (100, [1]), (240, [1])]) = [True, False, True]"
proof -
  have "spec_run (ttl (NewReplayFilter 240000000000)) [] [(0, [1]), (100, [1]), (240, [1])]
      = [True, False, True]"
    by (simp add: NewReplayFilter_def spec_check_def)
  with filter_refines_full_history [of "[(0, [1]), (100, [1]), (240, [1])]" 240000000000]
  show ?thesis by simp
qed

text \<open>The filter's memory is bounded by the recent past: after any calls at non-decreasing
  times, every entry it holds was made by a call less than two lifetimes before the last one.\<close>

theorem filter_memory_bounded:
  assumes "sorted (map fst rs)" "rs \<noteq> []" "0 \<le> fst (hd rs)"
    and "seen (snd (check_run (NewReplayFilter d) rs)) tok = Some e"
  shows "\<exists>t. (t, tok) \<in> set rs \<and> fst (last rs) - 2 * ttl (NewReplayFilter d) < t"
proof -
  let ?f = "NewReplayFilter d"
  have "seen ?f tok = None" by (simp add: NewReplayFilter_def Let_def)
  with check_run_entries [OF assms(4)] have "(e - ttl ?f, tok) \<in> set rs" by simp
  moreover have "ttl (snd (check_run g qs)) = ttl g" for g qs
    by (induction qs arbitrary: g) auto
  with replay_fresh_all [OF assms(1-3), of d] assms(4)
  have "fst (last rs) - 2 * ttl ?f < e - ttl ?f"
    by (fastforce simp: replay_fresh_def)
  ultimately show ?thesis by blast
qed

theorem filter_memory_bounded_witness:
  "\<exists>t. (t, [1]) \<in> set [(0, [1 :: byte]), (100, [2])] \<and> 100 - 2 * 240 < (t :: int)"
proof -
  have "seen (snd (check_run (NewReplayFilter 240000000000) [(0, [1]), (100, [2])])) [1] = Some 240"
    by (simp add: NewReplayFilter_def ReplayFilter_Check_def sweep_def)
  from filter_memory_bounded [OF _ _ _ this]
  have "\<exists>t. (t, [1]) \<in> set [(0, [1 :: byte]), (100, [2])]
      \<and> fst (last [(0, [1 :: byte]), (100, [2])]) - 2 * ttl (NewReplayFilter 240000000000) < t" by simp
  then show ?thesis by (simp add: NewReplayFilter_def)
qed

end
