(* ===== verification/Krot_Handler.thy ===== *)
theory Krot_Handler
  imports Krot_Wire Krot_Tunnel Krot_Replay "HOL-Library.Monad_Syntax"
begin

text \<open>
  internal/transport/server.go: the handler that authenticates upgrade requests, keeps the
  bonded sessions, and serves the decoy to everyone else.

  Tunnels are numbered; the handler's state holds the tunnel of each number, and for each the
  session id and the lease that its onEmpty closure was made with. The callback Alloc and
  the lease's release are arguments (\<open>Krot_Server\<close> has the server's). Of the HTTP server and
  the WebSocket upgrader, the request's cookies and path and the upgrade's success are
  inputs; the answer's headers are an output.
\<close>

section \<open>Configuration and state\<close>

definition authWindow :: int where "authWindow = 120"

record handler_config =
  hc_PSK :: bytes
  hc_Static :: keypair
  hc_Path :: string
  hc_Gw :: string
  hc_DNS :: string
  hc_Decoy :: string
  hc_Pad :: pad_policy
  hc_Replay :: "replay_filter option"

record server_session =
  ss_tun :: nat
  ss_assign :: Assignment

datatype 'u decoy_site = ItWorks | BadGateway | ReverseProxy 'u

record ('p, 'l, 'u) handler =
  h_cfg :: handler_config
  h_decoy :: "'u decoy_site"
  h_replay :: replay_filter
  h_sessions :: "(bytes \<times> server_session) list"
  h_pool :: 'p
  h_tunnels :: "tunnel list"
  h_owner :: "(bytes \<times> 'l) list"
  h_nconn :: nat

datatype handler_error = BadPSK

text \<open>\<open>url_Parse\<close> is net/url's Parse, the handler it leads to the reverse proxy of net/http/httputil.\<close>

definition buildDecoy :: "(string \<Rightarrow> 'u option) \<Rightarrow> string \<Rightarrow> 'u decoy_site" where
  "buildDecoy url_Parse target =
     (if target = [] then ItWorks
      else case url_Parse target of None \<Rightarrow> BadGateway | Some u \<Rightarrow> ReverseProxy u)"

definition NewHandler ::
  "(string \<Rightarrow> 'u option) \<Rightarrow> 'p \<Rightarrow> handler_config \<Rightarrow> handler_error + ('p, 'l, 'u) handler" where
  "NewHandler url_Parse pool cfg =
     (if length (hc_PSK cfg) \<noteq> KeySize then Inl BadPSK
      else
        let cfg1 = (if BurstRecords (hc_Pad cfg) = 0 \<and> BurstMax (hc_Pad cfg) = 0
                    then cfg\<lparr>hc_Pad := DefaultPad\<rparr> else cfg);
            rf = (case hc_Replay cfg1 of
                    None \<Rightarrow> NewReplayFilter (2 * authWindow * 1000000000)
                  | Some f \<Rightarrow> f)
        in Inr \<lparr>h_cfg = cfg1, h_decoy = buildDecoy url_Parse (hc_Decoy cfg1), h_replay = rf,
                h_sessions = [], h_pool = pool, h_tunnels = [], h_owner = [], h_nconn = 0\<rparr>)"

section \<open>Authentication\<close>

record request =
  req_cookies :: "string list"   \<comment> \<open>the Cookie header lines\<close>
  req_path :: string

text \<open>Everything checkAuth verifies before the replay filter: the token and what it vouches for.\<close>

definition auth_claim :: "handler_config \<Rightarrow> int \<Rightarrow> request \<Rightarrow> (bytes \<times> bytes \<times> bytes \<times> int) option" where
  "auth_claim cfg now r = do {
     ekC \<leftarrow> Request_Cookie (req_cookies r) cookieEph;
     tsC \<leftarrow> Request_Cookie (req_cookies r) cookieTS;
     auC \<leftarrow> Request_Cookie (req_cookies r) cookieAuth;
     siC \<leftarrow> Request_Cookie (req_cookies r) cookieSID;
     ciC \<leftarrow> Request_Cookie (req_cookies r) cookieChan;
     ekPub \<leftarrow> decodeKey ekC;
     token \<leftarrow> decodeKey auC;
     sidBytes \<leftarrow> (case unb64 siC of None \<Rightarrow> None | Some s \<Rightarrow> if length s \<noteq> 16 then None else Some s);
     ci \<leftarrow> (case parseChan ciC of None \<Rightarrow> None
            | Some i \<Rightarrow> if i < 0 \<or> i \<ge> maxChannelsPerSession then None else Some i);
     ts \<leftarrow> ParseInt64 tsC;
     if ts < now - authWindow \<or> ts > now + authWindow then None
     else if \<not> ConstantTimeEqual (authToken (hc_PSK cfg) ekPub ts (Public (hc_Static cfg)) sidBytes) token
     then None
     else Some (token, ekPub, sidBytes, ci)
   }"

definition Handler_checkAuth ::
  "handler_config \<Rightarrow> replay_filter \<Rightarrow> int \<Rightarrow> request \<Rightarrow> (bytes \<times> bytes \<times> int) option \<times> replay_filter" where
  "Handler_checkAuth cfg rf now r =
     (case auth_claim cfg now r of
        None \<Rightarrow> (None, rf)
      | Some (token, ekPub, sid, ci) \<Rightarrow>
          let (fresh, rf') = ReplayFilter_Check rf now token
          in if \<not> fresh then (None, rf') else (Some (ekPub, sid, ci), rf'))"

section \<open>Serving a request\<close>

datatype served =
    Decoy
  | UpgradeFailed                                  \<comment> \<open>Upgrade wrote an error itself\<close>
  | ClosedAfterUpgrade "(string \<times> string) list"    \<comment> \<open>handshake failed: the WebSocket is closed\<close>
  | Attached "(string \<times> string) list" nat nat      \<comment> \<open>response headers, tunnel, connection\<close>
  | KDFPanic

definition response_header :: "keypair \<Rightarrow> Assignment \<Rightarrow> (string \<times> string) list" where
  "response_header eph asg =
     [(hdrServerEph, b64 (Public eph)), (hdrAssignAddr, asg_Addr asg), (hdrAssignGw, asg_Gw asg)]
     @ (if asg_DNS asg \<noteq> [] then [(hdrAssignDNS, asg_DNS asg)] else [])
     @ [(''Server'', ''nginx'')]"

text \<open>From the ephemeral key on: one channel joins its session's tunnel.\<close>

definition join_channel ::
  "prims \<Rightarrow> bytes option \<Rightarrow> bool \<Rightarrow> bytes \<Rightarrow> bytes \<Rightarrow> int \<Rightarrow> server_session \<Rightarrow>
   ('p, 'l, 'u) handler \<Rightarrow> served \<times> ('p, 'l, 'u) handler" where
  "join_channel P rnd upgraded clientEph sid chanIdx sess h =
     (case GenerateKeypair P rnd of
        Inl e \<Rightarrow> (Decoy, h)
      | Inr eph \<Rightarrow>
          let hdr = response_header eph (ss_assign sess) in
          if \<not> upgraded then (UpgradeFailed, h)
          else
            let st = Private (hc_Static (h_cfg h)) in
            case combineDH P (Private eph) clientEph st clientEph of
              Inl e \<Rightarrow> (ClosedAfterUpgrade hdr, h)
            | Inr shared \<Rightarrow>
                (case DeriveSessionKeys P shared (channelSalt clientEph (Public eph) sid chanIdx) False of
                   None \<Rightarrow> (KDFPanic, h)
                 | Some keys \<Rightarrow>
                     (case newConn P (TxKey keys) (RxKey keys) (hc_Pad (h_cfg h)) of
                        Inl e \<Rightarrow> (ClosedAfterUpgrade hdr, h)
                      | Inr conn \<Rightarrow>
                          let c = h_nconn h; tid = ss_tun sess;
                              t = snd (addChannel chanIdx c (set_conn c conn (h_tunnels h ! tid)))
                          in (Attached hdr tid c,
                              h\<lparr>h_tunnels := (h_tunnels h)[tid := t], h_nconn := Suc c\<rparr>))))"

text \<open>A new session: its tunnel, whose onEmpty knows the session id and the lease.\<close>

definition new_session ::
  "bytes \<Rightarrow> string \<Rightarrow> 'l \<Rightarrow> 'p \<Rightarrow> ('p, 'l, 'u) handler \<Rightarrow> server_session \<times> ('p, 'l, 'u) handler" where
  "new_session sid cidr lease pool h =
     (let tid = length (h_tunnels h);
          sess = \<lparr>ss_tun = tid, ss_assign = \<lparr>asg_Addr = cidr, asg_Gw = hc_Gw (h_cfg h),
                    asg_DNS = hc_DNS (h_cfg h)\<rparr>\<rparr>
      in (sess, h\<lparr>h_pool := pool, h_owner := h_owner h @ [(sid, lease)],
                  h_tunnels := h_tunnels h @ [newTunnel (\<lambda>_. zero_conn) True],
                  h_sessions := AList.update sid sess (h_sessions h)\<rparr>))"

definition ServeHTTP ::
  "prims \<Rightarrow> ('p \<Rightarrow> (string \<times> 'l \<times> 'p) option) \<Rightarrow> int \<Rightarrow> bytes option \<Rightarrow> bool \<Rightarrow> request \<Rightarrow>
   ('p, 'l, 'u) handler \<Rightarrow> served \<times> ('p, 'l, 'u) handler" where
  "ServeHTTP P alloc now rnd upgraded r h =
     (let (auth, rf) = Handler_checkAuth (h_cfg h) (h_replay h) now r;
          h1 = h\<lparr>h_replay := rf\<rparr>
      in case auth of
           None \<Rightarrow> (Decoy, h1)
         | Some (clientEph, sid, chanIdx) \<Rightarrow>
             if req_path r \<noteq> hc_Path (h_cfg h) then (Decoy, h1)
             else
               (case map_of (h_sessions h1) sid of
                  None \<Rightarrow>
                    (case alloc (h_pool h1) of
                       None \<Rightarrow> (Decoy, h1)
                     | Some (cidr, lease, pool) \<Rightarrow>
                         let (sess, h2) = new_session sid cidr lease pool h1
                         in join_channel P rnd upgraded clientEph sid chanIdx sess h2)
                | Some sess \<Rightarrow>
                    if int (channelCount (h_tunnels h1 ! ss_tun sess)) \<ge> maxChannelsPerSession
                    then (Decoy, h1)
                    else join_channel P rnd upgraded clientEph sid chanIdx sess h1))"

section \<open>The end of a channel or a tunnel\<close>

text \<open>The onEmpty closure of a session's tunnel.\<close>

definition session_onEmpty ::
  "('l \<Rightarrow> 'p \<Rightarrow> 'p) \<Rightarrow> nat \<Rightarrow> ('p, 'l, 'u) handler \<Rightarrow> ('p, 'l, 'u) handler" where
  "session_onEmpty release tid h =
     (let (sid, lease) = h_owner h ! tid
      in h\<lparr>h_sessions := AList.delete sid (h_sessions h), h_pool := release lease (h_pool h)\<rparr>)"

text \<open>An operation on one tunnel; if the tunnel calls onEmpty in it, the closure runs.\<close>

definition on_tunnel ::
  "('l \<Rightarrow> 'p \<Rightarrow> 'p) \<Rightarrow> nat \<Rightarrow> (tunnel \<Rightarrow> tunnel) \<Rightarrow> ('p, 'l, 'u) handler \<Rightarrow> ('p, 'l, 'u) handler" where
  "on_tunnel release tid f h =
     (let t = h_tunnels h ! tid; t' = f t; h' = h\<lparr>h_tunnels := (h_tunnels h)[tid := t']\<rparr>
      in if emptied t' > emptied t then session_onEmpty release tid h' else h')"

section \<open>What authentication means\<close>

lemma auth_claim_Some:
  assumes "auth_claim cfg now r = Some (token, ek, sid, ci)"
  obtains ts where "now - authWindow \<le> ts" "ts \<le> now + authWindow"
    "token = authToken (hc_PSK cfg) ek ts (Public (hc_Static cfg)) sid"
    "length ek = 32" "length sid = 16" "0 \<le> ci" "ci < maxChannelsPerSession"
    "\<And>now'. now' - authWindow \<le> ts \<Longrightarrow> ts \<le> now' + authWindow \<Longrightarrow>
       auth_claim cfg now' r = Some (token, ek, sid, ci)"
proof -
  from assms obtain ekC tsC auC siC ciC ts where
    c: "Request_Cookie (req_cookies r) cookieEph = Some ekC"
      "Request_Cookie (req_cookies r) cookieTS = Some tsC"
      "Request_Cookie (req_cookies r) cookieAuth = Some auC"
      "Request_Cookie (req_cookies r) cookieSID = Some siC"
      "Request_Cookie (req_cookies r) cookieChan = Some ciC"
    and d: "decodeKey ekC = Some ek" "decodeKey auC = Some token"
      "unb64 siC = Some sid" "length sid = 16" "parseChan ciC = Some ci"
      "0 \<le> ci" "ci < maxChannelsPerSession" "ParseInt64 tsC = Some ts"
    and w: "now - authWindow \<le> ts" "ts \<le> now + authWindow"
    and t: "authToken (hc_PSK cfg) ek ts (Public (hc_Static cfg)) sid = token"
    unfolding auth_claim_def
    by (auto simp: bind_eq_Some_conv ConstantTimeEqual_iff split: option.splits if_splits)
  show thesis
  proof (rule that [OF w t [symmetric] decodeKey_length [OF d(1)] d(4,6,7)])
    fix now' assume "now' - authWindow \<le> ts" "ts \<le> now' + authWindow"
    then show "auth_claim cfg now' r = Some (token, ek, sid, ci)"
      unfolding auth_claim_def using c d t by (simp add: ConstantTimeEqual_iff)
  qed
qed

lemma checkAuth_Some:
  "Handler_checkAuth cfg rf now r = (Some (ek, sid, ci), rf') \<longleftrightarrow>
     (\<exists>token. auth_claim cfg now r = Some (token, ek, sid, ci) \<and> ReplayFilter_Check rf now token = (True, rf'))"
  by (auto simp: Handler_checkAuth_def Let_def split: option.splits prod.splits if_splits)

lemma checkAuth_claim_None: "auth_claim cfg now r = None \<Longrightarrow> Handler_checkAuth cfg rf now r = (None, rf)"
  by (simp add: Handler_checkAuth_def)

lemma ServeHTTP_unauthenticated:
  "Handler_checkAuth (h_cfg h) (h_replay h) now r = (None, rf) \<Longrightarrow>
     ServeHTTP P alloc now rnd up r h = (Decoy, h\<lparr>h_replay := rf\<rparr>)"
  by (simp add: ServeHTTP_def)

lemma join_channel_replay: "join_channel P rnd up ek sid ci sess h = (res, h') \<Longrightarrow>
    h_replay h' = h_replay h \<and> h_cfg h' = h_cfg h"
  by (auto simp: join_channel_def Let_def split: sum.splits option.splits if_splits)

lemma new_session_replay: "new_session sid cidr l p h = (sess, h') \<Longrightarrow>
    h_replay h' = h_replay h \<and> h_cfg h' = h_cfg h"
  by (auto simp: new_session_def Let_def)

lemma ServeHTTP_replay:
  "ServeHTTP P alloc now rnd up r h = (res, h') \<Longrightarrow>
     h_replay h' = snd (Handler_checkAuth (h_cfg h) (h_replay h) now r) \<and> h_cfg h' = h_cfg h"
  by (auto simp: ServeHTTP_def Let_def dest!: join_channel_replay new_session_replay
      split: prod.splits option.splits if_splits)

section \<open>The handler's invariant\<close>

text \<open>
  Operations of a tunnel that a goroutine may run besides addChannel: they keep the tunnel's
  invariant, add no channel and never revive it.
\<close>

definition moved :: "tunnel \<Rightarrow> tunnel \<Rightarrow> bool" where
  "moved t u \<longleftrightarrow> tunnel_ok u \<and> has_onEmpty u = has_onEmpty t \<and> (dead t \<longrightarrow> dead u)
     \<and> fst ` set (channels u) \<subseteq> fst ` set (channels t)"

definition tunnel_move :: "(tunnel \<Rightarrow> tunnel) \<Rightarrow> bool" where
  "tunnel_move f \<longleftrightarrow> (\<forall>t. tunnel_ok t \<longrightarrow> moved t (f t))"

lemma moved_refl: "tunnel_ok t \<Longrightarrow> moved t t"
  by (simp add: moved_def)

lemma moved_trans: "moved t u \<Longrightarrow> moved u v \<Longrightarrow> moved t v"
  unfolding moved_def by (metis subset_trans)

lemma moved_ok: "moved t u \<Longrightarrow> tunnel_ok u"
  by (simp add: moved_def)

lemma moved_conn: "tunnel_ok t \<Longrightarrow> moved t (set_conn c k t)" "tunnel_ok t \<Longrightarrow> moved t ((set_conn c k t)\<lparr>wire := w\<rparr>)"
  by (simp_all add: moved_def)

lemma removeChannel_grows:
  "has_onEmpty (removeChannel idx t) = has_onEmpty t" "dead t \<Longrightarrow> dead (removeChannel idx t)"
  "fst ` set (channels (removeChannel idx t)) \<subseteq> fst ` set (channels t)"
proof -
  show "has_onEmpty (removeChannel idx t) = has_onEmpty t" "dead t \<Longrightarrow> dead (removeChannel idx t)"
    by (auto simp: removeChannel_def removeChannel_locked_def Let_def markDead_def split: option.split)
  show "fst ` set (channels (removeChannel idx t)) \<subseteq> fst ` set (channels t)"
    by (cases "map_of (channels t) idx")
      (auto simp: removeChannel_None removeChannel_fields AList.delete_eq)
qed

lemma removeChannel_moved: "tunnel_ok t \<Longrightarrow> moved t (removeChannel idx t)"
  by (simp add: moved_def removeChannel_ok removeChannel_grows)

lemma Tunnel_Close_grows: "has_onEmpty (Tunnel_Close t) = has_onEmpty t \<and> (once_inv t \<longrightarrow> dead (Tunnel_Close t))"
proof -
  have "has_onEmpty (fold Conn_Close cs u) = has_onEmpty u" for cs u
    by (induction cs arbitrary: u) auto
  moreover have "once_inv u \<Longrightarrow> dead (markDead u)" for u
    by (auto simp: markDead_def once_inv_def)
  moreover have "once_inv t \<Longrightarrow> once_inv (t\<lparr>channels := [], order := []\<rparr>)" by (simp add: once_inv_def)
  ultimately show ?thesis
    by (simp add: Tunnel_Close_def Tunnel_Close_locked_def fold_Conn_Close_once)
qed

lemma Tunnel_Close_moved: "tunnel_ok t \<Longrightarrow> moved t (Tunnel_Close t)"
proof -
  assume ok: "tunnel_ok t"
  then have "once_inv t" by (simp add: tunnel_ok_def)
  with ok Tunnel_Close_grows show ?thesis
    by (simp add: moved_def Tunnel_Close_ok Tunnel_Close_fields)
qed

lemma write_loop_moved: "tunnel_ok t \<Longrightarrow> moved t (snd (write_loop k h i p env t))"
proof (induction k arbitrary: i t)
  case 0
  then show ?case by (simp add: moved_refl)
next
  case (Suc k)
  let ?idx = "choice h i t"
  show ?case
  proof (cases "order t = [] \<or> map_of (channels t) ?idx = None")
    case True
    then have "write_loop (Suc k) h i p env t = (Inl errTunnelClosed, t)
        \<or> write_loop (Suc k) h i p env t = (Inl NilConn, t)"
      by (cases "order t = []") (simp_all add: write_loop_empty write_loop.simps choice_def Let_def)
    with Suc.prems moved_refl show ?thesis by auto
  next
    case False
    then obtain c where ne: "order t \<noteq> []" and c: "map_of (channels t) ?idx = Some c" by auto
    obtain r k' where w: "attempt p env i t c = (r, k')" by fastforce
    show ?thesis
    proof (cases r)
      case (Inl e)
      have u: "moved t (removeChannel ?idx (set_conn c k' t))"
        using moved_conn(1) [OF Suc.prems] removeChannel_moved moved_ok moved_trans by blast
      from moved_trans [OF u Suc.IH [OF moved_ok [OF u]]] write_loop_fail [OF ne c] w Inl
      show ?thesis by simp
    next
      case (Inr ct)
      with write_loop_success [OF ne c] w moved_conn(2) [OF Suc.prems] show ?thesis by simp
    qed
  qed
qed

lemma keepalive_loop_moved: "tunnel_ok t \<Longrightarrow> moved t (snd (keepalive_loop i cs env t))"
proof (induction cs arbitrary: i t)
  case Nil
  then show ?case by (simp add: moved_refl)
next
  case (Cons x cs)
  obtain idx oc where x: "x = (idx, oc)" by (cases x)
  show ?case
  proof (cases oc)
    case None
    with Cons.prems x show ?thesis by (simp add: moved_refl)
  next
    case (Some c)
    obtain r k' where w: "Conn_WriteKeepalive (heap t c) (env_raw env i) (env_fill env i) (env_ok env c)
        = (r, k')" by fastforce
    show ?thesis
    proof (cases r)
      case (Inl e)
      have u: "moved t (removeChannel idx (set_conn c k' t))"
        using moved_conn(1) [OF Cons.prems] removeChannel_moved moved_ok moved_trans by blast
      from moved_trans [OF u Cons.IH [OF moved_ok [OF u]]] Some w Inl x show ?thesis by simp
    next
      case (Inr ct)
      have u: "moved t ((set_conn c k' t)\<lparr>wire := wire t @ [(c, ct)]\<rparr>)"
        by (rule moved_conn(2) [OF Cons.prems])
      from moved_trans [OF u Cons.IH [OF moved_ok [OF u]]] Some w Inr x show ?thesis by simp
    qed
  qed
qed

lemma ReadPacket_moved: "tunnel_ok t \<Longrightarrow> moved t (snd (Tunnel_ReadPacket t))"
  using Tunnel_ReadPacket_ok
  by (auto simp: moved_def Tunnel_ReadPacket_def split: list.splits)

lemma tunnel_moves:
  "tunnel_move (removeChannel idx)" "tunnel_move Tunnel_Close"
  "tunnel_move (\<lambda>t. snd (Tunnel_WritePacket p env t))"
  "tunnel_move (\<lambda>t. snd (Tunnel_WriteKeepalive env t))" "tunnel_move (\<lambda>t. snd (Tunnel_ReadPacket t))"
  by (simp_all add: tunnel_move_def removeChannel_moved Tunnel_Close_moved Tunnel_WritePacket_def
      write_loop_moved Tunnel_WriteKeepalive_def Let_def keepalive_loop_moved moved_refl ReadPacket_moved)

text \<open>
  Tunnels are in good shape and use indices below the cap; the sessions are exactly the live
  tunnels, each under the session id its onEmpty closure knows.
\<close>

definition session_tunnel :: "tunnel \<Rightarrow> bool" where
  "session_tunnel t \<longleftrightarrow> tunnel_ok t \<and> has_onEmpty t \<and> fst ` set (channels t) \<subseteq> {0..<maxChannelsPerSession}"

definition handler_ok :: "('p, 'l, 'u) handler \<Rightarrow> bool" where
  "handler_ok h \<longleftrightarrow>
     length (h_owner h) = length (h_tunnels h)
     \<and> (\<forall>t \<in> set (h_tunnels h). session_tunnel t)
     \<and> distinct (map fst (h_sessions h))
     \<and> (\<forall>sid s. map_of (h_sessions h) sid = Some s \<longrightarrow>
          ss_tun s < length (h_tunnels h) \<and> fst (h_owner h ! ss_tun s) = sid
          \<and> \<not> dead (h_tunnels h ! ss_tun s))
     \<and> (\<forall>i < length (h_tunnels h). \<not> dead (h_tunnels h ! i) \<longrightarrow>
          map_option ss_tun (map_of (h_sessions h) (fst (h_owner h ! i))) = Some i)"

lemma session_tunnel_new: "session_tunnel (newTunnel hp True)"
  using newTunnel_ok by (simp add: session_tunnel_def newTunnel_def)

lemma addChannel_tunnel:
  assumes "session_tunnel t" "0 \<le> idx" "idx < maxChannelsPerSession"
  shows "session_tunnel (snd (addChannel idx c (set_conn c k t)))"
    and "dead (snd (addChannel idx c (set_conn c k t))) = dead t"
proof -
  have "tunnel_ok (snd (addChannel idx c (set_conn c k t)))"
    using assms(1) by (intro addChannel_ok) (simp add: session_tunnel_def)
  then show "session_tunnel (snd (addChannel idx c (set_conn c k t)))"
    "dead (snd (addChannel idx c (set_conn c k t))) = dead t"
    using assms by (auto simp: session_tunnel_def addChannel_def AList.dom_update)
qed

lemma handler_ok_update:
  assumes "handler_ok h" "i < length (h_tunnels h)"
    and "session_tunnel t" "dead t = dead (h_tunnels h ! i)"
  shows "handler_ok (h\<lparr>h_tunnels := (h_tunnels h)[i := t], h_nconn := n\<rparr>)"
    and "handler_ok (h\<lparr>h_tunnels := (h_tunnels h)[i := t]\<rparr>)"
proof -
  have "dead ((h_tunnels h)[i := t] ! j) = dead (h_tunnels h ! j)" if "j < length (h_tunnels h)" for j
    using that assms(2,4) by (simp add: nth_list_update)
  moreover have "\<forall>u \<in> set ((h_tunnels h)[i := t]). session_tunnel u"
    using assms(1,3) set_update_subset_insert [of "h_tunnels h" i t] by (auto simp: handler_ok_def)
  ultimately show "handler_ok (h\<lparr>h_tunnels := (h_tunnels h)[i := t], h_nconn := n\<rparr>)"
    "handler_ok (h\<lparr>h_tunnels := (h_tunnels h)[i := t]\<rparr>)"
    using assms(1) by (auto simp: handler_ok_def)
qed

lemma join_channel_ok:
  assumes "handler_ok h" "ss_tun sess < length (h_tunnels h)"
    and "0 \<le> ci" "ci < maxChannelsPerSession"
    and "join_channel P rnd up ek sid ci sess h = (res, h')"
  shows "handler_ok h'"
proof (cases "h' = h")
  case False
  have s: "session_tunnel (h_tunnels h ! ss_tun sess)"
    using assms(1,2) by (auto simp: handler_ok_def)
  from assms(5) False obtain c k where
    "h' = h\<lparr>h_tunnels := (h_tunnels h)[ss_tun sess := snd (addChannel ci c (set_conn c k (h_tunnels h ! ss_tun sess)))],
        h_nconn := Suc c\<rparr>"
    by (auto simp: join_channel_def Let_def split: sum.splits option.splits if_splits)
  with handler_ok_update(1) [OF assms(1,2) addChannel_tunnel [OF s assms(3,4)]] show ?thesis by simp
qed (use assms in simp)

lemma new_session_ok:
  assumes "handler_ok h" "map_of (h_sessions h) sid = None"
    and "new_session sid cidr l p h = (sess, h')"
  shows "handler_ok h' \<and> ss_tun sess < length (h_tunnels h')"
proof -
  let ?n = "length (h_tunnels h)"
  from assms(3) have sess: "ss_tun sess = ?n"
    and h': "h' = h\<lparr>h_pool := p, h_owner := h_owner h @ [(sid, l)],
        h_tunnels := h_tunnels h @ [newTunnel (\<lambda>_. zero_conn) True],
        h_sessions := AList.update sid sess (h_sessions h)\<rparr>"
    by (auto simp: new_session_def Let_def)
  have ok: "length (h_owner h) = ?n" "\<forall>t \<in> set (h_tunnels h). session_tunnel t"
    "distinct (map fst (h_sessions h))"
    and s1: "\<And>k s. map_of (h_sessions h) k = Some s \<Longrightarrow> ss_tun s < ?n
      \<and> fst (h_owner h ! ss_tun s) = k \<and> \<not> dead (h_tunnels h ! ss_tun s)"
    and s2: "\<And>i. i < ?n \<Longrightarrow> \<not> dead (h_tunnels h ! i) \<Longrightarrow>
      map_option ss_tun (map_of (h_sessions h) (fst (h_owner h ! i))) = Some i"
    using assms(1) by (auto simp: handler_ok_def)
  have m: "map_of (AList.update sid sess (h_sessions h)) = (map_of (h_sessions h))(sid \<mapsto> sess)"
    by (rule AList.update_conv')
  have "handler_ok h'"
    unfolding handler_ok_def
  proof (intro conjI allI impI)
    show "length (h_owner h') = length (h_tunnels h')" using ok(1) by (simp add: h')
    show "\<forall>t \<in> set (h_tunnels h'). session_tunnel t" using ok(2) by (simp add: h' session_tunnel_new)
    show "distinct (map fst (h_sessions h'))" using ok(3) by (simp add: h' AList.distinct_update)
  next
    fix k s assume "map_of (h_sessions h') k = Some s"
    then have "(k = sid \<and> s = sess) \<or> (k \<noteq> sid \<and> map_of (h_sessions h) k = Some s)"
      by (auto simp: h' m split: if_splits)
    then show "ss_tun s < length (h_tunnels h')" "fst (h_owner h' ! ss_tun s) = k"
      "\<not> dead (h_tunnels h' ! ss_tun s)"
      using s1 [of k s] ok(1) by (auto simp: h' sess nth_append newTunnel_def)
  next
    fix i assume i: "i < length (h_tunnels h')" and d: "\<not> dead (h_tunnels h' ! i)"
    show "map_option ss_tun (map_of (h_sessions h') (fst (h_owner h' ! i))) = Some i"
    proof (cases "i = ?n")
      case True
      then show ?thesis using ok(1) by (simp add: h' m sess nth_append)
    next
      case False
      with i have lt: "i < ?n" by (simp add: h')
      with d s2 [OF lt] have o: "map_option ss_tun (map_of (h_sessions h) (fst (h_owner h ! i))) = Some i"
        by (simp add: h' nth_append)
      then have "fst (h_owner h ! i) \<noteq> sid" using assms(2) by auto
      with o lt ok(1) show ?thesis by (simp add: h' m nth_append)
    qed
  qed
  then show ?thesis by (simp add: sess h')
qed

lemma handler_ok_replay [simp]: "handler_ok (h\<lparr>h_replay := rf\<rparr>) = handler_ok h"
  by (simp add: handler_ok_def)

text \<open>A request is refused, opens a session, or joins one.\<close>

lemma ServeHTTP_cases:
  assumes "ServeHTTP P alloc now rnd up r h = (res, h')"
  obtains (refused) rf where "res = Decoy" "h' = h\<lparr>h_replay := rf\<rparr>"
  | (opens) ek sid ci rf cidr l p sess h2 where
      "Handler_checkAuth (h_cfg h) (h_replay h) now r = (Some (ek, sid, ci), rf)"
      "req_path r = hc_Path (h_cfg h)" "map_of (h_sessions h) sid = None"
      "alloc (h_pool h) = Some (cidr, l, p)" "new_session sid cidr l p (h\<lparr>h_replay := rf\<rparr>) = (sess, h2)"
      "join_channel P rnd up ek sid ci sess h2 = (res, h')"
  | (joins) ek sid ci rf sess where
      "Handler_checkAuth (h_cfg h) (h_replay h) now r = (Some (ek, sid, ci), rf)"
      "req_path r = hc_Path (h_cfg h)" "map_of (h_sessions h) sid = Some sess"
      "int (channelCount (h_tunnels h ! ss_tun sess)) < maxChannelsPerSession"
      "join_channel P rnd up ek sid ci sess (h\<lparr>h_replay := rf\<rparr>) = (res, h')"
proof -
  obtain auth rf where a: "Handler_checkAuth (h_cfg h) (h_replay h) now r = (auth, rf)" by fastforce
  note r = assms [unfolded ServeHTTP_def a Let_def split]
  show thesis
  proof (cases auth)
    case None
    with r show ?thesis by (intro refused) auto
  next
    case (Some x)
    obtain ek sid ci where x: "auth = Some (ek, sid, ci)" using Some by (cases x) auto
    show ?thesis
    proof (cases "req_path r = hc_Path (h_cfg h)")
      case False
      with r x show ?thesis by (intro refused) auto
    next
      case path: True
      show ?thesis
      proof (cases "map_of (h_sessions h) sid")
        case None
        show ?thesis
        proof (cases "alloc (h_pool h)")
          case al: None
          with r x path None show ?thesis by (intro refused) auto
        next
          case (Some y)
          then obtain cidr l p where al: "alloc (h_pool h) = Some (cidr, l, p)" by (cases y) auto
          obtain sess h2 where n: "new_session sid cidr l p (h\<lparr>h_replay := rf\<rparr>) = (sess, h2)" by fastforce
          from r x path None al n have "join_channel P rnd up ek sid ci sess h2 = (res, h')" by simp
          with opens [OF a [unfolded x] path None al n] show ?thesis .
        qed
      next
        case (Some sess)
        show ?thesis
        proof (cases "int (channelCount (h_tunnels h ! ss_tun sess)) < maxChannelsPerSession")
          case True
          with r x path Some have "join_channel P rnd up ek sid ci sess (h\<lparr>h_replay := rf\<rparr>) = (res, h')"
            by simp
          with joins [OF a [unfolded x] path Some True] show ?thesis .
        next
          case False
          with r x path Some show ?thesis by (intro refused) auto
        qed
      qed
    qed
  qed
qed

lemma checkAuth_chan:
  "Handler_checkAuth cfg rf now r = (Some (ek, sid, ci), rf') \<Longrightarrow> 0 \<le> ci \<and> ci < maxChannelsPerSession"
  by (auto simp: checkAuth_Some elim: auth_claim_Some)

lemma ServeHTTP_ok:
  assumes "handler_ok h" "ServeHTTP P alloc now rnd up r h = (res, h')"
  shows "handler_ok h'"
  using assms(2)
proof (cases rule: ServeHTTP_cases)
  case (refused rf)
  with assms(1) show ?thesis by simp
next
  case (opens ek sid ci rf cidr l p sess h2)
  have "handler_ok (h\<lparr>h_replay := rf\<rparr>)" "map_of (h_sessions (h\<lparr>h_replay := rf\<rparr>)) sid = None"
    using assms(1) opens(3) by simp_all
  from new_session_ok [OF this opens(5)] checkAuth_chan [OF opens(1)] opens(6) show ?thesis
    by (auto intro: join_channel_ok)
next
  case (joins ek sid ci rf sess)
  have ok: "handler_ok (h\<lparr>h_replay := rf\<rparr>)" using assms(1) by simp
  have "ss_tun sess < length (h_tunnels (h\<lparr>h_replay := rf\<rparr>))"
    using assms(1) joins(3) by (auto simp: handler_ok_def)
  from join_channel_ok [OF ok this _ _ joins(5)] checkAuth_chan [OF joins(1)] show ?thesis by simp
qed

text \<open>An operation on a tunnel: onEmpty runs exactly when the tunnel dies in it.\<close>

lemma emptied_iff_dies:
  assumes "session_tunnel t" "tunnel_move f"
  shows "emptied (f t) > emptied t \<longleftrightarrow> dead (f t) \<and> \<not> dead t" and "session_tunnel (f t)"
    and "dead t \<Longrightarrow> dead (f t)"
proof -
  have m: "moved t (f t)" using assms by (simp add: tunnel_move_def session_tunnel_def)
  then show "session_tunnel (f t)" "dead t \<Longrightarrow> dead (f t)"
    using assms(1) unfolding session_tunnel_def moved_def by (metis subset_trans)+
  then show "emptied (f t) > emptied t \<longleftrightarrow> dead (f t) \<and> \<not> dead t"
    using m assms(1) by (auto simp: session_tunnel_def moved_def tunnel_ok_def once_inv_def)
qed

lemma on_tunnel_ok:
  assumes "handler_ok h" "tid < length (h_tunnels h)" "tunnel_move f"
  shows "handler_ok (on_tunnel release tid f h)"
proof -
  let ?t = "h_tunnels h ! tid"
  have st: "session_tunnel ?t" using assms(1,2) by (auto simp: handler_ok_def)
  note e = emptied_iff_dies [OF st assms(3)]
  show ?thesis
  proof (cases "emptied (f ?t) > emptied ?t")
    case False
    then have "dead (f ?t) = dead ?t" using e by blast
    with False handler_ok_update(2) [OF assms(1,2) e(2)] show ?thesis by (simp add: on_tunnel_def Let_def)
  next
    case True
    then have d: "dead (f ?t)" "\<not> dead ?t" using e by blast+
    obtain sid l where o: "h_owner h ! tid = (sid, l)" by fastforce
    have ok: "length (h_owner h) = length (h_tunnels h)" "\<forall>t \<in> set (h_tunnels h). session_tunnel t"
      "distinct (map fst (h_sessions h))"
      and s1: "\<And>k s. map_of (h_sessions h) k = Some s \<Longrightarrow> ss_tun s < length (h_tunnels h)
        \<and> fst (h_owner h ! ss_tun s) = k \<and> \<not> dead (h_tunnels h ! ss_tun s)"
      and s2: "\<And>i. i < length (h_tunnels h) \<Longrightarrow> \<not> dead (h_tunnels h ! i) \<Longrightarrow>
        map_option ss_tun (map_of (h_sessions h) (fst (h_owner h ! i))) = Some i"
      using assms(1) by (auto simp: handler_ok_def)
    let ?h = "on_tunnel release tid f h"
    have h: "?h = h\<lparr>h_tunnels := (h_tunnels h)[tid := f ?t], h_sessions := AList.delete sid (h_sessions h),
        h_pool := release l (h_pool h)\<rparr>"
      using True by (simp add: on_tunnel_def session_onEmpty_def o Let_def)
    have m: "map_of (AList.delete sid (h_sessions h)) = (map_of (h_sessions h))(sid := None)"
      by (rule AList.delete_conv')
    have mine: "map_option ss_tun (map_of (h_sessions h) sid) = Some tid"
      using s2 [OF assms(2) d(2)] o by simp
    show ?thesis
      unfolding handler_ok_def
    proof (intro conjI allI impI)
      show "length (h_owner ?h) = length (h_tunnels ?h)" using ok(1) by (simp add: h)
      show "\<forall>t \<in> set (h_tunnels ?h). session_tunnel t"
        using ok(2) e(2) set_update_subset_insert [of "h_tunnels h" tid "f ?t"] by (auto simp: h)
      show "distinct (map fst (h_sessions ?h))" using ok(3) by (simp add: h AList.distinct_delete)
    next
      fix k s assume "map_of (h_sessions ?h) k = Some s"
      then have k: "k \<noteq> sid" "map_of (h_sessions h) k = Some s" by (auto simp: h m split: if_splits)
      then have "ss_tun s \<noteq> tid" using s1 [OF k(2)] o by auto
      with s1 [OF k(2)] show "ss_tun s < length (h_tunnels ?h)" "fst (h_owner ?h ! ss_tun s) = k"
        "\<not> dead (h_tunnels ?h ! ss_tun s)" by (simp_all add: h)
    next
      fix i assume i: "i < length (h_tunnels ?h)" and nd: "\<not> dead (h_tunnels ?h ! i)"
      then have "i \<noteq> tid" using d(1) assms(2) by (auto simp: h)
      with i nd s2 [of i] have oi: "map_option ss_tun (map_of (h_sessions h) (fst (h_owner h ! i))) = Some i"
        by (simp add: h)
      with mine \<open>i \<noteq> tid\<close> have "fst (h_owner h ! i) \<noteq> sid" by auto
      with oi show "map_option ss_tun (map_of (h_sessions ?h) (fst (h_owner ?h ! i))) = Some i"
        by (simp add: h m)
    qed
  qed
qed

section \<open>Runs of the handler\<close>

text \<open>
  Requests, and operations on the tunnels by the other goroutines (lost channels, writes,
  keepalives, reads, closes: \<open>tunnel_moves\<close>), in any order.
\<close>

inductive handler_run ::
  "prims \<Rightarrow> ('p \<Rightarrow> (string \<times> 'l \<times> 'p) option) \<Rightarrow> ('l \<Rightarrow> 'p \<Rightarrow> 'p) \<Rightarrow>
   ('p, 'l, 'u) handler \<Rightarrow> ('p, 'l, 'u) handler \<Rightarrow> bool"
  for P :: prims and alloc :: "'p \<Rightarrow> (string \<times> 'l \<times> 'p) option" and release :: "'l \<Rightarrow> 'p \<Rightarrow> 'p" where
  start: "handler_run P alloc release h h"
| request: "handler_run P alloc release h0 h \<Longrightarrow> ServeHTTP P alloc now rnd up r h = (res, h') \<Longrightarrow>
    handler_run P alloc release h0 h'"
| tunnel: "handler_run P alloc release h0 h \<Longrightarrow> tid < length (h_tunnels h) \<Longrightarrow> tunnel_move f \<Longrightarrow>
    handler_run P alloc release h0 (on_tunnel release tid f h)"

lemma handler_run_ok: "handler_run P alloc release h0 h \<Longrightarrow> handler_ok h0 \<Longrightarrow> handler_ok h"
  by (induction rule: handler_run.induct) (auto intro: ServeHTTP_ok on_tunnel_ok)

lemma NewHandler_Inr:
  assumes "NewHandler url pool cfg = Inr h"
  shows "h_sessions h = []" "h_tunnels h = []" "h_owner h = []" "h_pool h = pool"
    "hc_PSK (h_cfg h) = hc_PSK cfg" "hc_Static (h_cfg h) = hc_Static cfg" "hc_Path (h_cfg h) = hc_Path cfg"
    "length (hc_PSK cfg) = KeySize"
    "hc_Replay cfg = None \<Longrightarrow> h_replay h = NewReplayFilter (240 * 1000000000)"
  using assms by (auto simp: NewHandler_def Let_def authWindow_def split: if_splits)

lemma NewHandler_ok: "NewHandler url pool cfg = Inr h \<Longrightarrow> handler_ok h"
  by (simp add: handler_ok_def NewHandler_Inr)

section \<open>Replays and the window\<close>

text \<open>A sequence of authentications at given times.\<close>

fun auth_run :: "handler_config \<Rightarrow> replay_filter \<Rightarrow> (int \<times> request) list \<Rightarrow> replay_filter" where
  "auth_run cfg rf [] = rf"
| "auth_run cfg rf ((now, r) # rs) = auth_run cfg (snd (Handler_checkAuth cfg rf now r)) rs"

lemma checkAuth_filter:
  "snd (Handler_checkAuth cfg rf now r) =
     (case auth_claim cfg now r of None \<Rightarrow> rf
      | Some (token, _) \<Rightarrow> snd (ReplayFilter_Check rf now token))"
  by (auto simp: Handler_checkAuth_def Let_def split: option.splits prod.splits)

lemma auth_run_checks:
  "\<exists>cs. auth_run cfg rf rs = snd (check_run rf cs) \<and> fst ` set cs \<subseteq> fst ` set rs"
proof (induction rs arbitrary: rf)
  case Nil
  show ?case by (rule exI [of _ "[]"]) simp
next
  case (Cons x rs)
  obtain now r where x: "x = (now, r)" by (cases x)
  obtain cs where cs: "auth_run cfg (snd (Handler_checkAuth cfg rf now r)) rs
      = snd (check_run (snd (Handler_checkAuth cfg rf now r)) cs)" "fst ` set cs \<subseteq> fst ` set rs"
    using Cons.IH by blast
  show ?case
  proof (cases "auth_claim cfg now r")
    case None
    with cs show ?thesis by (intro exI [of _ cs]) (auto simp: x checkAuth_filter)
  next
    case (Some y)
    then obtain token z where "auth_claim cfg now r = Some (token, z)" by (cases y) auto
    with cs show ?thesis by (intro exI [of _ "(now, token) # cs"]) (auto simp: x checkAuth_filter)
  qed
qed

text \<open>A request accepted twice: the second time is a full lifetime later, or more.\<close>

lemma auth_twice_apart:
  assumes "Handler_checkAuth cfg rf t0 r = (Some x, rf0)"
    and "\<forall>(t, q) \<in> set rs. t \<le> t1" "Handler_checkAuth cfg (auth_run cfg rf0 rs) t1 r = (Some y, rf1)"
  shows "t1 \<ge> t0 + ttl rf"
proof (rule ccontr)
  assume lt: "\<not> t1 \<ge> t0 + ttl rf"
  obtain ek sid ci token where x: "x = (ek, sid, ci)" and c0: "auth_claim cfg t0 r = Some (token, ek, sid, ci)"
    and k0: "ReplayFilter_Check rf t0 token = (True, rf0)"
    using assms(1) by (cases x) (auto simp: checkAuth_Some)
  obtain ek' sid' ci' token' where c1: "auth_claim cfg t1 r = Some (token', ek', sid', ci')"
    and k1: "ReplayFilter_Check (auth_run cfg rf0 rs) t1 token' = (True, rf1)"
    using assms(3) by (cases y) (auto simp: checkAuth_Some)
  have "token' = token"
    using c0 c1 unfolding auth_claim_def
    by (auto simp: bind_eq_Some_conv split: option.splits if_splits)
  moreover obtain cs where cs: "auth_run cfg rf0 rs = snd (check_run rf0 cs)" "fst ` set cs \<subseteq> fst ` set rs"
    using auth_run_checks by blast
  moreover have "\<forall>(t, q) \<in> set cs. t < t0 + ttl rf" using cs(2) assms(2) lt by fastforce
  ultimately show False
    using replay.no_replay [OF k0, of cs t1] k1 lt by (simp add: check_run_fold)
qed

lemma claim_window:
  assumes "auth_claim cfg t0 r = Some x" "auth_claim cfg t1 r = Some y"
  shows "t1 \<le> t0 + 240"
proof -
  from assms have "\<exists>ts. ts \<le> t0 + authWindow \<and> t1 - authWindow \<le> ts"
    unfolding auth_claim_def by (auto simp: bind_eq_Some_conv split: option.splits if_splits)
  then show ?thesis by (auto simp: authWindow_def)
qed

section \<open>Properties\<close>

text \<open>C2. Whoever cannot authenticate sees the decoy and changes nothing: a request whose cookies
  do not pass all checks before the replay filter is answered by the decoy and leaves the
  handler exactly as it was. A request answered otherwise carried a fresh token over its
  ephemeral key, a timestamp within the window, the server's key and a session id of 16
  bytes, with a channel index below the cap, on the secret path.\<close>

theorem only_authenticated_requests_are_served:
  assumes "ServeHTTP P alloc now rnd up r h = (res, h')"
  shows "(auth_claim (h_cfg h) now r = None \<longrightarrow> res = Decoy \<and> h' = h)
    \<and> (res \<noteq> Decoy \<longrightarrow> (\<exists>token ek sid ci ts. auth_claim (h_cfg h) now r = Some (token, ek, sid, ci)
         \<and> token = authToken (hc_PSK (h_cfg h)) ek ts (Public (hc_Static (h_cfg h))) sid
         \<and> now - 120 \<le> ts \<and> ts \<le> now + 120 \<and> length ek = 32 \<and> length sid = 16 \<and> 0 \<le> ci \<and> ci < 16
         \<and> req_path r = hc_Path (h_cfg h)
         \<and> ReplayFilter_Check (h_replay h) now token = (True, h_replay h')))"
proof (intro conjI impI)
  assume "auth_claim (h_cfg h) now r = None"
  then have "ServeHTTP P alloc now rnd up r h = (Decoy, h\<lparr>h_replay := h_replay h\<rparr>)"
    by (intro ServeHTTP_unauthenticated checkAuth_claim_None)
  with assms show "res = Decoy" "h' = h" by simp_all
next
  assume "res \<noteq> Decoy"
  with assms obtain ek sid ci rf where
    a: "Handler_checkAuth (h_cfg h) (h_replay h) now r = (Some (ek, sid, ci), rf)"
    and path: "req_path r = hc_Path (h_cfg h)"
    by (auto elim: ServeHTTP_cases)
  have "h_replay h' = rf" using ServeHTTP_replay [OF assms] a by simp
  with a obtain token where c: "auth_claim (h_cfg h) now r = Some (token, ek, sid, ci)"
    and k: "ReplayFilter_Check (h_replay h) now token = (True, h_replay h')"
    by (auto simp: checkAuth_Some)
  from c show "\<exists>token ek sid ci ts. auth_claim (h_cfg h) now r = Some (token, ek, sid, ci)
         \<and> token = authToken (hc_PSK (h_cfg h)) ek ts (Public (hc_Static (h_cfg h))) sid
         \<and> now - 120 \<le> ts \<and> ts \<le> now + 120 \<and> length ek = 32 \<and> length sid = 16 \<and> 0 \<le> ci \<and> ci < 16
         \<and> req_path r = hc_Path (h_cfg h)
         \<and> ReplayFilter_Check (h_replay h) now token = (True, h_replay h')"
  proof (rule auth_claim_Some)
    fix ts assume "now - authWindow \<le> ts" "ts \<le> now + authWindow" "ci < maxChannelsPerSession"
      and "token = authToken (hc_PSK (h_cfg h)) ek ts (Public (hc_Static (h_cfg h))) sid"
      "length ek = 32" "length sid = 16" "0 \<le> ci"
    with c k path show ?thesis
      by (intro exI [of _ token] exI [of _ ek] exI [of _ sid] exI [of _ ci] exI [of _ ts])
        (simp add: authWindow_def maxChannelsPerSession_def)
  qed
qed

text \<open>C3. However requests, losses of channels, writes, keepalives, reads and closes follow each
  other, the sessions of the handler are exactly its live tunnels, each under the session id
  its onEmpty closure removes, and no tunnel ever has more than sixteen channels.\<close>

theorem sessions_are_live_tunnels:
  assumes "NewHandler url pool cfg = Inr h0" and "handler_run P alloc release h0 h"
  shows "(\<forall>sid s. map_of (h_sessions h) sid = Some s \<longrightarrow> ss_tun s < length (h_tunnels h)
           \<and> fst (h_owner h ! ss_tun s) = sid \<and> \<not> dead (h_tunnels h ! ss_tun s))
    \<and> (\<forall>i < length (h_tunnels h). channelCount (h_tunnels h ! i) \<le> 16
         \<and> (\<not> dead (h_tunnels h ! i) \<longrightarrow> map_option ss_tun (map_of (h_sessions h) (fst (h_owner h ! i))) = Some i))"
proof -
  have ok: "handler_ok h" using handler_run_ok [OF assms(2)] NewHandler_ok [OF assms(1)] by blast
  have "channelCount t \<le> 16" if "t \<in> set (h_tunnels h)" for t
  proof -
    have t: "distinct (map fst (channels t))" "fst ` set (channels t) \<subseteq> {0..<16}"
      using ok that by (auto simp: handler_ok_def session_tunnel_def tunnel_ok_def tunnel_inv_def
          maxChannelsPerSession_def)
    then have "card (fst ` set (channels t)) \<le> card {0..<16 :: int}" by (intro card_mono) auto
    moreover have "length (channels t) = card (fst ` set (channels t))"
      using distinct_card [OF t(1)] by simp
    ultimately show ?thesis by (simp add: channelCount_def)
  qed
  with ok show ?thesis by (auto simp: handler_ok_def)
qed

text \<open>A captured request is good for at most one more use: with the handler's own filter, a
  request accepted at one time is refused at every later time, whatever else was checked in
  between, except at most at the single second exactly 240 seconds later.\<close>

theorem replay_only_at_240_seconds:
  assumes "NewHandler url pool cfg = Inr h0" "hc_Replay cfg = None" "snd (Handler_checkAuth cfg (auth_run cfg (h_replay h0) rs0) t0 r) = rf0"
    and "fst (Handler_checkAuth cfg (auth_run cfg (h_replay h0) rs0) t0 r) \<noteq> None"
    and "\<forall>(t, q) \<in> set rs. t \<le> t1"
    and "fst (Handler_checkAuth cfg (auth_run cfg rf0 rs) t1 r) \<noteq> None"
  shows "t1 = t0 + 240"
proof -
  let ?f = "auth_run cfg (h_replay h0) rs0"
  obtain x where x: "Handler_checkAuth cfg ?f t0 r = (Some x, rf0)"
    using assms(3,4) by (cases "Handler_checkAuth cfg ?f t0 r") auto
  obtain y rf1 where y: "Handler_checkAuth cfg (auth_run cfg rf0 rs) t1 r = (Some y, rf1)"
    using assms(6) by (cases "Handler_checkAuth cfg (auth_run cfg rf0 rs) t1 r") auto
  have ttl: "ttl (snd (check_run g cs)) = ttl g" for g cs by (induction cs arbitrary: g) auto
  obtain cs where "?f = snd (check_run (h_replay h0) cs)" using auth_run_checks by blast
  then have "ttl ?f = 240"
    by (simp add: ttl NewHandler_Inr(9) [OF assms(1,2)] NewReplayFilter_def)
  with auth_twice_apart [OF x assms(5) y] have "t1 \<ge> t0 + 240" by simp
  moreover obtain c0 c1 where "auth_claim cfg t0 r = Some c0" "auth_claim cfg t1 r = Some c1"
    using x y by (auto simp: Handler_checkAuth_def split: option.splits)
  then have "t1 \<le> t0 + 240" by (rule claim_window)
  ultimately show ?thesis by simp
qed

text \<open>C16. And at that second it is accepted: the window admits a timestamp at both its ends, 240
  seconds apart, while the filter forgets a token exactly 240 seconds after it saw it. A
  request used 120 seconds before its timestamp is accepted again 120 seconds after it.\<close>

theorem replay_accepted_at_window_edge:
  assumes "NewHandler url pool cfg = Inr h0" "hc_Replay cfg = None"
    and "auth_claim cfg t0 r = Some (token, x)" "auth_claim cfg (t0 + 240) r \<noteq> None"
    and "Handler_checkAuth cfg (h_replay h0) t0 r = (Some y, rf0)"
  shows "fst (Handler_checkAuth cfg rf0 (t0 + 240) r) = Some y"
proof -
  obtain token' x' where c1: "auth_claim cfg (t0 + 240) r = Some (token', x')" using assms(4) by auto
  have same: "token' = token \<and> x' = x"
    using c1 assms(3) unfolding auth_claim_def
    by (auto simp: bind_eq_Some_conv split: option.splits if_splits)
  obtain ek sid ci where x: "x = (ek, sid, ci)" by (cases x)
  from assms(5) assms(3) have y: "y = x" and k: "ReplayFilter_Check (h_replay h0) t0 token = (True, rf0)"
    by (auto simp: x Handler_checkAuth_def Let_def split: prod.splits if_splits)
  have f: "h_replay h0 = NewReplayFilter (240 * 1000000000)" by (rule NewHandler_Inr(9) [OF assms(1,2)])
  have "ttl (h_replay h0) = 240" by (simp add: f NewReplayFilter_def)
  with Check_seen [of "h_replay h0" t0 token] k have "seen rf0 token = Some (t0 + 240)" by simp
  then have "fst (ReplayFilter_Check rf0 (t0 + 240) token)"
    using Check_rejects_iff [of rf0 "t0 + 240" token] k by auto
  then obtain rf1 where "ReplayFilter_Check rf0 (t0 + 240) token = (True, rf1)"
    by (cases "ReplayFilter_Check rf0 (t0 + 240) token") auto
  with c1 same x y show ?thesis by (simp add: Handler_checkAuth_def)
qed

end
