(* ===== verification/Go_Net.thy ===== *)
theory Go_Net
  imports Go_Text
begin

text \<open>
  The address functions of the Go standard library that the code calls: net.ParseIP,
  net.ParseCIDR, IP.To4, IP.String, Mask.Size, net.JoinHostPort and, below them, net/netip's
  parsers for IPv4 and IPv6 text. Errors are \<^term>\<open>None\<close>: the code only asks whether there was
  one.
\<close>

section \<open>IPv4 text\<close>

text \<open>
  parseIPv4Fields: the current octet's value and digit count, the octets so far, and
  whether the previous character was a dot (or there was none).
\<close>

fun v4_fields :: "nat \<Rightarrow> nat \<Rightarrow> bytes \<Rightarrow> bool \<Rightarrow> string \<Rightarrow> bytes option" where
  "v4_fields val digits acc dot [] = (if length acc < 3 then None else Some (acc @ [of_nat val]))"
| "v4_fields val digits acc dot (c # cs) =
     (case digit_val c of
        Some d \<Rightarrow>
          if digits = 1 \<and> val = 0 then None
          else if val * 10 + d > 255 then None
          else v4_fields (val * 10 + d) (digits + 1) acc False cs
      | None \<Rightarrow>
          if c = CHR ''.'' then
            (if dot \<or> cs = [] then None
             else if length acc = 3 then None
             else v4_fields 0 0 (acc @ [of_nat val]) True cs)
          else None)"

definition parse_v4 :: "string \<Rightarrow> bytes option" where
  "parse_v4 s = v4_fields 0 0 [] True s"

text \<open>The dotted form.\<close>

definition dotted :: "bytes \<Rightarrow> string" where
  "dotted b = dec_nat (unat (b ! 0)) @ ''.'' @ dec_nat (unat (b ! 1)) @ ''.''
     @ dec_nat (unat (b ! 2)) @ ''.'' @ dec_nat (unat (b ! 3))"

text \<open>Reading one octet printed in decimal.\<close>

lemma digit_val_dot [simp]: "digit_val CHR ''.'' = None"
  by (simp add: digit_val_def)

lemma v4_digits:
  assumes "v < 10" "w < 26" "w = 25 \<Longrightarrow> v < 6"
  shows "v4_fields w k acc dot (digit_char v # cs) =
    (if k = 1 \<and> w = 0 then None else v4_fields (w * 10 + v) (k + 1) acc False cs)"
  using assms by auto

lemma v4_fields_octet:
  assumes "n < 256"
  shows "\<exists>k. 0 < k \<and> v4_fields 0 0 acc True (dec_nat n @ cs) = v4_fields n k acc False cs"
proof -
  consider "n < 10" | "10 \<le> n" "n < 100" | "100 \<le> n" by linarith
  then show ?thesis
  proof cases
    case 1
    then have "dec_nat n = [digit_char n]" by (simp add: dec_nat.simps)
    with 1 have "v4_fields 0 0 acc True (dec_nat n @ cs) = v4_fields n 1 acc False cs"
      by (simp add: v4_digits)
    then show ?thesis by (intro exI [of _ 1]) simp
  next
    case 2
    then have d: "dec_nat n = [digit_char (n div 10), digit_char (n mod 10)]"
      by (simp add: dec_nat.simps [of n] dec_nat.simps [of "n div 10"] div_less_iff_less_mult)
    have lt: "n div 10 < 10" "0 < n div 10" using 2 by (simp_all add: div_less_iff_less_mult div_greater_zero_iff)
    have "v4_fields 0 0 acc True (dec_nat n @ cs) = v4_fields n 2 acc False cs"
      using lt assms by (simp add: d v4_digits numeral_2_eq_2)
    then show ?thesis by (intro exI [of _ 2]) simp
  next
    case 3
    have "n div 100 < 10" "0 < n div 100" "n div 10 div 10 = n div 100" using 3 assms
      by (simp_all add: div_less_iff_less_mult div_greater_zero_iff div_mult2_eq [symmetric])
    note lt = this
    have big: "\<not> n < 10" "\<not> n div 10 < 10" using 3 by (simp_all add: div_less_iff_less_mult)
    have d: "dec_nat n = [digit_char (n div 100), digit_char (n div 10 mod 10), digit_char (n mod 10)]"
      using big lt by (simp add: dec_nat.simps [of n] dec_nat.simps [of "n div 10"]
          dec_nat.simps [of "n div 100"])
    have m: "n div 100 * 10 + n div 10 mod 10 = n div 10"
      using div_mult_mod_eq [of "n div 10" 10] lt(3) by simp
    have "n div 10 < 26" "n div 10 = 25 \<Longrightarrow> n mod 10 < 6" using assms by presburger+
    then have "v4_fields 0 0 acc True (dec_nat n @ cs) = v4_fields n 3 acc False cs"
      using lt m assms by (simp add: d v4_digits numeral_3_eq_3)
    then show ?thesis by (intro exI [of _ 3]) simp
  qed
qed

lemma v4_fields_next:
  assumes "length acc < 3" "cs \<noteq> []"
  shows "v4_fields 0 0 acc True (dec_nat (unat w) @ CHR ''.'' # cs) = v4_fields 0 0 (acc @ [w]) True cs"
proof -
  obtain k where "v4_fields 0 0 acc True (dec_nat (unat w) @ CHR ''.'' # cs)
      = v4_fields (unat w) k acc False (CHR ''.'' # cs)"
    using v4_fields_octet [of "unat w"] by fastforce
  with assms show ?thesis by simp
qed

lemma v4_fields_end:
  assumes "length acc = 3"
  shows "v4_fields 0 0 acc True (dec_nat (unat w)) = Some (acc @ [w])"
proof -
  obtain k where "v4_fields 0 0 acc True (dec_nat (unat w) @ []) = v4_fields (unat w) k acc False []"
    using v4_fields_octet [of "unat w" acc "[]"] by fastforce
  with assms show ?thesis by simp
qed

lemma parse_v4_dotted:
  assumes "length b = 4" shows "parse_v4 (dotted b) = Some b"
proof -
  obtain a c d e where b: "b = [a, c, d, e]"
    using assms by (auto simp: numeral_eq_Suc length_Suc_conv)
  show ?thesis
    by (simp add: parse_v4_def dotted_def b v4_fields_next v4_fields_end)
qed

section \<open>IPv6 text\<close>

definition hex_val :: "char \<Rightarrow> nat option" where
  "hex_val c = (let n = (of_char c :: nat) in
     if 48 \<le> n \<and> n \<le> 57 then Some (n - 48)
     else if 97 \<le> n \<and> n \<le> 102 then Some (n - 87)
     else if 65 \<le> n \<and> n \<le> 70 then Some (n - 55)
     else None)"

definition hex_num :: "string \<Rightarrow> nat" where
  "hex_num s = foldl (\<lambda>a c. 16 * a + the (hex_val c)) 0 s"

text \<open>
  The loop of parseIPv6: at most eight rounds, each reading a group; the bytes so far, the
  place of the ellipsis, the rest of the text.
\<close>

fun v6_groups :: "nat \<Rightarrow> bytes \<Rightarrow> nat option \<Rightarrow> string \<Rightarrow> (bytes \<times> nat option \<times> string) option" where
  "v6_groups 0 acc el s = Some (acc, el, s)"
| "v6_groups (Suc k) acc el s =
     (let run = takeWhile (\<lambda>c. hex_val c \<noteq> None) s; rest = drop (length run) s in
      if run = [] \<or> length run > 4 then None
      else if rest \<noteq> [] \<and> hd rest = CHR ''.'' then
        (if el = None \<and> length acc \<noteq> 12 then None
         else if length acc + 4 > 16 then None
         else case parse_v4 s of None \<Rightarrow> None | Some f \<Rightarrow> Some (acc @ f, el, []))
      else
        let acc' = acc @ [of_nat (hex_num run div 256), of_nat (hex_num run)] in
        case rest of
          [] \<Rightarrow> Some (acc', el, [])
        | c # s1 \<Rightarrow>
            if c \<noteq> CHR '':'' \<or> s1 = [] then None
            else if hd s1 = CHR '':'' then
              (if el \<noteq> None then None
               else if tl s1 = [] then Some (acc', Some (length acc'), [])
               else v6_groups k acc' (Some (length acc')) (tl s1))
            else v6_groups k acc' el s1)"

definition v6_finish :: "bytes \<times> nat option \<times> string \<Rightarrow> bytes option" where
  "v6_finish = (\<lambda>(acc, el, s).
     if s \<noteq> [] then None
     else if length acc < 16 then
       (case el of None \<Rightarrow> None
        | Some e \<Rightarrow> Some (take e acc @ replicate (16 - length acc) 0 @ drop e acc))
     else if el \<noteq> None then None else Some acc)"

text \<open>Result: the sixteen bytes and the zone.\<close>

definition parse_v6 :: "string \<Rightarrow> (bytes \<times> string) option" where
  "parse_v6 input =
     (let (s, zone, found) = cut CHR ''%'' input in
      if found \<and> zone = [] then None
      else
        let r = (if take 2 s = ''::'' then
                   (if drop 2 s = [] then Some (replicate 16 0)
                    else case v6_groups 8 [] (Some 0) (drop 2 s) of None \<Rightarrow> None | Some g \<Rightarrow> v6_finish g)
                 else case v6_groups 8 [] None s of None \<Rightarrow> None | Some g \<Rightarrow> v6_finish g)
        in map_option (\<lambda>b. (b, zone)) r)"

section \<open>Addresses\<close>

datatype netip = Addr4 bytes | Addr6 bytes string

fun zone_of :: "netip \<Rightarrow> string" where
  "zone_of (Addr4 b) = []"
| "zone_of (Addr6 b z) = z"

fun bit_len :: "netip \<Rightarrow> nat" where
  "bit_len (Addr4 b) = 32"
| "bit_len (Addr6 b z) = 128"

definition v4_in_v6 :: bytes where
  "v4_in_v6 = replicate 10 0 @ [0xff, 0xff]"

fun as16 :: "netip \<Rightarrow> bytes" where
  "as16 (Addr4 b) = v4_in_v6 @ b"
| "as16 (Addr6 b z) = b"

text \<open>netip.ParseAddr: the first of the three characters decides.\<close>

definition ParseAddr :: "string \<Rightarrow> netip option" where
  "ParseAddr s =
     (case dropWhile (\<lambda>c. c \<noteq> CHR ''.'' \<and> c \<noteq> CHR '':'' \<and> c \<noteq> CHR ''%'') s of
        [] \<Rightarrow> None
      | c # _ \<Rightarrow>
          if c = CHR ''.'' then map_option Addr4 (parse_v4 s)
          else if c = CHR '':'' then map_option (\<lambda>(b, z). Addr6 b z) (parse_v6 s)
          else None)"

text \<open>net.ParseIP gives the 16-byte form.\<close>

definition ParseIP :: "string \<Rightarrow> bytes option" where
  "ParseIP s =
     (case ParseAddr s of None \<Rightarrow> None | Some a \<Rightarrow> if zone_of a \<noteq> [] then None else Some (as16 a))"

definition To4 :: "bytes \<Rightarrow> bytes option" where
  "To4 ip =
     (if length ip = 4 then Some ip
      else if length ip = 16 \<and> take 12 ip = v4_in_v6 then Some (drop 12 ip)
      else None)"

text \<open>net.ParseCIDR: address, network address, prefix length and address length of the mask.\<close>

definition dtoi_big :: nat where "dtoi_big = 0xFFFFFF"

fun dtoi :: "nat \<Rightarrow> nat \<Rightarrow> string \<Rightarrow> nat \<times> nat \<times> bool" where
  "dtoi n i [] = (if i = 0 then (0, 0, False) else (n, i, True))"
| "dtoi n i (c # cs) =
     (case digit_val c of
        None \<Rightarrow> if i = 0 then (0, 0, False) else (n, i, True)
      | Some d \<Rightarrow> if n * 10 + d \<ge> dtoi_big then (dtoi_big, i, False) else dtoi (n * 10 + d) (i + 1) cs)"

definition mask_bytes :: "nat \<Rightarrow> bytes \<Rightarrow> bytes" where
  "mask_bytes ones b =
     map (\<lambda>(i, w). if 8 * i + 8 \<le> ones then w
                   else if ones \<le> 8 * i then 0
                   else w AND NOT (mask (8 * i + 8 - ones))) (enumerate 0 b)"

record ipnet =
  net_ip :: bytes
  net_ones :: nat
  net_bits :: nat

definition ParseCIDR :: "string \<Rightarrow> (bytes \<times> ipnet) option" where
  "ParseCIDR s =
     (let (addr, m, found) = cut CHR ''/'' s in
      if \<not> found then None
      else case ParseAddr addr of
          None \<Rightarrow> None
        | Some a \<Rightarrow>
            if zone_of a \<noteq> [] then None
            else
              let (n, i, ok) = dtoi 0 0 m in
              if \<not> ok \<or> i \<noteq> length m \<or> n > bit_len a then None
              else Some (as16 a,
                \<lparr>net_ip = mask_bytes n (if bit_len a = 32 then drop 12 (as16 a) else as16 a),
                 net_ones = n, net_bits = bit_len a\<rparr>))"

section \<open>Printing\<close>

definition hex_char :: "nat \<Rightarrow> char" where
  "hex_char d = ''0123456789abcdef'' ! d"

fun hex_str :: "nat \<Rightarrow> string" where
  "hex_str n = (if n < 16 then [hex_char n] else hex_str (n div 16) @ [hex_char (n mod 16)])"

declare hex_str.simps [simp del]

fun groups16 :: "bytes \<Rightarrow> nat list" where
  "groups16 (a # b # r) = (unat a * 256 + unat b) # groups16 r"
| "groups16 _ = []"

text \<open>The first longest run of at least two zero groups, as an interval.\<close>

definition zero_run :: "nat list \<Rightarrow> (nat \<times> nat) option" where
  "zero_run gs =
     foldl (\<lambda>best i.
       let l = length (takeWhile (\<lambda>g. g = 0) (drop i gs)) in
       if l \<ge> 2 \<and> (case best of None \<Rightarrow> True | Some (s, e) \<Rightarrow> l > e - s) then Some (i, i + l) else best)
       None [0..<length gs]"

definition join_colon :: "string list \<Rightarrow> string" where
  "join_colon gs = (case gs of [] \<Rightarrow> [] | g # gs' \<Rightarrow> g @ concat (map (\<lambda>x. CHR '':'' # x) gs'))"

definition v6_string :: "bytes \<Rightarrow> string" where
  "v6_string ip =
     (let gs = groups16 ip in
      case zero_run gs of
        None \<Rightarrow> join_colon (map hex_str gs)
      | Some (s, e) \<Rightarrow> join_colon (map hex_str (take s gs)) @ ''::'' @ join_colon (map hex_str (drop e gs)))"

text \<open>IP.String of the 4- and 16-byte forms, the only ones that occur.\<close>

definition IP_String :: "bytes \<Rightarrow> string" where
  "IP_String ip = (case To4 ip of Some b \<Rightarrow> dotted b | None \<Rightarrow> v6_string ip)"

text \<open>IPNet.String of a subnet that ParseCIDR made, whose mask always has a length.\<close>

definition IPNet_String :: "ipnet \<Rightarrow> string" where
  "IPNet_String n = IP_String (net_ip n) @ ''/'' @ dec_nat (net_ones n)"

definition JoinHostPort :: "string \<Rightarrow> string \<Rightarrow> string" where
  "JoinHostPort host port =
     (if CHR '':'' \<in> set host then ''['' @ host @ '']:'' @ port else host @ '':'' @ port)"

section \<open>Round trips\<close>

lemma dotted_chars: "c \<in> set (dotted b) \<Longrightarrow> c = CHR ''.'' \<or> digit_val c \<noteq> None"
  using dec_nat_no_char by (auto simp: dotted_def)

lemma dotted_no: "digit_val c = None \<Longrightarrow> c \<noteq> CHR ''.'' \<Longrightarrow> c \<notin> set (dotted b)"
  using dotted_chars by blast

lemma ParseAddr_dotted:
  assumes "length b = 4" shows "ParseAddr (dotted b) = Some (Addr4 b)"
proof -
  let ?p = "\<lambda>c. c \<noteq> CHR ''.'' \<and> c \<noteq> CHR '':'' \<and> c \<noteq> CHR ''%''"
  have n: "\<forall>c \<in> set (dec_nat (unat (b ! 0))). ?p c"
    using dec_nat_no_char [of "CHR ''.''"] dec_nat_no_char [of "CHR '':''"]
      dec_nat_no_char [of "CHR ''%''"] by (auto simp: digit_val_def)
  have "dropWhile ?p (dotted b) = drop (length (dec_nat (unat (b ! 0)))) (dotted b)"
    using n by (simp add: dotted_def dropWhile_append2 [of "dec_nat (unat (b ! 0))" ?p])
  then obtain r where "dropWhile ?p (dotted b) = CHR ''.'' # r" by (simp add: dotted_def)
  with parse_v4_dotted [OF assms] show ?thesis by (simp add: ParseAddr_def)
qed

lemma ParseIP_dotted: "length b = 4 \<Longrightarrow> ParseIP (dotted b) = Some (v4_in_v6 @ b)"
  by (simp add: ParseIP_def ParseAddr_dotted)

lemma To4_v4 [simp]: "length b = 4 \<Longrightarrow> To4 (v4_in_v6 @ b) = Some b"
  by (simp add: To4_def v4_in_v6_def)

lemma To4_length: "To4 ip = Some b \<Longrightarrow> length b = 4"
  by (auto simp: To4_def split: if_splits)

lemma IP_String_v4 [simp]: "length b = 4 \<Longrightarrow> IP_String (v4_in_v6 @ b) = dotted b"
  by (simp add: IP_String_def)

section \<open>Masks\<close>

lemma bit_Uint32:
  assumes "n < 32"
  shows "bit (Uint32 b) n = bit (b ! (3 - n div 8)) (n mod 8)"
proof -
  from assms consider "n < 8" | "8 \<le> n" "n < 16" | "16 \<le> n" "n < 24" | "24 \<le> n" "n < 32" by linarith
  then show ?thesis
  proof cases
    case 1
    then show ?thesis by (auto simp: Uint32_def bit_simps)
  next
    case 2
    then have "n div 8 = 1" "n mod 8 = n - 8" by presburger+
    with 2 show ?thesis by (auto simp: Uint32_def bit_simps dest: bit_imp_le_length)
  next
    case 3
    then have "n div 8 = 2" "n mod 8 = n - 16" by presburger+
    with 3 show ?thesis by (auto simp: Uint32_def bit_simps dest: bit_imp_le_length)
  next
    case 4
    then have "n div 8 = 3" "n mod 8 = n - 24" by presburger+
    with 4 show ?thesis by (auto simp: Uint32_def bit_simps dest: bit_imp_le_length)
  qed
qed

lemma bit_mask_byte:
  fixes w :: byte
  assumes "j < 8"
  shows "bit (if 8 * i + 8 \<le> ones then w else if ones \<le> 8 * i then 0
      else w AND NOT (mask (8 * i + 8 - ones))) j \<longleftrightarrow> bit w j \<and> 8 * i + 8 \<le> ones + j"
  using assms by (auto simp: bit_simps)

lemma Uint32_mask_bytes:
  assumes "length b = 4" "ones \<le> 32"
  shows "Uint32 (mask_bytes ones b) = Uint32 b AND NOT (mask (32 - ones))"
proof (rule bit_word_eqI)
  fix n assume "n < LENGTH(32)"
  then have n: "n < 32" by simp
  define i where "i = 3 - n div 8"
  define j where "j = n mod 8"
  have j: "j < 8" by (simp add: j_def)
  have i: "i < 4" "8 * i + 8 + n = 32 + j" using n by (auto simp: i_def j_def) presburger
  have "mask_bytes ones b ! i = (if 8 * i + 8 \<le> ones then b ! i else if ones \<le> 8 * i then 0
      else b ! i AND NOT (mask (8 * i + 8 - ones)))"
    using assms(1) i(1) by (simp add: mask_bytes_def nth_enumerate_eq)
  then have "bit (mask_bytes ones b ! i) j \<longleftrightarrow> bit (b ! i) j \<and> 8 * i + 8 \<le> ones + j"
    using bit_mask_byte [OF j] by simp
  moreover have "8 * i + 8 \<le> ones + j \<longleftrightarrow> 32 - ones \<le> n" using i(2) assms(2) by linarith
  ultimately show "bit (Uint32 (mask_bytes ones b)) n \<longleftrightarrow> bit (Uint32 b AND NOT (mask (32 - ones))) n"
    using n by (simp add: bit_Uint32 bit_simps flip: i_def j_def) auto
qed

section \<open>Host and port\<close>

text \<open>Everything before the last colon, and what follows it.\<close>

definition cut_last :: "char \<Rightarrow> string \<Rightarrow> (string \<times> string) option" where
  "cut_last c s =
     (if c \<notin> set s then None
      else Some (rev (tl (dropWhile (\<lambda>x. x \<noteq> c) (rev s))), rev (takeWhile (\<lambda>x. x \<noteq> c) (rev s))))"

lemma cut_last_append: "c \<notin> set b \<Longrightarrow> cut_last c (a @ c # b) = Some (a, b)"
  by (auto simp: cut_last_def takeWhile_append dropWhile_append)

text \<open>
  net.SplitHostPort; every error is \<^term>\<open>None\<close>. A bracketed host ends at the first closing
  bracket, which must come right before the last colon; other brackets are refused.
\<close>

definition SplitHostPort :: "string \<Rightarrow> (string \<times> string) option" where
  "SplitHostPort s =
     (case cut_last CHR '':'' s of
        None \<Rightarrow> None
      | Some (pre, port) \<Rightarrow>
          if CHR ''['' \<in> set port \<or> CHR '']'' \<in> set port then None
          else if s \<noteq> [] \<and> hd s = CHR ''['' then
            (let (host, rest, found) = cut CHR '']'' (tl s) in
             if \<not> found \<or> rest \<noteq> CHR '':'' # port \<or> CHR ''['' \<in> set host then None else Some (host, port))
          else if CHR '':'' \<in> set pre \<or> CHR ''['' \<in> set pre \<or> CHR '']'' \<in> set pre then None
          else Some (pre, port))"

definition host_chars :: "string \<Rightarrow> bool" where
  "host_chars h \<longleftrightarrow> CHR ''['' \<notin> set h \<and> CHR '']'' \<notin> set h"

lemma SplitHostPort_Join:
  assumes "host_chars h" "host_chars p" "CHR '':'' \<notin> set p"
  shows "SplitHostPort (JoinHostPort h p) = Some (h, p)"
proof (cases "CHR '':'' \<in> set h")
  case True
  have "cut_last CHR '':'' ((''['' @ h @ '']'') @ CHR '':'' # p) = Some (''['' @ h @ '']'', p)"
    by (rule cut_last_append [OF assms(3)])
  moreover have "cut CHR '']'' (h @ CHR '']'' # CHR '':'' # p) = (h, CHR '':'' # p, True)"
    using assms(1) by (simp add: host_chars_def)
  ultimately show ?thesis
    using assms True by (simp add: SplitHostPort_def JoinHostPort_def host_chars_def)
next
  case False
  have "hd (h @ CHR '':'' # p) \<noteq> CHR ''[''" using assms(1) by (cases h) (auto simp: host_chars_def)
  with False assms cut_last_append [OF assms(3), of h] show ?thesis
    by (simp add: SplitHostPort_def JoinHostPort_def host_chars_def)
qed

text \<open>Printed addresses and ports have no brackets, and ports no colon.\<close>

lemma dec_nat_plain: "host_chars (dec_nat n)" "CHR '':'' \<notin> set (dec_nat n)"
  by (auto simp: host_chars_def dec_nat_no_char digit_val_def)

lemma dotted_plain: "host_chars (dotted b)"
  unfolding host_chars_def by (intro conjI dotted_no) (simp_all add: digit_val_def)

lemma hex_char_plain: "d < 16 \<Longrightarrow> hex_char d \<noteq> CHR ''['' \<and> hex_char d \<noteq> CHR '']''"
proof -
  assume "d < 16"
  then have "hex_char d \<in> set ''0123456789abcdef''" unfolding hex_char_def by (intro nth_mem) simp
  then show ?thesis by auto
qed

lemma hex_str_plain: "host_chars (hex_str n)"
proof (induction n rule: hex_str.induct)
  case (1 n)
  then show ?case
    using hex_char_plain [of n] hex_char_plain [of "n mod 16"]
    by (subst hex_str.simps) (auto simp: host_chars_def)
qed

lemma join_colon_plain: "\<forall>g \<in> set gs. host_chars g \<Longrightarrow> host_chars (join_colon gs)"
  by (auto simp: join_colon_def host_chars_def split: list.split)

lemma IP_String_plain: "host_chars (IP_String ip)"
proof -
  have "host_chars (join_colon (map hex_str gs))" for gs
    by (rule join_colon_plain) (auto simp: hex_str_plain)
  then have "host_chars (v6_string ip)"
    by (simp add: v6_string_def Let_def host_chars_def split: option.split)
  with dotted_plain show ?thesis by (simp add: IP_String_def split: option.split)
qed

end
