(* ===== verification/Krot_Pool.thy ===== *)
theory Krot_Pool
  imports Go_Net
begin

text \<open>
  internal/server/pool.go: the pool of tunnel addresses. Its interface, the locale
  \<open>addr_pool\<close>, says what the server's sessions rely on; the lemma of the locale is about any
  sequence of leases and returns, each return possibly repeated (the release closure's
  sync.Once is part of the lease).
\<close>

section \<open>The interface\<close>

text \<open>A client of a pool leases addresses and gives them back, each lease by its position.\<close>

datatype lease_op = Lease | Return nat

record 'a lease =
  lease_ip :: 'a
  returned :: bool

definition live :: "'a lease list \<Rightarrow> 'a list" where
  "live ls = map lease_ip (filter (\<lambda>l. \<not> returned l) ls)"

locale addr_pool =
  fixes take_addr :: "'p \<Rightarrow> ('a \<times> 'p) option"
    and give_addr :: "'a \<Rightarrow> 'p \<Rightarrow> 'p"
    and avail :: "'p \<Rightarrow> 'a set"
    and held :: "'p \<Rightarrow> 'a set"
    and pool_inv :: "'p \<Rightarrow> bool"
  assumes take_Some: "pool_inv p \<Longrightarrow> take_addr p = Some (a, p') \<Longrightarrow>
      pool_inv p' \<and> a \<in> avail p \<and> avail p' = avail p - {a} \<and> held p' = insert a (held p)"
    and take_None: "pool_inv p \<Longrightarrow> take_addr p = None \<longleftrightarrow> avail p = {}"
    and give: "pool_inv p \<Longrightarrow> a \<in> held p \<Longrightarrow>
      pool_inv (give_addr a p) \<and> avail (give_addr a p) = insert a (avail p)
        \<and> held (give_addr a p) = held p - {a}"
    and disjoint: "pool_inv p \<Longrightarrow> avail p \<inter> held p = {}"
begin

text \<open>A return hands its address back the first time and does nothing after that.\<close>

definition lease_step :: "lease_op \<Rightarrow> 'p \<times> 'a lease list \<Rightarrow> 'p \<times> 'a lease list" where
  "lease_step x = (\<lambda>(p, ls). case x of
       Lease \<Rightarrow>
         (case take_addr p of
            None \<Rightarrow> (p, ls)
          | Some (a, p') \<Rightarrow> (p', ls @ [\<lparr>lease_ip = a, returned = False\<rparr>]))
     | Return i \<Rightarrow>
         if i < length ls \<and> \<not> returned (ls ! i)
         then (give_addr (lease_ip (ls ! i)) p, ls[i := (ls ! i)\<lparr>returned := True\<rparr>])
         else (p, ls))"

definition lease_inv :: "'a set \<Rightarrow> 'p \<times> 'a lease list \<Rightarrow> bool" where
  "lease_inv all = (\<lambda>(p, ls). pool_inv p \<and> held p = set (live ls) \<and> distinct (live ls)
     \<and> avail p \<union> held p = all)"

lemma live_append: "live (ls @ [\<lparr>lease_ip = a, returned = False\<rparr>]) = live ls @ [a]"
  by (simp add: live_def)

lemma live_return:
  assumes "i < length ls" "\<not> returned (ls ! i)" "distinct (live ls)"
  shows "distinct (live (ls[i := (ls ! i)\<lparr>returned := True\<rparr>]))"
    and "set (live (ls[i := (ls ! i)\<lparr>returned := True\<rparr>])) = set (live ls) - {lease_ip (ls ! i)}"
    and "lease_ip (ls ! i) \<in> set (live ls)"
proof -
  let ?l = "ls ! i"
  have ls: "ls = take i ls @ ?l # drop (Suc i) ls" using assms(1) by (rule id_take_nth_drop)
  have up: "ls[i := ?l\<lparr>returned := True\<rparr>] = take i ls @ ?l\<lparr>returned := True\<rparr> # drop (Suc i) ls"
    using assms(1) by (simp add: upd_conv_take_nth_drop)
  have l: "live ls = live (take i ls) @ lease_ip ?l # live (drop (Suc i) ls)"
    by (subst ls) (simp add: live_def assms(2))
  have u: "live (ls[i := ?l\<lparr>returned := True\<rparr>]) = live (take i ls) @ live (drop (Suc i) ls)"
    by (simp add: up live_def)
  from assms(3) show "distinct (live (ls[i := ?l\<lparr>returned := True\<rparr>]))"
    "set (live (ls[i := ?l\<lparr>returned := True\<rparr>])) = set (live ls) - {lease_ip ?l}"
    "lease_ip ?l \<in> set (live ls)"
    unfolding l u by auto
qed

lemma lease_inv_step: "lease_inv all s \<Longrightarrow> lease_inv all (lease_step x s)"
proof (cases s)
  case (Pair p ls)
  assume inv: "lease_inv all s"
  then have p: "pool_inv p" "held p = set (live ls)" "distinct (live ls)" "avail p \<union> held p = all"
    by (auto simp: Pair lease_inv_def)
  show ?thesis
  proof (cases x)
    case Lease
    show ?thesis
    proof (cases "take_addr p")
      case None
      with inv show ?thesis by (simp add: Pair Lease lease_step_def)
    next
      case (Some ap)
      then obtain a p' where ap: "take_addr p = Some (a, p')" by (cases ap) auto
      from take_Some [OF p(1) ap] disjoint [OF p(1)] p show ?thesis
        by (auto simp: Pair Lease lease_step_def ap lease_inv_def live_append)
    qed
  next
    case (Return i)
    show ?thesis
    proof (cases "i < length ls \<and> \<not> returned (ls ! i)")
      case True
      note r = live_return [of i ls]
      from True p r(3) have "lease_ip (ls ! i) \<in> held p" by simp
      from give [OF p(1) this] True p r show ?thesis
        by (auto simp: Pair Return lease_step_def lease_inv_def)
    next
      case False
      with inv show ?thesis by (auto simp: Pair Return lease_step_def)
    qed
  qed
qed

lemma lease_inv_run: "lease_inv all s \<Longrightarrow> lease_inv all (fold lease_step xs s)"
proof (induction xs arbitrary: s)
  case (Cons x xs)
  from Cons.IH [OF lease_inv_step [OF Cons.prems]] show ?case by simp
qed simp

text \<open>
  From a pool with nothing held: live leases never share an address, all come from the
  pool, and a lease is refused exactly when all addresses are out.
\<close>

lemma leases_disjoint:
  assumes "pool_inv p0" "held p0 = {}" and "fold lease_step xs (p0, []) = (p, ls)"
  shows "distinct (live ls)" and "set (live ls) \<subseteq> avail p0"
    and "take_addr p = None \<longleftrightarrow> set (live ls) = avail p0"
proof -
  have "lease_inv (avail p0) (p0, [])" using assms by (simp add: lease_inv_def live_def)
  from lease_inv_run [OF this, of xs] assms(3) have i: "lease_inv (avail p0) (p, ls)" by simp
  then show "distinct (live ls)" "set (live ls) \<subseteq> avail p0" by (auto simp: lease_inv_def)
  from i have p: "pool_inv p" and "held p = set (live ls)" "avail p \<union> held p = avail p0"
    by (auto simp: lease_inv_def)
  with disjoint [OF p] show "take_addr p = None \<longleftrightarrow> set (live ls) = avail p0"
    unfolding take_None [OF p] by blast
qed

end

section \<open>The pool\<close>

record ip_pool =
  pool_prefix :: nat
  free :: "32 word list"
  used :: "32 word set"

datatype pool_error =
    BadCIDR | NotIPv4 | NoHosts

definition newIPPool :: "string \<Rightarrow> pool_error + ip_pool" where
  "newIPPool cidr =
     (case ParseCIDR cidr of
        None \<Rightarrow> Inl BadCIDR
      | Some (gwIP, n) \<Rightarrow>
          (case To4 gwIP of
             None \<Rightarrow> Inl NotIPv4
           | Some gw4 \<Rightarrow>
               if net_bits n \<noteq> 32 then Inl NotIPv4
               else
                 let base = Uint32 (net_ip n);
                     gw = Uint32 gw4;
                     size = (push_bit (32 - net_ones n) 1 :: 32 word);
                     fr = filter (\<lambda>a. a \<noteq> gw) (map (\<lambda>off. base + of_nat off) [1..<unat (size - 1)])
                 in if fr = [] then Inl NoHosts
                    else Inr \<lparr>pool_prefix = net_ones n, free = fr, used = {}\<rparr>))"

text \<open>alloc without its release closure: the text form, the address, the pool.\<close>

definition ipPool_alloc :: "ip_pool \<Rightarrow> (string \<times> 32 word \<times> ip_pool) option" where
  "ipPool_alloc p =
     (if free p = [] then None
      else
        let ip = last (free p) in
        Some (dotted (PutUint32 ip) @ ''/'' @ dec_nat (pool_prefix p), ip,
              p\<lparr>free := butlast (free p), used := insert ip (used p)\<rparr>))"

text \<open>The body of the release closure, which its sync.Once runs once.\<close>

definition ipPool_release :: "32 word \<Rightarrow> ip_pool \<Rightarrow> ip_pool" where
  "ipPool_release ip p =
     (if ip \<in> used p then p\<lparr>used := used p - {ip}, free := free p @ [ip]\<rparr> else p)"

definition pool_ok :: "ip_pool \<Rightarrow> bool" where
  "pool_ok p \<longleftrightarrow> distinct (free p) \<and> set (free p) \<inter> used p = {}"

definition pool_take :: "ip_pool \<Rightarrow> (32 word \<times> ip_pool) option" where
  "pool_take p = map_option (\<lambda>(c, ip, p'). (ip, p')) (ipPool_alloc p)"

lemma butlast_last: "distinct xs \<Longrightarrow> xs \<noteq> [] \<Longrightarrow> last xs \<notin> set (butlast xs) \<and> distinct (butlast xs)
    \<and> set xs = insert (last xs) (set (butlast xs))"
  by (induction xs) (auto split: if_splits)

interpretation pool: addr_pool pool_take ipPool_release "\<lambda>p. set (free p)" used pool_ok
proof unfold_locales
  fix p a p'
  assume ok: "pool_ok p" and t: "pool_take p = Some (a, p')"
  from t have "free p \<noteq> []" "a = last (free p)"
    "p' = p\<lparr>free := butlast (free p), used := insert (last (free p)) (used p)\<rparr>"
    by (auto simp: pool_take_def ipPool_alloc_def Let_def split: if_splits)
  with ok butlast_last [of "free p"]
  show "pool_ok p' \<and> a \<in> set (free p) \<and> set (free p') = set (free p) - {a} \<and> used p' = insert a (used p)"
    by (auto simp: pool_ok_def)
next
  fix p :: ip_pool
  show "pool_take p = None \<longleftrightarrow> set (free p) = {}"
    by (simp add: pool_take_def ipPool_alloc_def Let_def)
next
  fix p a
  assume "pool_ok p" "a \<in> used p"
  then show "pool_ok (ipPool_release a p) \<and> set (free (ipPool_release a p)) = insert a (set (free p))
      \<and> used (ipPool_release a p) = used p - {a}"
    by (auto simp: pool_ok_def ipPool_release_def)
next
  fix p :: ip_pool
  assume "pool_ok p"
  then show "set (free p) \<inter> used p = {}" by (simp add: pool_ok_def)
qed

section \<open>The addresses of a new pool\<close>

lemma newIPPool_Inr:
  assumes "newIPPool cidr = Inr p"
  obtains gwIP n gw4 where "ParseCIDR cidr = Some (gwIP, n)" "To4 gwIP = Some gw4" "net_bits n = 32"
    "pool_prefix p = net_ones n" "used p = {}" "free p \<noteq> []"
    "free p = filter (\<lambda>a. a \<noteq> Uint32 gw4)
       (map (\<lambda>off. Uint32 (net_ip n) + of_nat off) [1..<unat ((push_bit (32 - net_ones n) 1 :: 32 word) - 1)])"
  using assms by (auto simp: newIPPool_def Let_def split: option.splits prod.splits if_splits)

lemma word_offsets_distinct:
  fixes base :: "32 word"
  assumes "m \<le> 2 ^ 32"
  shows "distinct (map (\<lambda>off. base + of_nat off) [k..<m])"
proof -
  have "inj_on (\<lambda>off. base + of_nat off :: 32 word) {k..<m}"
  proof (rule inj_onI)
    fix x y assume x: "x \<in> {k..<m}" and y: "y \<in> {k..<m}" and "base + of_nat x = base + (of_nat y :: 32 word)"
    then have "(of_nat x :: 32 word) = of_nat y" by simp
    then have "unat (of_nat x :: 32 word) = unat (of_nat y :: 32 word)" by simp
    moreover have "x < 2 ^ 32" "y < 2 ^ 32" using x y assms by auto
    ultimately show "x = y" by (simp add: unat_of_nat)
  qed
  then show ?thesis by (simp add: distinct_map)
qed

lemma newIPPool_ok: "newIPPool cidr = Inr p \<Longrightarrow> pool_ok p"
proof (erule newIPPool_Inr)
  fix gwIP gw4 :: bytes and n :: ipnet
  assume u: "used p = {}" and f: "free p = filter (\<lambda>a. a \<noteq> Uint32 gw4)
       (map (\<lambda>off. Uint32 (net_ip n) + of_nat off) [1..<unat ((push_bit (32 - net_ones n) 1 :: 32 word) - 1)])"
  have "unat w < 2 ^ 32" for w :: "32 word" using unsigned_less [of w] by simp
  then have "unat ((push_bit (32 - net_ones n) 1 :: 32 word) - 1) \<le> 2 ^ 32" by (rule less_imp_le)
  then have "distinct (free p)" unfolding f by (intro distinct_filter word_offsets_distinct)
  with u show "pool_ok p" by (simp add: pool_ok_def)
qed

subsection \<open>Exactly the host addresses of the subnet\<close>

lemma as16_bit_len:
  "ParseAddr s = Some a \<Longrightarrow> bit_len a = 32 \<Longrightarrow> \<exists>b. a = Addr4 b \<and> length b = 4"
proof -
  have len: "v4_fields v k acc d cs = Some b \<Longrightarrow> length acc \<le> 3 \<Longrightarrow> length b = 4" for v k acc d cs b
    by (induction v k acc d cs rule: v4_fields.induct) (auto split: option.splits if_splits)
  assume "ParseAddr s = Some a" "bit_len a = 32"
  then show ?thesis
    using len [of 0 0 "[]" True s] by (auto simp: ParseAddr_def parse_v4_def split: list.splits if_splits)
qed

lemma ParseCIDR_v4:
  assumes "ParseCIDR s = Some (gwIP, n)" "net_bits n = 32"
  shows "\<exists>b. gwIP = v4_in_v6 @ b \<and> length b = 4 \<and> net_ip n = mask_bytes (net_ones n) b \<and> net_ones n \<le> 32"
proof -
  from assms obtain a x m where a: "ParseAddr x = Some a" "bit_len a = 32" "gwIP = as16 a"
    "net_ip n = mask_bytes (net_ones n) (drop 12 (as16 a))" "net_ones n = m" "m \<le> 32"
    by (auto simp: ParseCIDR_def Let_def split: prod.splits option.splits if_splits)
  from as16_bit_len [OF a(1,2)] a show ?thesis by (auto simp: v4_in_v6_def)
qed

lemma unat_mask32: "h \<le> 32 \<Longrightarrow> unat (mask h :: 32 word) = 2 ^ h - 1"
proof -
  assume "h \<le> 32"
  then have "unat (mask h :: 32 word) = mask h" by (intro bit_eqI) (auto simp: bit_simps)
  then show ?thesis by (simp add: mask_eq_exp_minus_1)
qed

lemma subnet_offset:
  fixes a g :: "32 word"
  assumes "h \<le> 32" "drop_bit h a = drop_bit h g"
  shows "a = (g AND NOT (mask h)) + of_nat (unat (take_bit h a))"
proof -
  have "a = (a AND NOT (mask h)) OR take_bit h a"
    by (rule bit_word_eqI) (auto simp: bit_simps)
  also have "a AND NOT (mask h) = g AND NOT (mask h)"
  proof (rule bit_word_eqI)
    fix n assume "n < LENGTH(32)"
    from assms(2) have "bit (drop_bit h a) (n - h) = bit (drop_bit h g) (n - h)" by simp
    then show "bit (a AND NOT (mask h)) n = bit (g AND NOT (mask h)) n"
      by (auto simp: bit_simps)
  qed
  also have "(g AND NOT (mask h)) OR take_bit h a = (g AND NOT (mask h)) + take_bit h a"
    by (rule disjunctive_add [symmetric]) (auto simp: bit_simps)
  finally show ?thesis by simp
qed

lemma offset_parts:
  fixes g :: "32 word"
  assumes "h \<le> 32" "off < 2 ^ h"
  shows "drop_bit h ((g AND NOT (mask h)) + of_nat off) = drop_bit h g"
    and "unat (take_bit h ((g AND NOT (mask h)) + of_nat off)) = off"
proof -
  let ?o = "of_nat off :: 32 word"
  have "(2 :: nat) ^ h \<le> 2 ^ 32" using assms(1) by (intro power_increasing) simp_all
  with assms(2) have lt: "off < 2 ^ 32" by linarith
  have "take_bit h off = off" using assms(2) by (simp add: take_bit_nat_eq_self)
  then have bo: "bit off n \<Longrightarrow> n < h" for n by (metis bit_take_bit_iff)
  have sum: "(g AND NOT (mask h)) + ?o = (g AND NOT (mask h)) OR ?o"
    by (rule disjunctive_add) (auto simp: bit_simps dest: bo)
  show "drop_bit h ((g AND NOT (mask h)) + ?o) = drop_bit h g"
    unfolding sum by (rule bit_word_eqI) (auto simp: bit_simps dest: bo bit_imp_le_length)
  have "take_bit h ((g AND NOT (mask h)) OR ?o) = ?o"
    by (rule bit_word_eqI) (auto simp: bit_simps dest: bo)
  then show "unat (take_bit h ((g AND NOT (mask h)) + ?o)) = off"
    unfolding sum using lt by (simp add: unat_of_nat)
qed

lemma subnet_hosts:
  fixes a g :: "32 word"
  assumes "h \<le> 32"
  shows "a \<in> (\<lambda>off. (g AND NOT (mask h)) + of_nat off) ` {1..<2 ^ h - 1}
    \<longleftrightarrow> drop_bit h a = drop_bit h g \<and> take_bit h a \<noteq> 0 \<and> take_bit h a \<noteq> mask h"
proof
  assume "a \<in> (\<lambda>off. (g AND NOT (mask h)) + of_nat off) ` {1..<2 ^ h - 1}"
  then obtain off where off: "1 \<le> off" "off < 2 ^ h - 1" and a: "a = (g AND NOT (mask h)) + of_nat off"
    by auto
  then have "off < 2 ^ h" by simp
  note p = offset_parts [OF assms this, of g, folded a]
  have "unat (mask h :: 32 word) = 2 ^ h - 1"
    by (rule unat_mask32 [OF assms])
  with p off show "drop_bit h a = drop_bit h g \<and> take_bit h a \<noteq> 0 \<and> take_bit h a \<noteq> mask h"
    by auto
next
  assume r: "drop_bit h a = drop_bit h g \<and> take_bit h a \<noteq> 0 \<and> take_bit h a \<noteq> mask h"
  let ?o = "unat (take_bit h a)"
  have m: "unat (mask h :: 32 word) = 2 ^ h - 1"
    by (rule unat_mask32 [OF assms])
  have "?o \<noteq> 0" using r by (metis unsigned_0 unsigned_word_eqI)
  moreover have "?o \<noteq> 2 ^ h - 1" using r m by (metis unsigned_word_eqI)
  moreover have "?o < 2 ^ h" by (simp add: unsigned_take_bit_eq)
  ultimately have "?o \<in> {1..<2 ^ h - 1}" by auto
  moreover have "a = (g AND NOT (mask h)) + of_nat ?o" using subnet_offset [OF assms] r by blast
  ultimately show "a \<in> (\<lambda>off. (g AND NOT (mask h)) + of_nat off) ` {1..<2 ^ h - 1}" by blast
qed

lemma newIPPool_hosts:
  assumes "newIPPool cidr = Inr p"
  shows "\<exists>gwIP n gw4. ParseCIDR cidr = Some (gwIP, n) \<and> To4 gwIP = Some gw4 \<and> length gw4 = 4
    \<and> pool_prefix p = net_ones n \<and> net_ones n \<le> 32 \<and> net_bits n = 32
    \<and> set (free p) = {a. drop_bit (32 - net_ones n) a = drop_bit (32 - net_ones n) (Uint32 gw4)
         \<and> take_bit (32 - net_ones n) a \<noteq> 0 \<and> take_bit (32 - net_ones n) a \<noteq> mask (32 - net_ones n)
         \<and> a \<noteq> Uint32 gw4}"
proof -
  from assms obtain gwIP n gw4 where c: "ParseCIDR cidr = Some (gwIP, n)" "To4 gwIP = Some gw4"
    and bits: "net_bits n = 32" and pre: "pool_prefix p = net_ones n"
    and f: "free p = filter (\<lambda>a. a \<noteq> Uint32 gw4)
       (map (\<lambda>off. Uint32 (net_ip n) + of_nat off) [1..<unat ((push_bit (32 - net_ones n) 1 :: 32 word) - 1)])"
    by (rule newIPPool_Inr)
  from ParseCIDR_v4 [OF c(1) bits] c(2) have len: "length gw4 = 4"
    and ip: "net_ip n = mask_bytes (net_ones n) gw4" and ones: "net_ones n \<le> 32" by auto
  let ?h = "32 - net_ones n"
  have base: "Uint32 (net_ip n) = Uint32 gw4 AND NOT (mask ?h)"
    unfolding ip by (rule Uint32_mask_bytes [OF len ones])
  have "(push_bit ?h 1 :: 32 word) - 1 = mask ?h" by (simp add: mask_eq_exp_minus_1)
  then have size: "unat ((push_bit ?h 1 :: 32 word) - 1) = 2 ^ ?h - 1"
    by (simp only: unat_mask32)
  have "set (free p) = {a \<in> (\<lambda>off. (Uint32 gw4 AND NOT (mask ?h)) + of_nat off) ` {1..<2 ^ ?h - 1}.
      a \<noteq> Uint32 gw4}"
    unfolding f size base by auto
  then have "set (free p) = {a. drop_bit ?h a = drop_bit ?h (Uint32 gw4)
         \<and> take_bit ?h a \<noteq> 0 \<and> take_bit ?h a \<noteq> mask ?h \<and> a \<noteq> Uint32 gw4}"
    using subnet_hosts [of ?h _ "Uint32 gw4"] by auto
  with c bits pre len ones show ?thesis by blast
qed

section \<open>Properties\<close>

text \<open>
  alloc with its release closure: the closures handed out so far are the leases, and calling
  one a second time does nothing (its sync.Once).
\<close>

definition ipPool_step :: "lease_op \<Rightarrow> ip_pool \<times> 32 word lease list \<Rightarrow> ip_pool \<times> 32 word lease list" where
  "ipPool_step x = (\<lambda>(p, ls). case x of
       Lease \<Rightarrow>
         (case ipPool_alloc p of
            None \<Rightarrow> (p, ls)
          | Some (cidr, ip, p') \<Rightarrow> (p', ls @ [\<lparr>lease_ip = ip, returned = False\<rparr>]))
     | Return i \<Rightarrow>
         if i < length ls \<and> \<not> returned (ls ! i)
         then (ipPool_release (lease_ip (ls ! i)) p, ls[i := (ls ! i)\<lparr>returned := True\<rparr>])
         else (p, ls))"

lemma ipPool_step_locale: "ipPool_step = pool.lease_step"
  by (rule ext)+ (auto simp: ipPool_step_def pool.lease_step_def pool_take_def
      split: lease_op.split option.split)

text \<open>C7. Tunnel addresses are never shared: whatever sequence of allocations and releases (in
  any order, a release possibly called twice) follows the creation of the pool, the addresses
  out at one time are pairwise distinct, all come from the pool, and alloc fails exactly when
  every address of the pool is out, so none is ever lost.\<close>

theorem addresses_never_shared:
  assumes "newIPPool cidr = Inr p0" and "fold ipPool_step xs (p0, []) = (p, ls)"
  shows "distinct (live ls) \<and> set (live ls) \<subseteq> set (free p0)
    \<and> (ipPool_alloc p = None \<longleftrightarrow> set (live ls) = set (free p0))"
proof -
  from assms(1) have "used p0 = {}" by (rule newIPPool_Inr)
  note l = pool.leases_disjoint [OF newIPPool_ok [OF assms(1)] this, of xs p ls]
  have "pool_take p = None \<longleftrightarrow> ipPool_alloc p = None" by (simp add: pool_take_def)
  with l assms(2) show ?thesis by (simp add: ipPool_step_locale)
qed

definition sample_pool :: ip_pool where
  "sample_pool = \<lparr>pool_prefix = 29, free = [0x0A080002, 0x0A080003, 0x0A080004, 0x0A080005, 0x0A080006], used = {}\<rparr>"

lemma sample_cidr:
  "ParseCIDR ''10.8.0.1/29'' = Some (v4_in_v6 @ [10, 8, 0, 1], \<lparr>net_ip = [10, 8, 0, 0], net_ones = 29, net_bits = 32\<rparr>)"
proof -
  have "mask_bytes 29 [10, 8, 0, 1] = [10, 8, 0, 0]" by (simp add: mask_bytes_def mask_eq_exp_minus_1)
  moreover have "ParseAddr ''10.8.0.1'' = Some (Addr4 [10, 8, 0, 1])"
    by (simp add: digit_val_def parse_v4_def ParseAddr_def)
  ultimately show ?thesis by (simp add: ParseCIDR_def digit_val_def dtoi_big_def v4_in_v6_def)
qed

lemma sample_pool: "newIPPool ''10.8.0.1/29'' = Inr sample_pool"
proof -
  have w: "Uint32 [10, 8, 0, 0] = 0x0A080000" "Uint32 [10, 8, 0, 1] = 0x0A080001"
    by (simp_all add: Uint32_def)
  have s: "unat ((push_bit 3 1 :: 32 word) - 1) = 7" by (simp add: push_bit_eq_mult)
  have "To4 (v4_in_v6 @ [10, 8, 0, 1]) = Some [10, 8, 0, 1]" by simp
  moreover have "[1..<7] = [1, 2, 3, 4, 5, 6 :: nat]" by (simp add: upt_rec)
  moreover have "pool_prefix sample_pool = 29" "free sample_pool
      = [0x0A080002, 0x0A080003, 0x0A080004, 0x0A080005, 0x0A080006]" "used sample_pool = {}"
    by (simp_all add: sample_pool_def)
  ultimately show ?thesis
    using s by (simp add: newIPPool_def sample_cidr w Let_def sample_pool_def)
qed

theorem addresses_never_shared_witness:
  "distinct (live (snd (fold ipPool_step [Lease, Lease, Return 0, Return 0, Lease] (sample_pool, []))))"
proof -
  obtain p ls where r: "fold ipPool_step [Lease, Lease, Return 0, Return 0, Lease] (sample_pool, []) = (p, ls)"
    by fastforce
  from addresses_never_shared [OF sample_pool this] r show ?thesis by simp
qed

text \<open>C8. The pool of a subnet holds exactly its usable host addresses: those with the gateway's
  network part, except the network address, the broadcast address and the gateway itself.\<close>

theorem pool_is_the_usable_hosts:
  assumes "newIPPool cidr = Inr p"
  shows "\<exists>gwIP n gw4. ParseCIDR cidr = Some (gwIP, n) \<and> To4 gwIP = Some gw4 \<and> net_ones n \<le> 32
    \<and> pool_prefix p = net_ones n
    \<and> set (free p) = {a. drop_bit (32 - net_ones n) a = drop_bit (32 - net_ones n) (Uint32 gw4)
         \<and> take_bit (32 - net_ones n) a \<noteq> 0 \<and> take_bit (32 - net_ones n) a \<noteq> mask (32 - net_ones n)
         \<and> a \<noteq> Uint32 gw4}"
  using newIPPool_hosts [OF assms] by blast

theorem pool_is_the_usable_hosts_witness: "pool_prefix sample_pool = 29"
  using pool_is_the_usable_hosts [OF sample_pool] by (auto simp: sample_cidr)

end
