(* ===== verification/Krot_Config.thy ===== *)
theory Krot_Config
  imports Krot_Crypto
begin

text \<open>
  internal/config/config.go: the two configurations, their defaults and their validation.
  Reading the file and decoding its JSON into the record's fields (os.ReadFile and
  encoding/json) is an input: the record with Go's zero values for absent fields, or the
  error of loadJSON. A Go int has 64 bits here.
\<close>

section \<open>The records\<close>

record server_cfg =
  s_Listen :: string
  s_SNI :: string
  s_Path :: string
  s_PSK :: string
  s_ServerPriv :: string
  s_CertFile :: string
  s_KeyFile :: string
  s_SelfSigned :: bool
  s_Decoy :: string
  s_TunName :: string
  s_TunCIDR :: string
  s_DNS :: string
  s_WANIface :: string
  s_MTU :: int

record client_cfg =
  c_ServerIP :: string
  c_ServerPort :: int
  c_SNI :: string
  c_Path :: string
  c_PSK :: string
  c_ServerPub :: string
  c_Insecure :: bool
  c_PinSHA256 :: string
  c_TunName :: string
  c_MTU :: int
  c_DNS :: string
  c_Channels :: int
  c_RouteMode :: string
  c_SocksListen :: string
  c_SocksTable :: string

datatype config_error =
    ReadConfig | ParseConfig
  | PSKNotBase64 | PSKLength nat
  | KeyNotBase64 | KeyLength nat
  | CertRequired | ServerIPRequired | SNIRequired

section \<open>Keys\<close>

definition DecodePSK :: "string \<Rightarrow> config_error + bytes" where
  "DecodePSK s =
     (case StdDecodeString s of
        None \<Rightarrow> Inl PSKNotBase64
      | Some b \<Rightarrow> if length b \<noteq> KeySize then Inl (PSKLength (length b)) else Inr b)"

definition DecodeKey32 :: "string \<Rightarrow> config_error + bytes" where
  "DecodeKey32 s =
     (case StdDecodeString s of
        None \<Rightarrow> Inl KeyNotBase64
      | Some b \<Rightarrow> if length b \<noteq> 32 then Inl (KeyLength (length b))
                   else Inr (copy_into (replicate 32 0) b))"

lemma DecodePSK_Inr: "DecodePSK s = Inr k \<longleftrightarrow> StdDecodeString s = Some k \<and> length k = KeySize"
  by (auto simp: DecodePSK_def split: option.splits if_splits)

lemma DecodeKey32_Inr: "DecodeKey32 s = Inr k \<longleftrightarrow> StdDecodeString s = Some k \<and> length k = 32"
  by (auto simp: DecodeKey32_def split: option.splits if_splits)

section \<open>Defaults\<close>

definition Server_applyDefaults :: "server_cfg \<Rightarrow> server_cfg" where
  "Server_applyDefaults c =
     (let c1 = (if s_Listen c = [] then c\<lparr>s_Listen := '':443''\<rparr> else c);
          c2 = (if s_Path c1 = [] then c1\<lparr>s_Path := ''/api/v2/stream''\<rparr> else c1);
          c3 = (if s_TunName c2 = [] then c2\<lparr>s_TunName := ''krot0''\<rparr> else c2);
          c4 = (if s_TunCIDR c3 = [] then c3\<lparr>s_TunCIDR := ''10.8.0.1/24''\<rparr> else c3)
      in if s_MTU c4 = 0 then c4\<lparr>s_MTU := 1320\<rparr> else c4)"

definition Client_applyDefaults :: "client_cfg \<Rightarrow> client_cfg" where
  "Client_applyDefaults c =
     (let c1 = (if c_ServerPort c = 0 then c\<lparr>c_ServerPort := 443\<rparr> else c);
          c2 = (if c_Path c1 = [] then c1\<lparr>c_Path := ''/api/v2/stream''\<rparr> else c1);
          c3 = (if c_TunName c2 = [] then c2\<lparr>c_TunName := ''krot0''\<rparr> else c2);
          c4 = (if c_MTU c3 = 0 then c3\<lparr>c_MTU := 1320\<rparr> else c3)
      in if c_Channels c4 = 0 then c4\<lparr>c_Channels := 4\<rparr> else c4)"

section \<open>Loading\<close>

definition LoadServer :: "config_error + server_cfg \<Rightarrow> config_error + server_cfg" where
  "LoadServer json =
     try_bind json (\<lambda>c0.
     let c = Server_applyDefaults c0 in
     try_bind (DecodePSK (s_PSK c)) (\<lambda>_.
     try_bind (DecodeKey32 (s_ServerPriv c)) (\<lambda>_.
     if \<not> s_SelfSigned c \<and> (s_CertFile c = [] \<or> s_KeyFile c = []) then Inl CertRequired
     else Inr c)))"

definition LoadClient :: "config_error + client_cfg \<Rightarrow> config_error + client_cfg" where
  "LoadClient json =
     try_bind json (\<lambda>c0.
     let c = Client_applyDefaults c0 in
     try_bind (DecodePSK (c_PSK c)) (\<lambda>_.
     try_bind (DecodeKey32 (c_ServerPub c)) (\<lambda>_.
     if c_ServerIP c = [] then Inl ServerIPRequired
     else if c_SNI c = [] then Inl SNIRequired
     else Inr c)))"

section \<open>Properties\<close>

text \<open>Keys survive their text form: a key of 32 bytes printed in base64 decodes to itself with
  both decoders, and what a decoder accepts always has 32 bytes.\<close>

theorem key_text_round_trip:
  "(length k = 32 \<longrightarrow> DecodePSK (StdEncodeToString k) = Inr k \<and> DecodeKey32 (StdEncodeToString k) = Inr k)
     \<and> (\<forall>s b. DecodePSK s = Inr b \<or> DecodeKey32 s = Inr b \<longrightarrow> length b = 32)"
  by (auto simp: DecodePSK_Inr DecodeKey32_Inr KeySize_def)

theorem key_text_round_trip_witness:
  "DecodePSK (StdEncodeToString (replicate 32 7)) = Inr (replicate 32 7)"
  using key_text_round_trip [of "replicate 32 7"] by simp

text \<open>C24. A configuration that loads can be used: the server's has a listen address, path, device,
  subnet and MTU, two keys that decode and, unless it signs its own, certificate files; the
  client's has the defaults, two keys that decode, a server address and a name; and loading
  it once more (as the written-back file would be) changes nothing.\<close>

theorem loaded_configurations_are_complete:
  "(\<forall>json c. LoadServer json = Inr c \<longrightarrow>
       s_Listen c \<noteq> [] \<and> s_Path c \<noteq> [] \<and> s_TunName c \<noteq> [] \<and> s_TunCIDR c \<noteq> [] \<and> s_MTU c \<noteq> 0
       \<and> (\<exists>k. DecodePSK (s_PSK c) = Inr k) \<and> (\<exists>k. DecodeKey32 (s_ServerPriv c) = Inr k)
       \<and> (s_SelfSigned c \<or> s_CertFile c \<noteq> [] \<and> s_KeyFile c \<noteq> []) \<and> LoadServer (Inr c) = Inr c)
   \<and> (\<forall>json c. LoadClient json = Inr c \<longrightarrow>
       c_ServerPort c \<noteq> 0 \<and> c_Path c \<noteq> [] \<and> c_TunName c \<noteq> [] \<and> c_MTU c \<noteq> 0 \<and> c_Channels c \<noteq> 0
       \<and> (\<exists>k. DecodePSK (c_PSK c) = Inr k) \<and> (\<exists>k. DecodeKey32 (c_ServerPub c) = Inr k)
       \<and> c_ServerIP c \<noteq> [] \<and> c_SNI c \<noteq> [] \<and> LoadClient (Inr c) = Inr c)"
proof (intro conjI allI impI)
  fix json c assume "LoadServer json = Inr c"
  then obtain c0 where c: "c = Server_applyDefaults c0" "\<exists>k. DecodePSK (s_PSK c) = Inr k"
    "\<exists>k. DecodeKey32 (s_ServerPriv c) = Inr k" "s_SelfSigned c \<or> s_CertFile c \<noteq> [] \<and> s_KeyFile c \<noteq> []"
    by (auto simp: LoadServer_def try_bind_Inr_iff Let_def split: if_splits)
  have d: "s_Listen c \<noteq> []" "s_Path c \<noteq> []" "s_TunName c \<noteq> []" "s_TunCIDR c \<noteq> []" "s_MTU c \<noteq> 0"
    by (simp_all add: c(1) Server_applyDefaults_def Let_def)
  then have "Server_applyDefaults c = c" by (simp add: Server_applyDefaults_def Let_def)
  with c(2-4) have "LoadServer (Inr c) = Inr c" by (auto simp: LoadServer_def Let_def)
  with c(2-4) d show "s_Listen c \<noteq> []" "s_Path c \<noteq> []" "s_TunName c \<noteq> []" "s_TunCIDR c \<noteq> []"
    "s_MTU c \<noteq> 0" "\<exists>k. DecodePSK (s_PSK c) = Inr k" "\<exists>k. DecodeKey32 (s_ServerPriv c) = Inr k"
    "s_SelfSigned c \<or> s_CertFile c \<noteq> [] \<and> s_KeyFile c \<noteq> []" "LoadServer (Inr c) = Inr c" by auto
next
  fix json c assume "LoadClient json = Inr c"
  then obtain c0 where c: "c = Client_applyDefaults c0" "\<exists>k. DecodePSK (c_PSK c) = Inr k"
    "\<exists>k. DecodeKey32 (c_ServerPub c) = Inr k" "c_ServerIP c \<noteq> []" "c_SNI c \<noteq> []"
    by (auto simp: LoadClient_def try_bind_Inr_iff Let_def split: if_splits)
  have d: "c_ServerPort c \<noteq> 0" "c_Path c \<noteq> []" "c_TunName c \<noteq> []" "c_MTU c \<noteq> 0" "c_Channels c \<noteq> 0"
    by (simp_all add: c(1) Client_applyDefaults_def Let_def)
  then have "Client_applyDefaults c = c" by (simp add: Client_applyDefaults_def Let_def)
  with c(2-5) have "LoadClient (Inr c) = Inr c" by (auto simp: LoadClient_def Let_def)
  with c(2-5) d show "c_ServerPort c \<noteq> 0" "c_Path c \<noteq> []" "c_TunName c \<noteq> []" "c_MTU c \<noteq> 0"
    "c_Channels c \<noteq> 0" "\<exists>k. DecodePSK (c_PSK c) = Inr k" "\<exists>k. DecodeKey32 (c_ServerPub c) = Inr k"
    "c_ServerIP c \<noteq> []" "c_SNI c \<noteq> []" "LoadClient (Inr c) = Inr c" by auto
qed

definition sample_psk :: string where
  "sample_psk = StdEncodeToString (replicate 32 7)"

lemma sample_psk: "DecodePSK sample_psk = Inr (replicate 32 7)" "DecodeKey32 sample_psk = Inr (replicate 32 7)"
  by (simp_all add: sample_psk_def DecodePSK_Inr DecodeKey32_Inr KeySize_def)

definition sample_server_cfg :: server_cfg where
  "sample_server_cfg = \<lparr>s_Listen = '''', s_SNI = ''a.example'', s_Path = '''', s_PSK = sample_psk,
     s_ServerPriv = sample_psk, s_CertFile = '''', s_KeyFile = '''', s_SelfSigned = True, s_Decoy = '''',
     s_TunName = '''', s_TunCIDR = '''', s_DNS = '''', s_WANIface = '''', s_MTU = 0\<rparr>"

theorem loaded_configurations_are_complete_witness:
  "\<exists>c. LoadServer (Inr sample_server_cfg) = Inr c \<and> LoadServer (Inr c) = Inr c \<and> s_Path c \<noteq> []"
proof -
  have "s_PSK (Server_applyDefaults sample_server_cfg) = sample_psk"
    "s_ServerPriv (Server_applyDefaults sample_server_cfg) = sample_psk"
    "s_SelfSigned (Server_applyDefaults sample_server_cfg)"
    by (simp_all add: Server_applyDefaults_def sample_server_cfg_def Let_def)
  then have "LoadServer (Inr sample_server_cfg) = Inr (Server_applyDefaults sample_server_cfg)"
    by (simp add: LoadServer_def sample_psk Let_def)
  with loaded_configurations_are_complete show ?thesis by blast
qed

end
