(* ===== verification/Krot_Server.thy ===== *)
theory Krot_Server
  imports Krot_Handler Krot_Pool Krot_Config
begin

text \<open>
  internal/server/server.go: bringing the server up, the handler with the server's address
  pool, and the routing of packets between the TUN device and the clients' tunnels.

  The TUN device, the interface setup and NAT are inputs: whether they succeed, what is read,
  and which packets a write accepts. The effects on them are recorded in the order they
  happen.
\<close>

section \<open>Addresses in packets and text\<close>

definition ipv4Dst :: "bytes \<Rightarrow> 32 word option" where
  "ipv4Dst p =
     (if length p < 20 \<or> drop_bit 4 (p ! 0) \<noteq> 4 then None else Some (Uint32 (take 4 (drop 16 p))))"

definition parseHostIP :: "string \<Rightarrow> 32 word option" where
  "parseHostIP cidr =
     (let host = takeWhile (\<lambda>c. c \<noteq> CHR ''/'') cidr in
      case ParseIP host of
        None \<Rightarrow> None
      | Some ip \<Rightarrow> (case To4 ip of None \<Rightarrow> None | Some ip4 \<Rightarrow> Some (Uint32 ip4)))"

definition addr_text :: "32 word \<Rightarrow> nat \<Rightarrow> string" where
  "addr_text ip prefix = dotted (PutUint32 ip) @ ''/'' @ dec_nat prefix"

lemma Uint32_take4: "length b = 4 \<Longrightarrow> PutUint32 (Uint32 b) = b"
proof -
  assume "length b = 4"
  then obtain w x y z where "b = [w, x, y, z]" by (auto simp: numeral_eq_Suc length_Suc_conv)
  then show ?thesis by (simp add: PutUint32_Uint32)
qed

lemma parseHostIP_addr_text [simp]: "parseHostIP (addr_text ip prefix) = Some ip"
proof -
  have "CHR ''/'' \<notin> set (dotted (PutUint32 ip))" by (rule dotted_no) (simp_all add: digit_val_def)
  then have "takeWhile (\<lambda>c. c \<noteq> CHR ''/'') (addr_text ip prefix) = dotted (PutUint32 ip)"
    unfolding addr_text_def by (subst takeWhile_append2) auto
  then show ?thesis by (simp add: parseHostIP_def ParseIP_dotted)
qed

lemma alloc_text: "ipPool_alloc p = Some (cidr, ip, p') \<Longrightarrow> cidr = addr_text ip (pool_prefix p) \<and> pool_prefix p' = pool_prefix p"
  by (auto simp: ipPool_alloc_def addr_text_def Let_def split: if_splits)

section \<open>Bringing the server up\<close>

datatype os_effect = OpenTun | IfUp | SetupNAT | CloseTun

datatype new_error =
    NewConfig config_error | NewStatic crypto_error | NewPool pool_error | NewCIDR
  | NewTun | NewIfUp | NewNAT

record server_core =
  sv_psk :: bytes
  sv_static :: keypair
  sv_pool :: ip_pool
  sv_gw :: string

record os_env =
  os_open :: bool
  os_ifup :: bool
  os_nat :: bool

definition server_New ::
  "prims \<Rightarrow> server_cfg \<Rightarrow> os_env \<Rightarrow> (new_error + server_core) \<times> os_effect list" where
  "server_New P cfg os =
     (case DecodePSK (s_PSK cfg) of Inl e \<Rightarrow> (Inl (NewConfig e), [])
      | Inr psk \<Rightarrow>
     (case DecodeKey32 (s_ServerPriv cfg) of Inl e \<Rightarrow> (Inl (NewConfig e), [])
      | Inr priv \<Rightarrow>
     (case PublicFromPrivate P priv of Inl e \<Rightarrow> (Inl (NewStatic e), [])
      | Inr pub \<Rightarrow>
     (case newIPPool (s_TunCIDR cfg) of Inl e \<Rightarrow> (Inl (NewPool e), [])
      | Inr pool \<Rightarrow>
     (case ParseCIDR (s_TunCIDR cfg) of None \<Rightarrow> (Inl NewCIDR, [])
      | Some (gwIP, _) \<Rightarrow>
          if \<not> os_open os then (Inl NewTun, [])
          else if \<not> os_ifup os then (Inl NewIfUp, [OpenTun, CloseTun])
          else if \<not> os_nat os then (Inl NewNAT, [OpenTun, IfUp, CloseTun])
          else (Inr \<lparr>sv_psk = psk, sv_static = \<lparr>Private = priv, Public = pub\<rparr>, sv_pool = pool,
                  sv_gw = IP_String gwIP\<rparr>, [OpenTun, IfUp, SetupNAT]))))))"

text \<open>The handler of Run.\<close>

definition server_handler ::
  "(string \<Rightarrow> 'u option) \<Rightarrow> server_cfg \<Rightarrow> server_core \<Rightarrow> handler_error + (ip_pool, 32 word, 'u) handler" where
  "server_handler url_Parse cfg sv =
     NewHandler url_Parse (sv_pool sv)
       \<lparr>hc_PSK = sv_psk sv, hc_Static = sv_static sv, hc_Path = s_Path cfg, hc_Gw = sv_gw sv,
        hc_DNS = s_DNS cfg, hc_Decoy = s_Decoy cfg,
        hc_Pad = \<lparr>BurstRecords = 0, BurstMin = 0, BurstMax = 0, SteadyMax = 0\<rparr>, hc_Replay = None\<rparr>"

section \<open>Routing\<close>

record 'u server =
  srv_handler :: "(ip_pool, 32 word, 'u) handler"
  srv_routes :: "32 word \<Rightarrow> nat option"      \<comment> \<open>Server.sessions: address to tunnel\<close>
  srv_tun :: "bytes list"                    \<comment> \<open>packets written to the device\<close>

definition server_register :: "32 word \<Rightarrow> nat \<Rightarrow> 'u server \<Rightarrow> 'u server" where
  "server_register ip tid s = s\<lparr>srv_routes := (srv_routes s)(ip \<mapsto> tid)\<rparr>"

definition server_unregister :: "32 word \<Rightarrow> nat \<Rightarrow> 'u server \<Rightarrow> 'u server" where
  "server_unregister ip tid s =
     (if srv_routes s ip = Some tid then s\<lparr>srv_routes := (srv_routes s)(ip := None)\<rparr> else s)"

abbreviation srv_on :: "nat \<Rightarrow> (tunnel \<Rightarrow> tunnel) \<Rightarrow> 'u server \<Rightarrow> 'u server" where
  "srv_on tid f s \<equiv> s\<lparr>srv_handler := on_tunnel ipPool_release tid f (srv_handler s)\<rparr>"

abbreviation srv_tunnel :: "'u server \<Rightarrow> nat \<Rightarrow> tunnel" where
  "srv_tunnel s tid \<equiv> h_tunnels (srv_handler s) ! tid"

text \<open>One round of dispatch for a packet read from the device.\<close>

definition server_dispatch :: "bytes \<Rightarrow> write_env \<Rightarrow> 'u server \<Rightarrow> 'u server" where
  "server_dispatch p env s =
     (case ipv4Dst p of
        None \<Rightarrow> s
      | Some dst \<Rightarrow>
          (case srv_routes s dst of
             None \<Rightarrow> s
           | Some tid \<Rightarrow>
               let r = fst (Tunnel_WritePacket p env (srv_tunnel s tid));
                   s1 = srv_on tid (\<lambda>t. snd (Tunnel_WritePacket p env t)) s
               in if isl r then srv_on tid Tunnel_Close s1 else s1))"

text \<open>One tick of keepalive: whether it stops, and the server.\<close>

definition server_keepalive :: "write_env \<Rightarrow> nat \<Rightarrow> 'u server \<Rightarrow> bool \<times> 'u server" where
  "server_keepalive env tid s =
     (let r = fst (Tunnel_WriteKeepalive env (srv_tunnel s tid));
          s1 = srv_on tid (\<lambda>t. snd (Tunnel_WriteKeepalive env t)) s
      in if r \<noteq> None then (True, srv_on tid Tunnel_Close s1) else (False, s1))"

text \<open>
  The loop of handleConn, until the tunnel has no packet ready, is dead, or the device
  refuses a packet (\<open>dev_ok\<close>).
\<close>

datatype pump_end = PumpWaits | PumpTunnelDead | PumpWriteFailed

function pump :: "(bytes \<Rightarrow> bool) \<Rightarrow> tunnel \<Rightarrow> bytes list \<times> pump_end \<times> tunnel" where
  "pump dev_ok t =
     (case Tunnel_ReadPacket t of
        (TunnelBlocked, t') \<Rightarrow> ([], PumpWaits, t')
      | (TunnelEOF e, t') \<Rightarrow> ([], PumpTunnelDead, t')
      | (TunnelPacket p, t') \<Rightarrow>
          if dev_ok p then (let (ps, e, t'') = pump dev_ok t' in (p # ps, e, t''))
          else ([], PumpWriteFailed, t'))"
  by pat_completeness auto
termination
  by (relation "measure (\<lambda>(d, t). length (inbound t))")
    (auto simp: Tunnel_ReadPacket_def split: list.splits if_splits)

declare pump.simps [simp del]

text \<open>
  handleConn from its start: the address is parsed and registered, the loop runs, and on its
  end the address is unregistered; while it waits the registration stays. Nothing for an
  address that does not parse.
\<close>

definition server_handleConn :: "(bytes \<Rightarrow> bool) \<Rightarrow> nat \<Rightarrow> Assignment \<Rightarrow> 'u server \<Rightarrow> pump_end option \<times> 'u server" where
  "server_handleConn dev_ok tid asg s =
     (case parseHostIP (asg_Addr asg) of
        None \<Rightarrow> (None, s)
      | Some ip \<Rightarrow>
          let s1 = server_register ip tid s;
              (ps, e, t') = pump dev_ok (srv_tunnel s1 tid);
              s2 = (srv_on tid (\<lambda>_. t') s1)\<lparr>srv_tun := srv_tun s1 @ ps\<rparr>
          in (Some e, if e = PumpWaits then s2 else server_unregister ip tid s2))"

lemma pump_result:
  "pump dev_ok t = (ps, e, t') \<Longrightarrow>
     (\<exists>k. t' = t\<lparr>inbound := drop k (inbound t)\<rparr> \<and> ps = takeWhile dev_ok (inbound t))
     \<and> (e = PumpWriteFailed \<longleftrightarrow> \<not> list_all dev_ok (inbound t))
     \<and> (e = PumpTunnelDead \<longleftrightarrow> list_all dev_ok (inbound t) \<and> dead t)"
proof (induction dev_ok t arbitrary: ps e t' rule: pump.induct)
  case (1 dev_ok t)
  show ?case
  proof (cases "inbound t")
    case Nil
    with "1.prems" show ?thesis
      by (auto simp: pump.simps [of dev_ok t] Tunnel_ReadPacket_def split: if_splits intro: exI [of _ 0])
  next
    case (Cons p qs)
    let ?u = "t\<lparr>inbound := qs\<rparr>"
    have r: "Tunnel_ReadPacket t = (TunnelPacket p, ?u)" using Cons by (simp add: Tunnel_ReadPacket_def)
    show ?thesis
    proof (cases "dev_ok p")
      case False
      with "1.prems" r Cons show ?thesis
        by (auto simp: pump.simps [of dev_ok t] intro: exI [of _ 1])
    next
      case True
      obtain ps' where rec: "pump dev_ok ?u = (ps', e, t')" "ps = p # ps'"
        using "1.prems" r True by (auto simp: pump.simps [of dev_ok t] split: prod.splits)
      from "1.IH" [OF r [symmetric] refl True rec(1)] obtain k where
        "t' = ?u\<lparr>inbound := drop k qs\<rparr>" "ps' = takeWhile dev_ok qs"
        "e = PumpWriteFailed \<longleftrightarrow> \<not> list_all dev_ok qs" "e = PumpTunnelDead \<longleftrightarrow> list_all dev_ok qs \<and> dead t"
        by auto
      then show ?thesis using rec(2) True Cons by (intro conjI exI [of _ "Suc k"]) simp_all
    qed
  qed
qed

section \<open>Sessions and addresses\<close>

type_synonym 'u srv_handler = "(ip_pool, 32 word, 'u) handler"

definition live_ids :: "'u srv_handler \<Rightarrow> nat set" where
  "live_ids h = {i. i < length (h_tunnels h) \<and> \<not> dead (h_tunnels h ! i)}"

definition lease_of :: "'u srv_handler \<Rightarrow> nat \<Rightarrow> 32 word" where
  "lease_of h i = snd (h_owner h ! i)"

text \<open>The addresses out are those of the live tunnels, one each, and sessions hand out theirs.\<close>

definition addresses_ok :: "32 word set \<Rightarrow> 'u srv_handler \<Rightarrow> bool" where
  "addresses_ok all h \<longleftrightarrow> handler_ok h \<and> pool_ok (h_pool h)
     \<and> used (h_pool h) = lease_of h ` live_ids h \<and> inj_on (lease_of h) (live_ids h)
     \<and> set (free (h_pool h)) \<union> used (h_pool h) = all
     \<and> (\<forall>sid s. map_of (h_sessions h) sid = Some s \<longrightarrow>
          asg_Addr (ss_assign s) = addr_text (lease_of h (ss_tun s)) (pool_prefix (h_pool h)))"

text \<open>What does not touch sessions, owners, pool and liveness keeps it.\<close>

lemma addresses_frame:
  assumes "addresses_ok all h" "handler_ok h'"
    and "h_sessions h' = h_sessions h" "h_owner h' = h_owner h" "h_pool h' = h_pool h"
    and "live_ids h' = live_ids h"
  shows "addresses_ok all h'"
proof -
  have "lease_of h' = lease_of h" using assms(4) by (simp add: lease_of_def fun_eq_iff)
  with assms show ?thesis unfolding addresses_ok_def by (simp only:) blast
qed

lemma live_ids_update:
  "i < length (h_tunnels h) \<Longrightarrow> dead t = dead (h_tunnels h ! i) \<Longrightarrow>
     live_ids (h\<lparr>h_tunnels := (h_tunnels h)[i := t], h_nconn := n\<rparr>) = live_ids h"
  "i < length (h_tunnels h) \<Longrightarrow> dead t = dead (h_tunnels h ! i) \<Longrightarrow>
     live_ids (h\<lparr>h_tunnels := (h_tunnels h)[i := t]\<rparr>) = live_ids h"
  by (auto simp: live_ids_def nth_list_update)

lemma join_channel_addresses:
  assumes "addresses_ok all h" "ss_tun sess < length (h_tunnels h)"
    and "0 \<le> ci" "ci < maxChannelsPerSession"
    and "join_channel P rnd up ek sid ci sess h = (res, h')"
  shows "addresses_ok all h'"
proof (cases "h' = h")
  case False
  have ok: "handler_ok h" using assms(1) by (simp add: addresses_ok_def)
  have s: "session_tunnel (h_tunnels h ! ss_tun sess)"
    using ok assms(2) by (auto simp: handler_ok_def)
  from assms(5) False obtain c k where h':
    "h' = h\<lparr>h_tunnels := (h_tunnels h)[ss_tun sess := snd (addChannel ci c (set_conn c k (h_tunnels h ! ss_tun sess)))],
        h_nconn := Suc c\<rparr>"
    by (auto simp: join_channel_def Let_def split: sum.splits option.splits if_splits)
  have "handler_ok h'" by (rule join_channel_ok [OF ok assms(2-5)])
  then show ?thesis
    by (rule addresses_frame [OF assms(1)])
      (simp_all add: h' live_ids_update(1) [OF assms(2) addChannel_tunnel(2) [OF s assms(3,4)]])
qed (use assms in simp)

lemma new_session_addresses:
  assumes "addresses_ok all h" "map_of (h_sessions h) sid = None"
    and "ipPool_alloc (h_pool h) = Some (cidr, ip, p)"
    and "new_session sid cidr ip p h = (sess, h')"
  shows "addresses_ok all h'"
proof -
  let ?n = "length (h_tunnels h)"
  have a: "handler_ok h" "pool_ok (h_pool h)" "used (h_pool h) = lease_of h ` live_ids h"
    "inj_on (lease_of h) (live_ids h)" "set (free (h_pool h)) \<union> used (h_pool h) = all"
    and asgs: "\<And>k s. map_of (h_sessions h) k = Some s \<Longrightarrow>
        asg_Addr (ss_assign s) = addr_text (lease_of h (ss_tun s)) (pool_prefix (h_pool h))"
    using assms(1) by (auto simp: addresses_ok_def)
  have "pool_take (h_pool h) = Some (ip, p)" using assms(3) by (simp add: pool_take_def)
  from pool.take_Some [OF a(2) this] pool.disjoint [OF a(2)]
  have p: "pool_ok p" "ip \<in> set (free (h_pool h))" "set (free p) = set (free (h_pool h)) - {ip}"
    "used p = insert ip (used (h_pool h))" "ip \<notin> used (h_pool h)" by auto
  from assms(4) have sess: "ss_tun sess = ?n" "asg_Addr (ss_assign sess) = cidr"
    and h': "h' = h\<lparr>h_pool := p, h_owner := h_owner h @ [(sid, ip)],
        h_tunnels := h_tunnels h @ [newTunnel (\<lambda>_. zero_conn) True],
        h_sessions := AList.update sid sess (h_sessions h)\<rparr>"
    by (auto simp: new_session_def Let_def)
  have lo: "length (h_owner h) = ?n" using a(1) by (simp add: handler_ok_def)
  have live: "live_ids h' = insert ?n (live_ids h)"
    by (auto simp: live_ids_def h' nth_append newTunnel_def less_Suc_eq)
  have lease: "lease_of h' i = (if i = ?n then ip else lease_of h i)" if "i \<le> ?n" for i
    using that lo by (auto simp: lease_of_def h' nth_append)
  have old: "i < ?n" if "i \<in> live_ids h" for i using that by (simp add: live_ids_def)
  have same: "lease_of h' i = lease_of h i" if "i \<in> live_ids h" for i
    using lease [of i] old [OF that] by simp
  have keep: "lease_of h' ` live_ids h = lease_of h ` live_ids h" by (rule image_cong [OF refl same])
  have new: "lease_of h' ?n = ip" using lease by simp
  have img: "lease_of h' ` live_ids h' = insert ip (lease_of h ` live_ids h)"
    unfolding live image_insert keep new ..
  have inj0: "inj_on (lease_of h') (live_ids h)"
    by (rule iffD2 [OF inj_on_cong [of "live_ids h" "lease_of h'" "lease_of h", OF same] a(4)])
  have "lease_of h' ?n \<notin> lease_of h' ` (live_ids h - {?n})" using p(5) a(3) keep new by auto
  with inj0 have inj: "inj_on (lease_of h') (live_ids h')" unfolding live inj_on_insert by (rule conjI)
  have ok: "handler_ok h'" using new_session_ok [OF a(1) assms(2,4)] by simp
  have t: "cidr = addr_text ip (pool_prefix (h_pool h))" "pool_prefix p = pool_prefix (h_pool h)"
    using alloc_text [OF assms(3)] by simp_all
  have asg: "asg_Addr (ss_assign s) = addr_text (lease_of h' (ss_tun s)) (pool_prefix (h_pool h'))"
    if "map_of (h_sessions h') k = Some s" for k s
  proof -
    from that have "(k = sid \<and> s = sess) \<or> (k \<noteq> sid \<and> map_of (h_sessions h) k = Some s)"
      by (auto simp: h' AList.update_conv' split: if_splits)
    then show ?thesis
    proof
      assume "k = sid \<and> s = sess"
      with lease [of ?n] t sess show ?thesis by (simp add: h')
    next
      assume k: "k \<noteq> sid \<and> map_of (h_sessions h) k = Some s"
      then have lt: "ss_tun s < ?n" using a(1) by (auto simp: handler_ok_def)
      with asgs [of k s] k lease [of "ss_tun s"] t(2) show ?thesis by (simp add: h')
    qed
  qed
  have pool: "h_pool h' = p" by (simp add: h')
  have used: "used p = lease_of h' ` live_ids h'" unfolding p(4) img a(3) ..
  have "set (free p) \<union> used p = all" unfolding p(3,4) a(5) [symmetric] using p(2) by auto
  note all = this
  show ?thesis
    unfolding addresses_ok_def pool
    by (intro conjI allI impI ok p(1) used inj all asg [unfolded pool])
qed

lemma ServeHTTP_addresses:
  assumes "addresses_ok all h" "ServeHTTP P ipPool_alloc now rnd up r h = (res, h')"
  shows "addresses_ok all h'"
proof -
  have ok: "handler_ok h" using assms(1) by (simp add: addresses_ok_def)
  have fr: "addresses_ok all (h\<lparr>h_replay := rf\<rparr>)" for rf
    by (rule addresses_frame [OF assms(1)]) (use ok in \<open>simp_all add: live_ids_def\<close>)
  from assms(2) show ?thesis
  proof (cases rule: ServeHTTP_cases)
    case (refused rf)
    with fr show ?thesis by simp
  next
    case (opens ek sid ci rf cidr l p sess h2)
    have "addresses_ok all h2" "ss_tun sess < length (h_tunnels h2)"
      using new_session_addresses [OF fr _ _ opens(5)] new_session_ok [OF _ _ opens(5)] opens(3,4) ok
      by simp_all
    with join_channel_addresses [OF this] checkAuth_chan [OF opens(1)] opens(6) show ?thesis by blast
  next
    case (joins ek sid ci rf sess)
    have "ss_tun sess < length (h_tunnels (h\<lparr>h_replay := rf\<rparr>))"
      using ok joins(3) by (auto simp: handler_ok_def)
    from join_channel_addresses [OF fr this] checkAuth_chan [OF joins(1)] joins(5) show ?thesis by blast
  qed
qed

lemma on_tunnel_addresses:
  assumes "addresses_ok all h" "tid < length (h_tunnels h)" "tunnel_move f"
  shows "addresses_ok all (on_tunnel ipPool_release tid f h)"
proof -
  let ?t = "h_tunnels h ! tid" and ?h = "on_tunnel ipPool_release tid f h"
  have a: "handler_ok h" "pool_ok (h_pool h)" "used (h_pool h) = lease_of h ` live_ids h"
    "inj_on (lease_of h) (live_ids h)" "set (free (h_pool h)) \<union> used (h_pool h) = all"
    and asgs: "\<And>k s. map_of (h_sessions h) k = Some s \<Longrightarrow>
        asg_Addr (ss_assign s) = addr_text (lease_of h (ss_tun s)) (pool_prefix (h_pool h))"
    using assms(1) by (auto simp: addresses_ok_def)
  have st: "session_tunnel ?t" using a(1) assms(2) by (auto simp: handler_ok_def)
  note e = emptied_iff_dies [OF st assms(3)]
  have ok: "handler_ok ?h" by (rule on_tunnel_ok [OF a(1) assms(2,3)])
  show ?thesis
  proof (cases "emptied (f ?t) > emptied ?t")
    case False
    then have "dead (f ?t) = dead ?t" using e by blast
    from live_ids_update(2) [OF assms(2) this] False show ?thesis
      by (intro addresses_frame [OF assms(1) ok]) (simp_all add: on_tunnel_def Let_def)
  next
    case True
    then have d: "dead (f ?t)" "\<not> dead ?t" using e by blast+
    obtain sid l where o: "h_owner h ! tid = (sid, l)" by fastforce
    have h: "?h = h\<lparr>h_tunnels := (h_tunnels h)[tid := f ?t], h_sessions := AList.delete sid (h_sessions h),
        h_pool := ipPool_release l (h_pool h)\<rparr>"
      using True by (simp add: on_tunnel_def session_onEmpty_def o Let_def)
    have lv: "tid \<in> live_ids h" "lease_of h tid = l" using assms(2) d(2) o
      by (simp_all add: live_ids_def lease_of_def)
    then have "l \<in> used (h_pool h)" using a(3) by auto
    note g = pool.give [OF a(2) this]
    have live: "live_ids ?h = live_ids h - {tid}"
      using d(1) assms(2) by (auto simp: live_ids_def h nth_list_update)
    have lease: "lease_of ?h = lease_of h" by (simp add: lease_of_def h fun_eq_iff)
    have img: "lease_of h ` (live_ids h - {tid}) = lease_of h ` live_ids h - {l}"
      using inj_on_image_set_diff [OF a(4), of "live_ids h" "{tid}"] lv by simp
    have m: "map_of (AList.delete sid (h_sessions h)) = (map_of (h_sessions h))(sid := None)"
      by (rule AList.delete_conv')
    have pre: "pool_prefix (ipPool_release l (h_pool h)) = pool_prefix (h_pool h)"
      by (simp add: ipPool_release_def)
    have "asg_Addr (ss_assign s) = addr_text (lease_of ?h (ss_tun s)) (pool_prefix (h_pool ?h))"
      if "map_of (h_sessions ?h) k = Some s" for k s
      using that asgs [of k s] pre by (auto simp: h m lease [unfolded h] split: if_splits)
    moreover have "used (h_pool ?h) = lease_of ?h ` live_ids ?h"
      unfolding live lease img using g a(3) by (simp add: h)
    moreover have "inj_on (lease_of ?h) (live_ids ?h)"
      unfolding live lease using a(4) by (rule inj_on_subset) blast
    moreover have "set (free (h_pool ?h)) \<union> used (h_pool ?h) = all" "pool_ok (h_pool ?h)"
      using g a(5) \<open>l \<in> used (h_pool h)\<close> by (auto simp: h)
    ultimately show ?thesis using ok unfolding addresses_ok_def by blast
  qed
qed

lemma addresses_run:
  "handler_run P ipPool_alloc ipPool_release h0 h \<Longrightarrow> addresses_ok all h0 \<Longrightarrow> addresses_ok all h"
  by (induction rule: handler_run.induct) (auto intro: ServeHTTP_addresses on_tunnel_addresses)

lemma addresses_init:
  assumes "newIPPool cidr = Inr p" "NewHandler url p cfg = Inr h"
  shows "addresses_ok (set (free p)) h"
proof -
  have "used p = {}" using assms(1) by (auto elim: newIPPool_Inr)
  with NewHandler_ok [OF assms(2)] newIPPool_ok [OF assms(1)] show ?thesis
    by (simp add: addresses_ok_def NewHandler_Inr [OF assms(2)] live_ids_def)
qed

end
