(* ===== verification/Krot_Dial.thy ===== *)
theory Krot_Dial
  imports Krot_Handler
begin

text \<open>
  internal/transport/client.go: dialing one channel and a bonded tunnel; and the two ends
  together: the handler accepts what the client sends, and the connections they make from
  the exchanged messages are in step.

  TCP, TLS (github.com/refraction-networking/utls) and the WebSocket upgrade
  (github.com/gorilla/websocket) are inputs of the dial: whether they succeed, the peer's
  certificates, and the function from the upgrade request to the answer's headers.
\<close>

section \<open>Configuration and environment\<close>

record client_config =
  cc_Path :: string
  cc_PSK :: bytes
  cc_ServerStatic :: bytes
  cc_PinSHA256 :: string
  cc_Channels :: int
  cc_Pad :: pad_policy

record dial_env =
  de_tcp :: bool
  de_tls :: bool
  de_certs :: "bytes list"       \<comment> \<open>the RawSubjectPublicKeyInfo of the peer's certificates\<close>
  de_rnd :: "bytes option"       \<comment> \<open>what the system generator delivers for the private key\<close>
  de_now :: int
  de_upgrade :: "request \<Rightarrow> (string \<times> string) list option"

datatype dial_error =
    TCPDial | TLSHandshake | NoPeerCert | PinMismatch
  | DialCrypto crypto_error
  | UpgradeRejected | BadServerKey | DialKDFPanic | NoSessionId

definition verifyPin :: "bytes list \<Rightarrow> string \<Rightarrow> dial_error option" where
  "verifyPin certs pin =
     (case certs of
        [] \<Rightarrow> Some NoPeerCert
      | spki # _ \<Rightarrow> if StdEncodeToString (sha256 spki) \<noteq> pin then Some PinMismatch else None)"

text \<open>The Cookie header: \<open>%s=%s; %s=%d; %s=%s; %s=%s; %s=%d\<close>.\<close>

definition cookie_header :: "bytes \<Rightarrow> int \<Rightarrow> bytes \<Rightarrow> bytes \<Rightarrow> int \<Rightarrow> string" where
  "cookie_header ephPub ts token sid chanIdx =
     cookieEph @ ''='' @ b64 ephPub @ ''; '' @ cookieTS @ ''='' @ dec_int ts @ ''; ''
     @ cookieAuth @ ''='' @ b64 token @ ''; '' @ cookieSID @ ''='' @ b64 sid @ ''; ''
     @ cookieChan @ ''='' @ dec_int chanIdx"

text \<open>
  The path of a URL as it reaches the server: url.URL's String puts a slash between host
  and path when there is none.
\<close>

definition wire_path :: "string \<Rightarrow> string" where
  "wire_path p = (if p \<noteq> [] \<and> hd p = CHR ''/'' then p else CHR ''/'' # p)"

section \<open>Dialing\<close>

definition lift_err :: "('e \<Rightarrow> 'f) \<Rightarrow> 'e + 'a \<Rightarrow> 'f + 'a" where
  "lift_err f r = (case r of Inl e \<Rightarrow> Inl (f e) | Inr a \<Rightarrow> Inr a)"

lemma lift_err_Inr [simp]: "lift_err f r = Inr a \<longleftrightarrow> r = Inr a"
  by (cases r) (simp_all add: lift_err_def)

text \<open>After the upgrade: the keys and the connection.\<close>

definition finish_dial ::
  "prims \<Rightarrow> client_config \<Rightarrow> keypair \<Rightarrow> bytes \<Rightarrow> int \<Rightarrow> (string \<times> string) list \<Rightarrow>
   dial_error + conn \<times> Assignment" where
  "finish_dial P cfg eph sid chanIdx hdr =
     try_bind (or_err BadServerKey (decodeKey (Header_Get hdr hdrServerEph))) (\<lambda>srvEph.
     try_bind (lift_err DialCrypto (combineDH P (Private eph) srvEph (Private eph) (cc_ServerStatic cfg))) (\<lambda>shared.
     try_bind (or_err DialKDFPanic
         (DeriveSessionKeys P shared (channelSalt (Public eph) srvEph sid chanIdx) True)) (\<lambda>keys.
     let pad = (if BurstRecords (cc_Pad cfg) = 0 \<and> BurstMax (cc_Pad cfg) = 0
                then DefaultPad else cc_Pad cfg) in
     try_bind (lift_err DialCrypto (newConn P (TxKey keys) (RxKey keys) pad)) (\<lambda>conn.
     Inr (conn, \<lparr>asg_Addr = Header_Get hdr hdrAssignAddr, asg_Gw = Header_Get hdr hdrAssignGw,
                 asg_DNS = Header_Get hdr hdrAssignDNS\<rparr>)))))"

definition dial_request :: "client_config \<Rightarrow> keypair \<Rightarrow> int \<Rightarrow> bytes \<Rightarrow> int \<Rightarrow> request" where
  "dial_request cfg eph ts sid chanIdx =
     (let token = authToken (cc_PSK cfg) (Public eph) ts (cc_ServerStatic cfg) sid
      in \<lparr>req_cookies = [cookie_header (Public eph) ts token sid chanIdx],
          req_path = wire_path (cc_Path cfg)\<rparr>)"

definition dialChannel ::
  "prims \<Rightarrow> client_config \<Rightarrow> bytes \<Rightarrow> int \<Rightarrow> dial_env \<Rightarrow> dial_error + conn \<times> Assignment" where
  "dialChannel P cfg sid chanIdx env =
     (if \<not> de_tcp env then Inl TCPDial
      else if \<not> de_tls env then Inl TLSHandshake
      else case (if cc_PinSHA256 cfg \<noteq> [] then verifyPin (de_certs env) (cc_PinSHA256 cfg) else None) of
        Some e \<Rightarrow> Inl e
      | None \<Rightarrow>
          try_bind (lift_err DialCrypto (GenerateKeypair P (de_rnd env))) (\<lambda>eph.
          try_bind (or_err UpgradeRejected
              (de_upgrade env (dial_request cfg eph (de_now env) sid chanIdx))) (\<lambda>hdr.
          finish_dial P cfg eph sid chanIdx hdr)))"

text \<open>
  Dial: channel 0 first, then the rest in parallel; \<open>arrival\<close> is the order in which their
  results come in. A connection's number in the tunnel is its channel index.
\<close>

definition dial_count :: "client_config \<Rightarrow> int" where
  "dial_count cfg = min (max (cc_Channels cfg) 1) maxChannelsPerSession"

definition attach :: "nat \<Rightarrow> (dial_error + conn \<times> Assignment) \<Rightarrow> tunnel \<Rightarrow> tunnel" where
  "attach i res t =
     (case res of
        Inl e \<Rightarrow> t
      | Inr (c, asg) \<Rightarrow> snd (addChannel (int i) i (set_conn i c t)))"

definition Dial ::
  "prims \<Rightarrow> client_config \<Rightarrow> bytes option \<Rightarrow> (nat \<Rightarrow> dial_env) \<Rightarrow> nat list \<Rightarrow>
   dial_error + tunnel \<times> Assignment" where
  "Dial P cfg sid_rnd env arrival =
     try_bind (or_err NoSessionId sid_rnd) (\<lambda>sid.
     try_bind (dialChannel P cfg sid 0 (env 0)) (\<lambda>(c0, asg).
     let t0 = attach 0 (Inr (c0, asg)) (newTunnel (\<lambda>_. zero_conn) False) in
     Inr (fold (\<lambda>i. attach i (dialChannel P cfg sid (int i) (env i)))
            (filter (\<lambda>i. 0 < i \<and> int i < dial_count cfg) arrival) t0, asg)))"

section \<open>The client's request passes the handler's check\<close>

lemma cookie_header_line:
  "cookie_header e ts token sid ci =
     cookie_line [(cookieEph, b64 e), (cookieTS, dec_int ts), (cookieAuth, b64 token),
                  (cookieSID, b64 sid), (cookieChan, dec_int ci)]"
  by (simp add: cookie_header_def cookie_text_def)

lemma names_plain:
  "list_all plain_char cookieEph" "list_all plain_char cookieTS" "list_all plain_char cookieAuth"
  "list_all plain_char cookieSID" "list_all plain_char cookieChan"
  by (simp_all add: wire_names plain_char_def cookie_byte_def)

lemma dial_cookies:
  fixes e token sid :: bytes and ts ci :: int
  defines "ls \<equiv> [cookie_header e ts token sid ci]"
  shows "Request_Cookie ls cookieEph = Some (b64 e)" "Request_Cookie ls cookieTS = Some (dec_int ts)"
    "Request_Cookie ls cookieAuth = Some (b64 token)" "Request_Cookie ls cookieSID = Some (b64 sid)"
    "Request_Cookie ls cookieChan = Some (dec_int ci)"
proof -
  let ?cs = "[(cookieEph, b64 e), (cookieTS, dec_int ts), (cookieAuth, b64 token),
                  (cookieSID, b64 sid), (cookieChan, dec_int ci)]"
  have "list_all (\<lambda>(nm, v). nm \<noteq> [] \<and> list_all plain_char nm \<and> list_all plain_char v) ?cs"
    by (simp add: names_plain b64_plain dec_int_plain) (simp add: wire_names)
  from Request_Cookie_line [OF this] have "Request_Cookie ls k = map_of ?cs k" for k
    by (simp add: ls_def cookie_header_line)
  then show "Request_Cookie ls cookieEph = Some (b64 e)" "Request_Cookie ls cookieTS = Some (dec_int ts)"
    "Request_Cookie ls cookieAuth = Some (b64 token)" "Request_Cookie ls cookieSID = Some (b64 sid)"
    "Request_Cookie ls cookieChan = Some (dec_int ci)"
    by (simp_all add: wire_names)
qed

lemma dial_claim:
  assumes "length (Public eph) = 32" "length sid = 16" "0 \<le> ci" "ci < maxChannelsPerSession"
    and "- (2 ^ 63) \<le> ts" "ts < 2 ^ 63"
    and "hc_PSK scfg = cc_PSK cfg" "Public (hc_Static scfg) = cc_ServerStatic cfg"
    and "now - authWindow \<le> ts" "ts \<le> now + authWindow"
  shows "auth_claim scfg now (dial_request cfg eph ts sid ci) =
     Some (authToken (cc_PSK cfg) (Public eph) ts (cc_ServerStatic cfg) sid, Public eph, sid, ci)"
proof -
  have "- (2 ^ 63) \<le> ci" "ci < 2 ^ 63" using assms(3,4) by (auto simp: maxChannelsPerSession_def)
  with assms show ?thesis
    by (simp add: auth_claim_def dial_request_def dial_cookies Let_def ConstantTimeEqual_iff)
qed

section \<open>The connections of the two ends\<close>

lemma response_header_get:
  "Header_Get (response_header eph asg) hdrServerEph = b64 (Public eph)"
  "Header_Get (response_header eph asg) hdrAssignAddr = asg_Addr asg"
  "Header_Get (response_header eph asg) hdrAssignGw = asg_Gw asg"
  "Header_Get (response_header eph asg) hdrAssignDNS = asg_DNS asg"
  by (simp_all add: Header_Get_def response_header_def wire_names)

lemma Attached_join:
  assumes "join_channel P rnd up ek sid ci sess h = (Attached hdr tid c, h')"
  obtains eph shared keys conn where "GenerateKeypair P rnd = Inr eph"
    "hdr = response_header eph (ss_assign sess)" "tid = ss_tun sess" "c = h_nconn h"
    "combineDH P (Private eph) ek (Private (hc_Static (h_cfg h))) ek = Inr shared"
    "DeriveSessionKeys P shared (channelSalt ek (Public eph) sid ci) False = Some keys"
    "newConn P (TxKey keys) (RxKey keys) (hc_Pad (h_cfg h)) = Inr conn"
    "h' = h\<lparr>h_tunnels := (h_tunnels h)[tid := snd (addChannel ci c (set_conn c conn (h_tunnels h ! tid)))],
        h_nconn := Suc c\<rparr>"
proof -
  from assms obtain eph where e: "GenerateKeypair P rnd = Inr eph"
    by (auto simp: join_channel_def split: sum.splits)
  note r = assms [unfolded join_channel_def e, simplified sum.case Let_def]
  from r obtain shared where s: "combineDH P (Private eph) ek (Private (hc_Static (h_cfg h))) ek = Inr shared"
    by (auto split: sum.splits if_splits)
  from r s obtain keys where k: "DeriveSessionKeys P shared (channelSalt ek (Public eph) sid ci) False = Some keys"
    by (auto split: if_splits option.splits)
  from r s k obtain conn where c: "newConn P (TxKey keys) (RxKey keys) (hc_Pad (h_cfg h)) = Inr conn"
    by (auto split: if_splits sum.splits)
  from r s k c have "hdr = response_header eph (ss_assign sess)" "tid = ss_tun sess" "c = h_nconn h"
    "h' = h\<lparr>h_tunnels := (h_tunnels h)[tid := snd (addChannel ci c (set_conn c conn (h_tunnels h ! tid)))],
        h_nconn := Suc c\<rparr>"
    by (auto split: if_splits)
  with e s k c show thesis by (intro that) auto
qed

lemma addChannel_heap: "heap (snd (addChannel i c t)) = heap t"
  by (simp add: addChannel_def)

text \<open>What the client makes of the answer of a join, and what the server made.\<close>

lemma finish_dial_join:
  assumes x: "x25519_ok P" and ch: "chacha_ok P"
    and srv: "PublicFromPrivate P (Private (hc_Static (h_cfg h))) = Inr (cc_ServerStatic cfg)"
    and cl: "GenerateKeypair P crnd = Inr ceph"
    and tid: "ss_tun sess < length (h_tunnels h)"
    and j: "join_channel P rnd up (Public ceph) sid ci sess h = (Attached hdr tid c, h')"
    and fin: "finish_dial P cfg ceph sid ci hdr = Inr (k, asg)"
  shows "conn_insync k (heap (h_tunnels h' ! tid) c)" and "conn_insync (heap (h_tunnels h' ! tid) c) k"
    and "asg = ss_assign sess"
proof -
  from j obtain eph shared keys conn where e: "GenerateKeypair P rnd = Inr eph"
    and hdr: "hdr = response_header eph (ss_assign sess)" and t: "tid = ss_tun sess"
    and s: "combineDH P (Private eph) (Public ceph) (Private (hc_Static (h_cfg h))) (Public ceph) = Inr shared"
    and d: "DeriveSessionKeys P shared (channelSalt (Public ceph) (Public eph) sid ci) False = Some keys"
    and n: "newConn P (TxKey keys) (RxKey keys) (hc_Pad (h_cfg h)) = Inr conn"
    and h': "h' = h\<lparr>h_tunnels := (h_tunnels h)[tid := snd (addChannel ci c (set_conn c conn (h_tunnels h ! tid)))],
        h_nconn := Suc c\<rparr>"
    by (rule Attached_join)
  have len: "length (Public eph) = 32" using GenerateKeypair_lengths [OF e] by (simp add: KeySize_def)
  have key: "decodeKey (Header_Get hdr hdrServerEph) = Some (Public eph)"
    by (simp add: hdr response_header_get len)
  have "combineDH P (Private ceph) (Public eph) (Private ceph) (cc_ServerStatic cfg) = Inr shared"
    using combineDH_agree [OF x GenerateKeypair_public [OF cl] GenerateKeypair_public [OF e] srv] s by simp
  with fin key obtain keys' pad where
    k: "DeriveSessionKeys P shared (channelSalt (Public ceph) (Public eph) sid ci) True = Some keys'"
    and conn: "newConn P (TxKey keys') (RxKey keys') pad = Inr k"
    and asg: "asg = \<lparr>asg_Addr = Header_Get hdr hdrAssignAddr, asg_Gw = Header_Get hdr hdrAssignGw,
                 asg_DNS = Header_Get hdr hdrAssignDNS\<rparr>"
    by (auto simp: finish_dial_def try_bind_Inr_iff Let_def)
  from d k have mirror: "TxKey keys = RxKey keys'" "RxKey keys = TxKey keys'"
    by (auto simp: DeriveSessionKeys_mirror)
  have hp: "heap (h_tunnels h' ! tid) c = conn"
    using tid t by (simp add: h' addChannel_heap)
  from newConn_insync [OF conn n [unfolded mirror] ch]
  show "conn_insync k (heap (h_tunnels h' ! tid) c)" "conn_insync (heap (h_tunnels h' ! tid) c) k"
    by (simp_all add: hp)
  show "asg = ss_assign sess" by (simp add: asg hdr response_header_get)
qed

text \<open>The answer of the handler as the client's WebSocket library passes it on.\<close>

definition answer :: "served \<Rightarrow> (string \<times> string) list option" where
  "answer s = (case s of Attached hdr tid c \<Rightarrow> Some hdr | ClosedAfterUpgrade hdr \<Rightarrow> Some hdr | _ \<Rightarrow> None)"

lemma dialChannel_Inr:
  assumes "dialChannel P cfg sid ci env = Inr (k, asg)"
  obtains eph hdr where "GenerateKeypair P (de_rnd env) = Inr eph"
    "de_upgrade env (dial_request cfg eph (de_now env) sid ci) = Some hdr"
    "finish_dial P cfg eph sid ci hdr = Inr (k, asg)"
  using assms by (auto simp: dialChannel_def try_bind_Inr_iff split: if_splits option.splits)

text \<open>The handler's work on a request of the client that passes: it joins the client's session.\<close>

lemma ServeHTTP_Attached:
  assumes "ServeHTTP P alloc now rnd up r h = (Attached hdr tid c, h')" "handler_ok h"
  obtains ek sid ci rf sess h2 where
    "Handler_checkAuth (h_cfg h) (h_replay h) now r = (Some (ek, sid, ci), rf)"
    "join_channel P rnd up ek sid ci sess h2 = (Attached hdr tid c, h')"
    "ss_tun sess < length (h_tunnels h2)" "h_cfg h2 = h_cfg h"
  using assms(1)
proof (cases rule: ServeHTTP_cases)
  case (opens ek sid ci rf cidr l p sess h2)
  have "handler_ok (h\<lparr>h_replay := rf\<rparr>)" "map_of (h_sessions (h\<lparr>h_replay := rf\<rparr>)) sid = None"
    using assms(2) opens(3) by simp_all
  from new_session_ok [OF this opens(5)] new_session_replay [OF opens(5)] that [OF opens(1,6)]
  show ?thesis by simp
next
  case (joins ek sid ci rf sess)
  have "ss_tun sess < length (h_tunnels (h\<lparr>h_replay := rf\<rparr>))"
    using assms(2) joins(3) by (auto simp: handler_ok_def)
  from that [OF joins(1,5) this] show ?thesis by simp
qed simp

text \<open>The handler's check returns what the client put in.\<close>

lemma dial_claim_only:
  assumes "auth_claim scfg now (dial_request cfg eph ts sid ci) = Some (tk, ek, sid', ci')"
    and "length (Public eph) = 32" "0 \<le> ci" "ci < maxChannelsPerSession"
  shows "ek = Public eph \<and> sid' = sid \<and> ci' = ci"
proof -
  have "- (2 ^ 63) \<le> ci" "ci < 2 ^ 63" using assms(3,4) by (auto simp: maxChannelsPerSession_def)
  with assms(1,2) show ?thesis
    by (auto simp: auth_claim_def dial_request_def dial_cookies Let_def bind_eq_Some_conv
        split: if_splits)
qed

lemma join_channel_session:
  "join_channel P rnd up ek sid ci sess h = (res, h') \<Longrightarrow> h_sessions h' = h_sessions h"
  by (auto simp: join_channel_def Let_def split: sum.splits option.splits if_splits)

text \<open>Third-party functions that do not fail on inputs of the right size.\<close>

definition prims_total :: "prims \<Rightarrow> bool" where
  "prims_total P \<longleftrightarrow> (\<forall>s salt info. hkdf P s salt info KeySize \<noteq> None)
     \<and> (\<forall>k. length k = KeySize \<longrightarrow> chacha_New P k \<noteq> None)"

lemma DeriveSessionKeys_total:
  "prims_total P \<Longrightarrow> \<exists>k. DeriveSessionKeys P shared salt b = Some k"
proof -
  assume t: "prims_total P"
  then have "\<exists>y. hkdf P shared salt info KeySize = Some y" for info by (auto simp: prims_total_def)
  from this [of "bytes_of infoClientToServer"] this [of "bytes_of infoServerToClient"]
  show ?thesis by (auto simp: DeriveSessionKeys_def HKDF_def)
qed

lemma newConn_total:
  "prims_total P \<Longrightarrow> length k1 = KeySize \<Longrightarrow> length k2 = KeySize \<Longrightarrow> \<exists>c. newConn P k1 k2 pad = Inr c"
proof -
  assume t: "prims_total P" and l: "length k1 = KeySize" "length k2 = KeySize"
  then obtain a b where "chacha_New P k1 = Some a" "chacha_New P k2 = Some b"
    unfolding prims_total_def by (metis option.exhaust)
  then show ?thesis by (simp add: newConn_def NewSealer_def NewOpener_def NewAEADStream_def)
qed

lemma join_channel_total:
  assumes "prims_total P" "GenerateKeypair P rnd = Inr eph"
    and "combineDH P (Private eph) ek (Private (hc_Static (h_cfg h))) ek = Inr shared"
  shows "\<exists>hdr tid c h'. join_channel P rnd True ek sid ci sess h = (Attached hdr tid c, h')
    \<and> hdr = response_header eph (ss_assign sess)"
proof -
  obtain keys where k: "DeriveSessionKeys P shared (channelSalt ek (Public eph) sid ci) False = Some keys"
    using DeriveSessionKeys_total [OF assms(1)] by blast
  from newConn_total [OF assms(1)] DeriveSessionKeys_lengths [OF k] obtain conn where
    "newConn P (TxKey keys) (RxKey keys) (hc_Pad (h_cfg h)) = Inr conn" by blast
  with assms k show ?thesis by (simp add: join_channel_def Let_def)
qed

lemma finish_dial_total:
  assumes "prims_total P" "length (Public seph) = 32"
    and "combineDH P (Private eph) (Public seph) (Private eph) (cc_ServerStatic cfg) = Inr shared"
  shows "\<exists>k asg'. finish_dial P cfg eph sid ci (response_header seph asg) = Inr (k, asg')"
proof -
  obtain keys where k: "DeriveSessionKeys P shared (channelSalt (Public eph) (Public seph) sid ci) True = Some keys"
    using DeriveSessionKeys_total [OF assms(1)] by blast
  from newConn_total [OF assms(1)] DeriveSessionKeys_lengths [OF k]
  have "\<exists>c. newConn P (TxKey keys) (RxKey keys) pad = Inr c" for pad by blast
  then obtain f where "\<And>pad. newConn P (TxKey keys) (RxKey keys) pad = Inr (f pad)" by metis
  with assms k show ?thesis by (simp add: finish_dial_def response_header_get lift_err_def Let_def)
qed

section \<open>Properties\<close>

text \<open>A client that belongs to a server: same pre-shared key, the server's key pair, its path.\<close>

definition belongs :: "prims \<Rightarrow> client_config \<Rightarrow> handler_config \<Rightarrow> bool" where
  "belongs P cfg scfg \<longleftrightarrow> hc_PSK scfg = cc_PSK cfg \<and> Public (hc_Static scfg) = cc_ServerStatic cfg
     \<and> PublicFromPrivate P (Private (hc_Static scfg)) = Inr (cc_ServerStatic cfg)
     \<and> wire_path (cc_Path cfg) = hc_Path scfg"

text \<open>The handler has room for a channel of the session.\<close>

definition has_room :: "('p \<Rightarrow> (string \<times> 'l \<times> 'p) option) \<Rightarrow> bytes \<Rightarrow> ('p, 'l, 'u) handler \<Rightarrow> bool" where
  "has_room alloc sid h \<longleftrightarrow>
     (case map_of (h_sessions h) sid of
        None \<Rightarrow> alloc (h_pool h) \<noteq> None
      | Some s \<Rightarrow> int (channelCount (h_tunnels h ! ss_tun s)) < maxChannelsPerSession)"

lemma ServeHTTP_accepts:
  assumes "Handler_checkAuth (h_cfg h) (h_replay h) now r = (Some (ek, sid, ci), rf)"
    and "req_path r = hc_Path (h_cfg h)" "has_room alloc sid h" "handler_ok h"
  shows "\<exists>sess h2. ServeHTTP P alloc now rnd up r h = join_channel P rnd up ek sid ci sess h2
    \<and> ss_tun sess < length (h_tunnels h2) \<and> h_cfg h2 = h_cfg h
    \<and> map_of (h_sessions h2) sid = Some sess"
proof (cases "map_of (h_sessions h) sid")
  case None
  with assms(3) obtain cidr l p where al: "alloc (h_pool h) = Some (cidr, l, p)"
    by (auto simp: has_room_def)
  obtain sess h2 where n: "new_session sid cidr l p (h\<lparr>h_replay := rf\<rparr>) = (sess, h2)" by fastforce
  have "handler_ok (h\<lparr>h_replay := rf\<rparr>)" "map_of (h_sessions (h\<lparr>h_replay := rf\<rparr>)) sid = None"
    using assms(4) None by simp_all
  from new_session_ok [OF this n] have "ss_tun sess < length (h_tunnels h2)" by blast
  moreover have "map_of (h_sessions h2) sid = Some sess" "h_cfg h2 = h_cfg h"
    using n by (auto simp: new_session_def Let_def AList.update_conv')
  moreover have "ServeHTTP P alloc now rnd up r h = join_channel P rnd up ek sid ci sess h2"
    using assms(1,2) None al n by (simp add: ServeHTTP_def Let_def)
  ultimately show ?thesis by blast
next
  case (Some sess)
  then have "ss_tun sess < length (h_tunnels h)" using assms(4) by (auto simp: handler_ok_def)
  moreover have "ServeHTTP P alloc now rnd up r h = join_channel P rnd up ek sid ci sess (h\<lparr>h_replay := rf\<rparr>)"
    using assms(1-3) Some by (simp add: ServeHTTP_def Let_def has_room_def)
  ultimately show ?thesis using Some by (intro exI [of _ sess] exI [of _ "h\<lparr>h_replay := rf\<rparr>"]) simp
qed


section \<open>A sample server and client\<close>

definition sample_hcfg :: handler_config where
  "sample_hcfg = \<lparr>hc_PSK = sample_key 5, hc_Static = \<lparr>Private = sample_key 3, Public = sample_key 12\<rparr>,
     hc_Path = ''/ws'', hc_Gw = ''10.8.0.1'', hc_DNS = '''', hc_Decoy = '''', hc_Pad = DefaultPad,
     hc_Replay = None\<rparr>"

definition sample_handler :: "(unit, unit, unit) handler" where
  "sample_handler = \<lparr>h_cfg = sample_hcfg, h_decoy = ItWorks, h_replay = NewReplayFilter 240000000000,
     h_sessions = [], h_pool = (), h_tunnels = [], h_owner = [], h_nconn = 0\<rparr>"

definition sample_alloc :: "unit \<Rightarrow> (string \<times> unit \<times> unit) option" where
  "sample_alloc p = Some (''10.8.0.2/24'', (), p)"

definition sample_ccfg :: client_config where
  "sample_ccfg = \<lparr>cc_Path = ''/ws'', cc_PSK = sample_key 5, cc_ServerStatic = sample_key 12,
     cc_PinSHA256 = '''', cc_Channels = 1,
     cc_Pad = \<lparr>BurstRecords = 0, BurstMin = 0, BurstMax = 0, SteadyMax = 0\<rparr>\<rparr>"

definition sample_eph :: keypair where
  "sample_eph = \<lparr>Private = sample_key 1, Public = sample_key 10\<rparr>"

definition sample_sid :: bytes where
  "sample_sid = replicate 16 7"

definition sample_request :: request where
  "sample_request = dial_request sample_ccfg sample_eph 1000 sample_sid 0"

definition sample_token :: bytes where
  "sample_token = authToken (sample_key 5) (sample_key 10) 1000 (sample_key 12) sample_sid"

definition sample_dial_env :: dial_env where
  "sample_dial_env = \<lparr>de_tcp = True, de_tls = True, de_certs = [], de_rnd = Some (sample_key 1), de_now = 1000,
     de_upgrade = (\<lambda>r. answer (fst (ServeHTTP sample_prims sample_alloc 1000 (Some (sample_key 2)) True r sample_handler)))\<rparr>"

lemma sample_handler: "NewHandler (\<lambda>_. None) () sample_hcfg = Inr sample_handler"
  by (simp add: NewHandler_def sample_hcfg_def sample_handler_def KeySize_def sample_key_def
      DefaultPad_def buildDecoy_def authWindow_def)

lemma sample_claim:
  assumes "880 \<le> now" "now \<le> 1120"
  shows "auth_claim sample_hcfg now sample_request = Some (sample_token, sample_key 10, sample_sid, 0)"
  using dial_claim [of sample_eph sample_sid 0 1000 sample_hcfg sample_ccfg now] assms
  by (simp add: sample_request_def sample_eph_def sample_sid_def sample_key_def maxChannelsPerSession_def
      sample_hcfg_def sample_ccfg_def authWindow_def sample_token_def)

lemma sample_belongs: "belongs sample_prims sample_ccfg sample_hcfg"
  using sample_public [of 3] by (simp add: belongs_def sample_ccfg_def sample_hcfg_def wire_path_def)

lemma sample_prims_total: "prims_total sample_prims"
  by (simp add: prims_total_def sample_prims_def KeySize_def)

lemma sample_fresh: "fst (ReplayFilter_Check (NewReplayFilter d) now token)"
  using Check_rejects_iff [of "NewReplayFilter d" now token]
  by (auto simp: NewReplayFilter_def Let_def)


theorem only_authenticated_requests_are_served_witness:
  "ServeHTTP sample_prims sample_alloc 0 None True \<lparr>req_cookies = [], req_path = ''/''\<rparr> sample_handler
     = (Decoy, sample_handler)"
proof -
  obtain res h' where s: "ServeHTTP sample_prims sample_alloc 0 None True
      \<lparr>req_cookies = [], req_path = ''/''\<rparr> sample_handler = (res, h')" by fastforce
  have "auth_claim (h_cfg sample_handler) 0 \<lparr>req_cookies = [], req_path = ''/''\<rparr> = None"
    by (simp add: auth_claim_def Request_Cookie_def)
  with only_authenticated_requests_are_served [OF s] s show ?thesis by simp
qed

theorem sessions_are_live_tunnels_witness:
  "list_all (\<lambda>t. channelCount t \<le> 16) (h_tunnels (snd (ServeHTTP sample_prims sample_alloc 1000
     (Some (sample_key 2)) True sample_request sample_handler)))"
proof -
  obtain res h' where s: "ServeHTTP sample_prims sample_alloc 1000 (Some (sample_key 2)) True
      sample_request sample_handler = (res, h')" by fastforce
  have "handler_run sample_prims sample_alloc (\<lambda>_ p. p) sample_handler h'"
    using handler_run.request [OF handler_run.start s] .
  from sessions_are_live_tunnels [OF sample_handler this] s show ?thesis by (simp add: list_all_length)
qed

lemma sample_accept_first:
  "Handler_checkAuth sample_hcfg (NewReplayFilter 240000000000) 880 sample_request =
     (Some (sample_key 10, sample_sid, 0), \<lparr>seen = [sample_token \<mapsto> 1120], ttl = 240, lastGC = 880\<rparr>)"
  by (simp add: Handler_checkAuth_def sample_claim ReplayFilter_Check_def NewReplayFilter_def sweep_def)

theorem replay_only_at_240_seconds_witness: "(1120 :: int) = 880 + 240"
proof (rule replay_only_at_240_seconds [OF sample_handler, of "[]" 880 sample_request _ "[]"])
  show "hc_Replay sample_hcfg = None" by (simp add: sample_hcfg_def)
  show "snd (Handler_checkAuth sample_hcfg (auth_run sample_hcfg (h_replay sample_handler) []) 880 sample_request)
      = \<lparr>seen = [sample_token \<mapsto> 1120], ttl = 240, lastGC = 880\<rparr>"
    "fst (Handler_checkAuth sample_hcfg (auth_run sample_hcfg (h_replay sample_handler) []) 880 sample_request) \<noteq> None"
    by (simp_all add: sample_accept_first sample_handler_def)
  show "\<forall>(t, q) \<in> set []. t \<le> (1120 :: int)" by simp
  show "fst (Handler_checkAuth sample_hcfg (auth_run sample_hcfg
      \<lparr>seen = [sample_token \<mapsto> 1120], ttl = 240, lastGC = 880\<rparr> []) 1120 sample_request) \<noteq> None"
    by (simp add: Handler_checkAuth_def sample_claim ReplayFilter_Check_def sweep_def)
qed

theorem replay_accepted_at_window_edge_witness:
  "fst (Handler_checkAuth sample_hcfg \<lparr>seen = [sample_token \<mapsto> 1120], ttl = 240, lastGC = 880\<rparr> 1120 sample_request)
     = Some (sample_key 10, sample_sid, 0)"
proof -
  have "hc_Replay sample_hcfg = None" by (simp add: sample_hcfg_def)
  from replay_accepted_at_window_edge [OF sample_handler this, of 880 sample_request]
  show ?thesis by (simp add: sample_claim sample_accept_first sample_handler_def)
qed

section \<open>A bonded tunnel\<close>

lemma update_new: "k \<notin> fst ` set al \<Longrightarrow> set (AList.update k v al) = insert (k, v) (set al)"
  by (induction al) auto

lemma attach_fields:
  assumes "\<not> t_closed t" "int i \<notin> fst ` set (channels t)"
  shows "set (channels (attach i res t)) = set (channels t) \<union> (if isl res then {} else {(int i, i)})"
    and "\<not> t_closed (attach i res t)"
    and "heap (attach i res t) = (case res of Inl e \<Rightarrow> heap t | Inr (c, a) \<Rightarrow> (heap t)(i := c))"
  using assms by (auto simp: attach_def addChannel_def update_new split: sum.splits)

lemma attach_ok: "tunnel_ok t \<Longrightarrow> tunnel_ok (attach i res t)"
  by (auto simp: attach_def addChannel_ok split: sum.splits)

lemma attach_fold:
  "\<not> t_closed t \<Longrightarrow> distinct js \<Longrightarrow> \<forall>i \<in> set js. int i \<notin> fst ` set (channels t) \<Longrightarrow>
   set (channels (fold (\<lambda>i. attach i (f i)) js t))
       = set (channels t) \<union> (\<lambda>i. (int i, i)) ` {i \<in> set js. \<not> isl (f i)}
   \<and> (\<forall>i c a. i \<in> set js \<longrightarrow> f i = Inr (c, a) \<longrightarrow> heap (fold (\<lambda>i. attach i (f i)) js t) i = c)
   \<and> (\<forall>i. i \<notin> set js \<longrightarrow> heap (fold (\<lambda>i. attach i (f i)) js t) i = heap t i)"
proof (induction js arbitrary: t)
  case (Cons j js)
  note a = attach_fields [of t j "f j"]
  have "\<forall>i \<in> set js. int i \<notin> fst ` set (channels (attach j (f j) t))"
    using Cons.prems a(1) by auto
  with Cons.IH [of "attach j (f j) t"] Cons.prems a
  show ?case by (auto split: sum.splits)
qed simp

lemma attach_fold_ok: "tunnel_ok t \<Longrightarrow> tunnel_ok (fold (\<lambda>i. attach i (f i)) js t)"
  by (induction js arbitrary: t) (auto simp: attach_ok)

lemma bonded_count:
  assumes "tunnel_ok t" and chans: "set (channels t) = (\<lambda>i. (int i, i)) ` {i. int i < d \<and> Q i}"
    and "Q 0" "1 \<le> d" "d \<le> 16"
  shows "1 \<le> channelCount t" "channelCount t \<le> 16" "\<not> dead t"
proof -
  from assms(1) have "distinct (map fst (channels t))" by (simp add: tunnel_ok_def tunnel_inv_def)
  then have "distinct (channels t)" by (simp add: distinct_map)
  then have len: "channelCount t = card {i. int i < d \<and> Q i}"
    unfolding channelCount_def by (subst distinct_card [symmetric], assumption, unfold chans)
      (rule card_image, simp add: inj_on_def)
  have sub: "{i. int i < d \<and> Q i} \<subseteq> {..<16}" using assms(5) by auto
  then show "channelCount t \<le> 16" using card_mono [OF _ sub] by (simp add: len)
  have zero: "0 \<in> {i. int i < d \<and> Q i}" using assms(3,4) by simp
  then have "card {i. int i < d \<and> Q i} \<noteq> 0"
    using finite_subset [OF sub finite_lessThan] card_0_eq by blast
  then show "1 \<le> channelCount t" by (simp add: len)
  have "channels t \<noteq> []" using chans zero by force
  then show "\<not> dead t" using assms(1) by (auto simp: tunnel_ok_def dead_inv_def)
qed



end
