(* ===== verification/Krot_Serving.thy ===== *)
theory Krot_Serving
  imports Krot_Server Krot_Dial
begin

text \<open>
  internal/server/server.go with its goroutines: HTTP requests, one handleConn per session
  with its keepalive, and the dispatcher, as steps on the server's state in any order. A step
  is one request, one turn of a loop, or the move of a tunnel that loses a channel or gets a
  packet. The lemmas show which tunnel a packet from the device can reach.
\<close>

section \<open>Steps\<close>

record 'u serving =
  sg_srv :: "'u server"
  sg_starting :: "(nat \<times> Assignment) list"   \<comment> \<open>go OnConn(tun, assign), not yet run\<close>
  sg_running :: "(nat \<times> 32 word) list"        \<comment> \<open>handleConn in its loop, with the address it registered\<close>

text \<open>A request; when it opened a session, handleConn is started for it.\<close>

definition started :: "'u srv_handler \<Rightarrow> 'u srv_handler \<Rightarrow> (nat \<times> Assignment) list" where
  "started h h' =
     (if length (h_tunnels h') = length (h_tunnels h) then []
      else case map_of (h_sessions h') (fst (last (h_owner h'))) of
             None \<Rightarrow> []
           | Some s \<Rightarrow> [(ss_tun s, ss_assign s)])"

definition server_request ::
  "prims \<Rightarrow> int \<Rightarrow> bytes option \<Rightarrow> bool \<Rightarrow> request \<Rightarrow> 'u serving \<Rightarrow> served \<times> 'u serving" where
  "server_request P now rnd up r g =
     (let h = srv_handler (sg_srv g); (res, h') = ServeHTTP P ipPool_alloc now rnd up r h
      in (res, g\<lparr>sg_srv := (sg_srv g)\<lparr>srv_handler := h'\<rparr>, sg_starting := sg_starting g @ started h h'\<rparr>))"

text \<open>The start of handleConn: nothing for an address that does not parse.\<close>

definition conn_start :: "nat \<Rightarrow> Assignment \<Rightarrow> 'u serving \<Rightarrow> 'u serving" where
  "conn_start tid asg g =
     (let g1 = g\<lparr>sg_starting := remove1 (tid, asg) (sg_starting g)\<rparr> in
      case parseHostIP (asg_Addr asg) of
        None \<Rightarrow> g1
      | Some ip \<Rightarrow> g1\<lparr>sg_srv := server_register ip tid (sg_srv g), sg_running := (tid, ip) # sg_running g\<rparr>)"

text \<open>
  One turn of its loop; when it returns, the deferred unregister has run. The result tells
  why it returned.
\<close>

definition conn_turn :: "(bytes \<Rightarrow> bool) \<Rightarrow> nat \<Rightarrow> 32 word \<Rightarrow> 'u serving \<Rightarrow> pump_end option \<times> 'u serving" where
  "conn_turn dev_ok tid ip g =
     (let s = sg_srv g; s' = srv_on tid (\<lambda>t. snd (Tunnel_ReadPacket t)) s;
          leave = (\<lambda>u. g\<lparr>sg_srv := server_unregister ip tid u, sg_running := remove1 (tid, ip) (sg_running g)\<rparr>)
      in case fst (Tunnel_ReadPacket (srv_tunnel s tid)) of
           TunnelBlocked \<Rightarrow> (Some PumpWaits, g)
         | TunnelEOF e \<Rightarrow> (Some PumpTunnelDead, leave s)
         | TunnelPacket p \<Rightarrow>
             if dev_ok p then (None, g\<lparr>sg_srv := s'\<lparr>srv_tun := srv_tun s @ [p]\<rparr>\<rparr>)
             else (Some PumpWriteFailed, leave s'))"

abbreviation sg_tunnels :: "'u serving \<Rightarrow> tunnel list" where
  "sg_tunnels g \<equiv> h_tunnels (srv_handler (sg_srv g))"

inductive serving_step :: "prims \<Rightarrow> 'u serving \<Rightarrow> 'u serving \<Rightarrow> bool" for P :: prims where
  request: "server_request P now rnd up r g = (res, g') \<Longrightarrow> serving_step P g g'"
| start: "(tid, asg) \<in> set (sg_starting g) \<Longrightarrow> serving_step P g (conn_start tid asg g)"
| turn: "(tid, ip) \<in> set (sg_running g) \<Longrightarrow> conn_turn dev_ok tid ip g = (e, g') \<Longrightarrow> serving_step P g g'"
| dispatch: "serving_step P g (g\<lparr>sg_srv := server_dispatch p env (sg_srv g)\<rparr>)"
| keepalive: "(tid, ip) \<in> set (sg_running g) \<Longrightarrow>
    serving_step P g (g\<lparr>sg_srv := snd (server_keepalive env tid (sg_srv g))\<rparr>)"
| channel: "tid < length (sg_tunnels g) \<Longrightarrow> tunnel_move f \<Longrightarrow>
    serving_step P g (g\<lparr>sg_srv := srv_on tid f (sg_srv g)\<rparr>)"

text \<open>From the server that New and NewHandler made.\<close>

definition serving_init :: "'u srv_handler \<Rightarrow> 'u serving" where
  "serving_init h = \<lparr>sg_srv = \<lparr>srv_handler = h, srv_routes = Map.empty, srv_tun = []\<rparr>,
     sg_starting = [], sg_running = []\<rparr>"

inductive serving_run :: "prims \<Rightarrow> 'u serving \<Rightarrow> 'u serving \<Rightarrow> bool" for P :: prims where
  here: "serving_run P g g"
| more: "serving_run P g g' \<Longrightarrow> serving_step P g' g'' \<Longrightarrow> serving_run P g g''"

lemma serving_run_trans: "serving_run P g g' \<Longrightarrow> serving_run P g' g'' \<Longrightarrow> serving_run P g g''"
  by (rotate_tac 1, induction rule: serving_run.induct) (auto intro: serving_run.more)

inductive_cases serving_stepE: "serving_step P g g'"

section \<open>What the moves of a tunnel leave alone\<close>

lemma on_tunnel_fields [simp]:
  "length (h_tunnels (on_tunnel rel tid f h)) = length (h_tunnels h)"
  "h_owner (on_tunnel rel tid f h) = h_owner h"
  "i \<noteq> tid \<Longrightarrow> h_tunnels (on_tunnel rel tid f h) ! i = h_tunnels h ! i"
  "tid < length (h_tunnels h) \<Longrightarrow> h_tunnels (on_tunnel rel tid f h) ! tid = f (h_tunnels h ! tid)"
  by (auto simp: on_tunnel_def session_onEmpty_def Let_def split: prod.splits)

lemma lease_of_on_tunnel [simp]: "lease_of (on_tunnel rel tid f h) i = lease_of h i"
  by (simp add: lease_of_def)

text \<open>A request appends at most one tunnel, that of the session it opened.\<close>

lemma join_channel_fields:
  assumes "join_channel P rnd up ek sid ci sess h = (res, h')"
  shows "length (h_tunnels h') = length (h_tunnels h)" "h_owner h' = h_owner h" "h_sessions h' = h_sessions h"
  using assms by (auto simp: join_channel_def Let_def split: sum.splits option.splits if_splits)

lemma ServeHTTP_appends:
  assumes "ServeHTTP P alloc now rnd up r h = (res, h')" "handler_ok h"
  shows "(length (h_tunnels h') = length (h_tunnels h) \<and> h_owner h' = h_owner h)
    \<or> (\<exists>sid l s. length (h_tunnels h') = Suc (length (h_tunnels h)) \<and> h_owner h' = h_owner h @ [(sid, l)]
         \<and> map_of (h_sessions h') sid = Some s \<and> ss_tun s = length (h_tunnels h))"
  using assms(1)
proof (cases rule: ServeHTTP_cases)
  case (opens ek sid ci rf cidr l p sess h2)
  from opens(5) have "length (h_tunnels h2) = Suc (length (h_tunnels h))"
    "h_owner h2 = h_owner h @ [(sid, l)]" "map_of (h_sessions h2) sid = Some sess"
    "ss_tun sess = length (h_tunnels h)"
    by (auto simp: new_session_def Let_def AList.update_conv')
  with join_channel_fields [OF opens(6)] show ?thesis by auto
next
  case (joins ek sid ci rf sess)
  from join_channel_fields [OF joins(5)] show ?thesis by simp
qed simp

lemma started_cases:
  assumes "ServeHTTP P ipPool_alloc now rnd up r h = (res, h')" "addresses_ok all h"
  obtains "started h h' = []" "length (h_tunnels h') = length (h_tunnels h)"
  | asg where "started h h' = [(length (h_tunnels h), asg)]"
      "length (h_tunnels h') = Suc (length (h_tunnels h))"
      "parseHostIP (asg_Addr asg) = Some (lease_of h' (length (h_tunnels h)))"
proof -
  have ok: "handler_ok h" using assms(2) by (simp add: addresses_ok_def)
  from ServeHTTP_appends [OF assms(1) ok] show thesis
  proof (elim disjE exE conjE)
    assume "length (h_tunnels h') = length (h_tunnels h)"
    with that(1) show thesis by (simp add: started_def)
  next
    fix sid l s
    assume s: "length (h_tunnels h') = Suc (length (h_tunnels h))" "h_owner h' = h_owner h @ [(sid, l)]"
      "map_of (h_sessions h') sid = Some s" "ss_tun s = length (h_tunnels h)"
    have "asg_Addr (ss_assign s) = addr_text (lease_of h' (ss_tun s)) (pool_prefix (h_pool h'))"
      using ServeHTTP_addresses [OF assms(2,1)] s(3) by (simp add: addresses_ok_def)
    with s that(2) [of "ss_assign s"] show thesis by (simp add: started_def)
  qed
qed

lemma ServeHTTP_lease:
  assumes "ServeHTTP P ipPool_alloc now rnd up r h = (res, h')" "handler_ok h" "i < length (h_tunnels h)"
  shows "lease_of h' i = lease_of h i" "i < length (h_tunnels h')"
proof -
  have "length (h_owner h) = length (h_tunnels h)" using assms(2) by (simp add: handler_ok_def)
  with ServeHTTP_appends [OF assms(1,2)] assms(3)
  show "lease_of h' i = lease_of h i" "i < length (h_tunnels h')"
    by (auto simp: lease_of_def nth_append)
qed

section \<open>The invariant\<close>

text \<open>
  Besides the leases: a route belongs to a running handleConn, handleConn runs once per
  tunnel, and each knows the address its tunnel leases.
\<close>

definition serving_ok :: "32 word set \<Rightarrow> 'u serving \<Rightarrow> bool" where
  "serving_ok all g \<longleftrightarrow>
     addresses_ok all (srv_handler (sg_srv g))
     \<and> (\<forall>ip tid. srv_routes (sg_srv g) ip = Some tid \<longrightarrow> (tid, ip) \<in> set (sg_running g))
     \<and> (\<forall>(tid, asg) \<in> set (sg_starting g). tid < length (sg_tunnels g)
          \<and> parseHostIP (asg_Addr asg) = Some (lease_of (srv_handler (sg_srv g)) tid))
     \<and> (\<forall>(tid, ip) \<in> set (sg_running g). tid < length (sg_tunnels g)
          \<and> lease_of (srv_handler (sg_srv g)) tid = ip)
     \<and> distinct (map fst (sg_starting g) @ map fst (sg_running g))"

lemma serving_handler: "serving_ok all g \<Longrightarrow> handler_ok (srv_handler (sg_srv g))"
  by (simp add: serving_ok_def addresses_ok_def)

lemma serving_running:
  "serving_ok all g \<Longrightarrow> (tid, ip) \<in> set (sg_running g) \<Longrightarrow>
     tid < length (sg_tunnels g) \<and> lease_of (srv_handler (sg_srv g)) tid = ip"
  by (auto simp: serving_ok_def)

lemma serving_starting:
  "serving_ok all g \<Longrightarrow> (tid, asg) \<in> set (sg_starting g) \<Longrightarrow>
     parseHostIP (asg_Addr asg) = Some (lease_of (srv_handler (sg_srv g)) tid) \<and> tid < length (sg_tunnels g)"
  by (auto simp: serving_ok_def)

lemma serving_route:
  assumes "serving_ok all g" "srv_routes (sg_srv g) ip = Some tid"
  shows "tid < length (sg_tunnels g) \<and> lease_of (srv_handler (sg_srv g)) tid = ip"
proof -
  have "(tid, ip) \<in> set (sg_running g)" using assms by (simp add: serving_ok_def)
  with assms(1) show ?thesis by (rule serving_running)
qed

text \<open>A tunnel moves.\<close>

lemma serving_frame:
  assumes "serving_ok all g" "addresses_ok all (srv_handler s)" "srv_routes s = srv_routes (sg_srv g)"
    and "length (h_tunnels (srv_handler s)) = length (sg_tunnels g)"
    and "lease_of (srv_handler s) = lease_of (srv_handler (sg_srv g))"
  shows "serving_ok all (g\<lparr>sg_srv := s\<rparr>)"
  using assms(1,2) by (simp add: serving_ok_def assms(3-5))

lemma serving_on:
  assumes "serving_ok all g" "tid < length (sg_tunnels g)" "tunnel_move f"
  shows "serving_ok all (g\<lparr>sg_srv := (srv_on tid f (sg_srv g))\<lparr>srv_tun := w\<rparr>\<rparr>)"
    and "serving_ok all (g\<lparr>sg_srv := srv_on tid f (sg_srv g)\<rparr>)"
proof -
  have "addresses_ok all (srv_handler (sg_srv g))" using assms(1) by (simp add: serving_ok_def)
  from on_tunnel_addresses [OF this assms(2,3)]
  show "serving_ok all (g\<lparr>sg_srv := (srv_on tid f (sg_srv g))\<lparr>srv_tun := w\<rparr>\<rparr>)"
    "serving_ok all (g\<lparr>sg_srv := srv_on tid f (sg_srv g)\<rparr>)"
    by (auto intro!: serving_frame [OF assms(1)] simp: fun_eq_iff)
qed

text \<open>handleConn returns.\<close>

lemma serving_leave:
  assumes "serving_ok all g" "(tid, ip) \<in> set (sg_running g)"
  shows "serving_ok all (g\<lparr>sg_srv := server_unregister ip tid (sg_srv g),
           sg_running := remove1 (tid, ip) (sg_running g)\<rparr>)" (is "serving_ok all ?g")
proof -
  have d: "distinct (map fst (sg_running g))" "distinct (map fst (sg_starting g))"
    "set (map fst (sg_starting g)) \<inter> set (map fst (sg_running g)) = {}"
    using assms(1) by (simp_all add: serving_ok_def)
  have run: "set (remove1 (tid, ip) (sg_running g)) = set (sg_running g) - {(tid, ip)}"
    using d(1) by (simp add: distinct_map set_remove1_eq)
  have d': "distinct (map fst (remove1 (tid, ip) (sg_running g)))"
    using d(1) by (simp add: distinct_map inj_on_def run distinct_remove1)
  have h: "srv_handler (server_unregister ip tid (sg_srv g)) = srv_handler (sg_srv g)"
    by (simp add: server_unregister_def)
  have routes: "srv_routes (server_unregister ip tid (sg_srv g)) a = Some t \<Longrightarrow>
      srv_routes (sg_srv g) a = Some t \<and> (t, a) \<noteq> (tid, ip)" for a t
    by (auto simp: server_unregister_def split: if_splits)
  have rt: "\<forall>a t. srv_routes (sg_srv g) a = Some t \<longrightarrow> (t, a) \<in> set (sg_running g)"
    using assms(1) by (simp add: serving_ok_def)
  have sub: "set (map fst (remove1 (tid, ip) (sg_running g))) \<subseteq> set (map fst (sg_running g))"
    using set_remove1_subset by fastforce
  have "\<forall>a t. srv_routes (sg_srv ?g) a = Some t \<longrightarrow> (t, a) \<in> set (sg_running ?g)"
    using routes rt by (auto simp: run)
  moreover have "distinct (map fst (sg_starting ?g) @ map fst (sg_running ?g))"
    using d(2,3) d' sub unfolding distinct_append by simp blast
  ultimately show ?thesis
    using assms(1) unfolding serving_ok_def by (auto simp: h run)
qed

text \<open>handleConn starts.\<close>

lemma serving_start:
  assumes "serving_ok all g" "(tid, asg) \<in> set (sg_starting g)"
  shows "serving_ok all (conn_start tid asg g)"
proof -
  let ?h = "srv_handler (sg_srv g)" and ?st = "remove1 (tid, asg) (sg_starting g)"
  have p: "parseHostIP (asg_Addr asg) = Some (lease_of ?h tid)" "tid < length (h_tunnels ?h)"
    using serving_starting [OF assms] by simp_all
  have d: "distinct (map fst (sg_starting g))" "distinct (map fst (sg_running g))"
    "set (map fst (sg_starting g)) \<inter> set (map fst (sg_running g)) = {}"
    using assms(1) by (simp_all add: serving_ok_def)
  have st: "set ?st = set (sg_starting g) - {(tid, asg)}"
    using d(1) by (simp add: distinct_map set_remove1_eq)
  have d': "distinct (map fst ?st)" "tid \<notin> fst ` set ?st" "tid \<notin> fst ` set (sg_running g)"
    using d assms(2) by (force simp: distinct_map inj_on_def st distinct_remove1)+
  have g': "conn_start tid asg g = g\<lparr>sg_starting := ?st,
      sg_srv := server_register (lease_of ?h tid) tid (sg_srv g),
      sg_running := (tid, lease_of ?h tid) # sg_running g\<rparr>"
    by (simp add: conn_start_def p(1))
  have "fst ` set ?st \<inter> fst ` set (sg_running g) = {}" using d(3) by (auto simp: st)
  then have "distinct (map fst ?st @ fst (tid, lease_of ?h tid) # map fst (sg_running g))"
    using d' d(2) by auto
  then show ?thesis
    using assms(1) p(2) unfolding serving_ok_def by (auto simp: g' server_register_def st)
qed

text \<open>A request.\<close>

lemma serving_request:
  assumes "serving_ok all g" "server_request P now rnd up r g = (res, g')"
  shows "serving_ok all g'"
proof -
  let ?h = "srv_handler (sg_srv g)"
  from assms(2) obtain h' where s: "ServeHTTP P ipPool_alloc now rnd up r ?h = (res, h')"
    and g': "g' = g\<lparr>sg_srv := (sg_srv g)\<lparr>srv_handler := h'\<rparr>, sg_starting := sg_starting g @ started ?h h'\<rparr>"
    by (auto simp: server_request_def Let_def split: prod.splits)
  have a: "addresses_ok all ?h" using assms(1) by (simp add: serving_ok_def)
  have a': "addresses_ok all h'" by (rule ServeHTTP_addresses [OF a s])
  note lease = ServeHTTP_lease [OF s serving_handler [OF assms(1)]]
  have run: "\<forall>(tid, ip) \<in> set (sg_running g). tid < length (h_tunnels h') \<and> lease_of h' tid = ip"
    "\<forall>(tid, asg) \<in> set (sg_starting g). tid < length (h_tunnels h') \<and> parseHostIP (asg_Addr asg) = Some (lease_of h' tid)"
    using assms(1) lease by (auto simp: serving_ok_def)
  have rt: "\<forall>ip tid. srv_routes (sg_srv g) ip = Some tid \<longrightarrow> (tid, ip) \<in> set (sg_running g)"
    and d: "distinct (map fst (sg_starting g) @ map fst (sg_running g))"
    using assms(1) by (simp_all add: serving_ok_def)
  from s a show ?thesis
  proof (cases rule: started_cases)
    case 1
    with a' run rt d show ?thesis unfolding serving_ok_def by (simp add: g')
  next
    case (2 asg)
    have new: "length (h_tunnels ?h) \<notin> fst ` set (sg_starting g) \<union> fst ` set (sg_running g)"
      using assms(1) by (fastforce simp: serving_ok_def)
    have "distinct (map fst (sg_starting g') @ map fst (sg_running g'))"
      using d new by (auto simp: g' 2)
    moreover have "\<forall>(tid, asg) \<in> set (sg_starting g'). tid < length (h_tunnels h')
        \<and> parseHostIP (asg_Addr asg) = Some (lease_of h' tid)"
      using run(2) 2 by (auto simp: g')
    ultimately show ?thesis using a' run(1) rt unfolding serving_ok_def by (simp add: g')
  qed
qed

text \<open>The dispatcher, keepalives and turns of handleConn.\<close>

lemma serving_try:
  assumes "serving_ok all g" "tid < length (sg_tunnels g)" "tunnel_move f"
  shows "serving_ok all (g\<lparr>sg_srv := (if b then srv_on tid Tunnel_Close (srv_on tid f (sg_srv g))
           else srv_on tid f (sg_srv g))\<rparr>)"
proof -
  have a: "serving_ok all (g\<lparr>sg_srv := srv_on tid f (sg_srv g)\<rparr>)" by (rule serving_on(2) [OF assms])
  from serving_on(2) [OF a _ tunnel_moves(2), of tid] a assms(2) show ?thesis by simp
qed

lemma dispatch_cases:
  assumes "srv_routes s dst = Some tid" "ipv4Dst p = Some dst"
  shows "server_dispatch p env s =
    (if isl (fst (Tunnel_WritePacket p env (srv_tunnel s tid)))
     then srv_on tid Tunnel_Close (srv_on tid (\<lambda>t. snd (Tunnel_WritePacket p env t)) s)
     else srv_on tid (\<lambda>t. snd (Tunnel_WritePacket p env t)) s)"
  using assms by (simp add: server_dispatch_def Let_def)

lemma dispatch_none:
  "ipv4Dst p = None \<or> srv_routes s (the (ipv4Dst p)) = None \<Longrightarrow> server_dispatch p env s = s"
  by (auto simp: server_dispatch_def split: option.split)

lemma serving_dispatch:
  assumes "serving_ok all g"
  shows "serving_ok all (g\<lparr>sg_srv := server_dispatch p env (sg_srv g)\<rparr>)"
proof (cases "ipv4Dst p = None \<or> srv_routes (sg_srv g) (the (ipv4Dst p)) = None")
  case True
  with assms show ?thesis by (simp add: dispatch_none)
next
  case False
  then obtain dst tid where r: "ipv4Dst p = Some dst" "srv_routes (sg_srv g) dst = Some tid" by auto
  from serving_try [OF assms _ tunnel_moves(3)] serving_route [OF assms r(2)]
  show ?thesis by (simp only: dispatch_cases [OF r(2,1)])
qed

lemma serving_keepalive:
  assumes "serving_ok all g" "(tid, ip) \<in> set (sg_running g)"
  shows "serving_ok all (g\<lparr>sg_srv := snd (server_keepalive env tid (sg_srv g))\<rparr>)"
proof -
  have "snd (server_keepalive env tid (sg_srv g)) =
      (if fst (Tunnel_WriteKeepalive env (srv_tunnel (sg_srv g) tid)) \<noteq> None
       then srv_on tid Tunnel_Close (srv_on tid (\<lambda>t. snd (Tunnel_WriteKeepalive env t)) (sg_srv g))
       else srv_on tid (\<lambda>t. snd (Tunnel_WriteKeepalive env t)) (sg_srv g))"
    by (simp add: server_keepalive_def Let_def)
  with serving_try [OF assms(1) _ tunnel_moves(4)] serving_running [OF assms] show ?thesis by simp
qed

lemma serving_turn:
  assumes "serving_ok all g" "(tid, ip) \<in> set (sg_running g)" "conn_turn dev_ok tid ip g = (e, g')"
  shows "serving_ok all g'"
proof -
  let ?f = "\<lambda>t. snd (Tunnel_ReadPacket t)" and ?s = "sg_srv g"
  have lt: "tid < length (sg_tunnels g)" using serving_running [OF assms(1,2)] by simp
  have move: "serving_ok all (g\<lparr>sg_srv := srv_on tid ?f ?s\<rparr>)"
    by (rule serving_on(2) [OF assms(1) lt tunnel_moves(5)])
  note w = serving_on(1) [OF assms(1) lt tunnel_moves(5)]
  show ?thesis
  proof (cases "fst (Tunnel_ReadPacket (srv_tunnel ?s tid))")
    case TunnelBlocked
    with assms show ?thesis by (simp add: conn_turn_def Let_def)
  next
    case (TunnelEOF x)
    with assms(3) serving_leave [OF assms(1,2)] show ?thesis by (auto simp: conn_turn_def Let_def)
  next
    case (TunnelPacket p)
    with assms(3) w serving_leave [OF move] assms(2) show ?thesis
      by (auto simp: conn_turn_def Let_def split: if_splits)
  qed
qed

lemma serving_step_ok: "serving_step P g g' \<Longrightarrow> serving_ok all g \<Longrightarrow> serving_ok all g'"
  by (erule serving_stepE)
    (auto intro: serving_request serving_start serving_turn serving_dispatch serving_keepalive serving_on(2))

lemma serving_run_ok: "serving_run P g g' \<Longrightarrow> serving_ok all g \<Longrightarrow> serving_ok all g'"
  by (induction rule: serving_run.induct) (auto intro: serving_step_ok)

lemma serving_init_ok:
  assumes "newIPPool cidr = Inr p" "NewHandler url p cfg = Inr h"
  shows "serving_ok (set (free p)) (serving_init h)"
  using addresses_init [OF assms] by (simp add: serving_ok_def serving_init_def)

text \<open>What New and Run start with.\<close>

lemma server_New_Inr:
  assumes "server_New P cfg os = (Inr core, effs)"
  shows "newIPPool (s_TunCIDR cfg) = Inr (sv_pool core)" "effs = [OpenTun, IfUp, SetupNAT]"
  using assms by (auto simp: server_New_def split: sum.splits option.splits if_splits)

lemma server_started_ok:
  assumes "server_New P cfg os = (Inr core, effs)" "server_handler url cfg core = Inr h"
    and "serving_run P (serving_init h) g"
  shows "serving_ok (set (free (sv_pool core))) g"
  using serving_run_ok [OF assms(3) serving_init_ok [OF server_New_Inr(1) [OF assms(1)]]]
    assms(2) by (simp add: server_handler_def)

section \<open>Properties\<close>

lemma dead_session_tunnel:
  assumes "session_tunnel t" "dead t"
  shows "channels t = []" "order t = []" "deadOnce t"
  using assms by (auto simp: session_tunnel_def tunnel_ok_def tunnel_defs)

lemma dead_tunnel_still:
  assumes "session_tunnel t" "dead t"
  shows "snd (Tunnel_WritePacket p env t) = t" "Tunnel_Close t = t"
proof -
  note d = dead_session_tunnel [OF assms]
  show "snd (Tunnel_WritePacket p env t) = t"
    using write_loop_empty [OF d(2)] by (simp add: Tunnel_WritePacket_def)
  have "t\<lparr>channels := [], order := []\<rparr> = t" using d by simp
  then show "Tunnel_Close t = t"
    using d by (simp add: Tunnel_Close_def Tunnel_Close_locked_def markDead_def)
qed

lemma serving_sessions:
  assumes "serving_ok all g"
  shows "(\<lambda>(sid, s). lease_of (srv_handler (sg_srv g)) (ss_tun s)) ` set (h_sessions (srv_handler (sg_srv g)))
    = used (h_pool (srv_handler (sg_srv g)))" (is "?f ` ?S = _")
proof -
  let ?h = "srv_handler (sg_srv g)"
  have ok: "handler_ok ?h" by (rule serving_handler [OF assms])
  have d: "distinct (map fst (h_sessions ?h))" using ok by (simp add: handler_ok_def)
  have "(\<lambda>(sid, s). ss_tun s) ` ?S = live_ids ?h"
  proof (intro equalityI subsetI)
    fix i assume "i \<in> (\<lambda>(sid, s). ss_tun s) ` ?S"
    then obtain sid s where "(sid, s) \<in> ?S" "i = ss_tun s" by auto
    with map_of_eq_Some_iff [OF d] have "map_of (h_sessions ?h) sid = Some s" by simp
    with ok have "ss_tun s < length (h_tunnels ?h) \<and> \<not> dead (h_tunnels ?h ! ss_tun s)"
      unfolding handler_ok_def by blast
    with \<open>i = ss_tun s\<close> show "i \<in> live_ids ?h" by (simp add: live_ids_def)
  next
    fix i assume "i \<in> live_ids ?h"
    then have "map_option ss_tun (map_of (h_sessions ?h) (fst (h_owner ?h ! i))) = Some i"
      using ok unfolding handler_ok_def live_ids_def by blast
    then obtain s where s: "map_of (h_sessions ?h) (fst (h_owner ?h ! i)) = Some s" "ss_tun s = i" by auto
    show "i \<in> (\<lambda>(sid, s). ss_tun s) ` ?S"
      by (rule image_eqI [OF _ map_of_SomeD [OF s(1)]]) (simp add: s(2))
  qed
  moreover have "used (h_pool ?h) = lease_of ?h ` live_ids ?h"
    using assms unfolding serving_ok_def addresses_ok_def by blast
  moreover have "?f = (\<lambda>x. lease_of ?h ((\<lambda>(sid, s). ss_tun s) x))" by (simp add: fun_eq_iff)
  ultimately show ?thesis by (simp only: image_image [symmetric])
qed

lemma session_addr:
  assumes "addresses_ok all h" "map_of (h_sessions h) sid = Some s"
  shows "parseHostIP (asg_Addr (ss_assign s)) = Some (lease_of h (ss_tun s))" "ss_tun s \<in> live_ids h"
    "fst (h_owner h ! ss_tun s) = sid"
proof -
  show "parseHostIP (asg_Addr (ss_assign s)) = Some (lease_of h (ss_tun s))"
    using assms by (simp add: addresses_ok_def)
  have "handler_ok h" using assms(1) by (simp add: addresses_ok_def)
  with assms(2) show "ss_tun s \<in> live_ids h" "fst (h_owner h ! ss_tun s) = sid"
    by (auto simp: handler_ok_def live_ids_def)
qed

text \<open>C17. Sessions and addresses correspond: from the start of the server on, in whatever order
  requests, losses of channels, packets and keepalives come, the address each session was
  assigned parses back to the one its tunnel leases, two sessions never have the same
  address, the addresses out of the pool are exactly those of the sessions, and together with
  the free ones they are the pool it started with.\<close>

theorem sessions_hold_distinct_leases:
  assumes "server_New P cfg os = (Inr core, effs)" "server_handler url cfg core = Inr h0"
    and "serving_run P (serving_init h0) g" and "h = srv_handler (sg_srv g)"
  shows "(\<forall>sid s. map_of (h_sessions h) sid = Some s \<longrightarrow>
       parseHostIP (asg_Addr (ss_assign s)) = Some (lease_of h (ss_tun s)))
    \<and> (\<forall>sid s sid' s'. map_of (h_sessions h) sid = Some s \<and> map_of (h_sessions h) sid' = Some s'
         \<and> parseHostIP (asg_Addr (ss_assign s)) = parseHostIP (asg_Addr (ss_assign s')) \<longrightarrow> sid = sid')
    \<and> used (h_pool h) = (\<lambda>(sid, s). lease_of h (ss_tun s)) ` set (h_sessions h)
    \<and> set (free (h_pool h)) \<union> used (h_pool h) = set (free (sv_pool core))
    \<and> set (free (h_pool h)) \<inter> used (h_pool h) = {}"
proof -
  note ok = server_started_ok [OF assms(1-3)]
  have a: "addresses_ok (set (free (sv_pool core))) h" using ok assms(4) by (simp add: serving_ok_def)
  have inj: "inj_on (lease_of h) (live_ids h)" using a by (simp add: addresses_ok_def)
  have "sid = sid'" if "map_of (h_sessions h) sid = Some s" "map_of (h_sessions h) sid' = Some s'"
    "parseHostIP (asg_Addr (ss_assign s)) = parseHostIP (asg_Addr (ss_assign s'))" for sid s sid' s'
  proof -
    have "lease_of h (ss_tun s) = lease_of h (ss_tun s')"
      using that(3) session_addr(1) [OF a that(1)] session_addr(1) [OF a that(2)] by simp
    then have "ss_tun s = ss_tun s'"
      using inj session_addr(2) [OF a that(1)] session_addr(2) [OF a that(2)] by (auto dest: inj_onD)
    with session_addr(3) [OF a that(1)] session_addr(3) [OF a that(2)] show ?thesis by simp
  qed
  moreover have "set (free (h_pool h)) \<union> used (h_pool h) = set (free (sv_pool core))"
    "set (free (h_pool h)) \<inter> used (h_pool h) = {}"
    using a unfolding addresses_ok_def pool_ok_def by blast+
  ultimately show ?thesis
    using session_addr(1) [OF a] serving_sessions [OF ok] assms(4) by blast
qed


section \<open>A sample server\<close>

definition sample_srv_cfg :: server_cfg where
  "sample_srv_cfg = \<lparr>s_Listen = '''', s_SNI = ''a.example'', s_Path = ''/ws'',
     s_PSK = StdEncodeToString (sample_key 5), s_ServerPriv = StdEncodeToString (sample_key 3),
     s_CertFile = '''', s_KeyFile = '''', s_SelfSigned = True, s_Decoy = '''',
     s_TunName = ''krot0'', s_TunCIDR = ''10.8.0.1/29'', s_DNS = '''', s_WANIface = '''', s_MTU = 1320\<rparr>"

definition sample_core :: server_core where
  "sample_core = \<lparr>sv_psk = sample_key 5, sv_static = \<lparr>Private = sample_key 3, Public = sample_key 12\<rparr>,
     sv_pool = sample_pool, sv_gw = ''10.8.0.1''\<rparr>"

definition sample_srv :: "unit srv_handler" where
  "sample_srv = \<lparr>h_cfg = sample_hcfg, h_decoy = ItWorks, h_replay = NewReplayFilter 240000000000,
     h_sessions = [], h_pool = sample_pool, h_tunnels = [], h_owner = [], h_nconn = 0\<rparr>"

lemma sample_New:
  "server_New sample_prims sample_srv_cfg \<lparr>os_open = True, os_ifup = True, os_nat = True\<rparr>
     = (Inr sample_core, [OpenTun, IfUp, SetupNAT])"
proof -
  have "dec_nat 10 = ''10''" "dec_nat 8 = ''8''" "dec_nat 0 = ''0''" "dec_nat (Suc 0) = ''1''"
    by code_simp+
  then have "IP_String (v4_in_v6 @ [10, 8, 0, 1]) = ''10.8.0.1''"
    by (simp add: IP_String_def dotted_def)
  moreover have "DecodePSK (StdEncodeToString (sample_key 5)) = Inr (sample_key 5)"
    "DecodeKey32 (StdEncodeToString (sample_key 3)) = Inr (sample_key 3)"
    by (simp_all add: DecodePSK_Inr DecodeKey32_Inr sample_key_def KeySize_def)
  ultimately show ?thesis
    using sample_public [of 3]
    by (simp add: server_New_def sample_srv_cfg_def sample_pool sample_cidr sample_core_def)
qed

lemma sample_server_handler: "server_handler (\<lambda>_. None) sample_srv_cfg sample_core = Inr sample_srv"
  by (simp add: server_handler_def NewHandler_def sample_core_def sample_srv_cfg_def sample_srv_def
      sample_hcfg_def KeySize_def sample_key_def DefaultPad_def buildDecoy_def authWindow_def)

text \<open>One authenticated request: it opens a session with one channel.\<close>

definition sample_serving :: "unit serving" where
  "sample_serving = snd (server_request sample_prims 1000 (Some (sample_key 2)) True sample_request
     (serving_init sample_srv))"

lemma sample_combine:
  "combineDH sample_prims (sample_key 2) (sample_key 10) (sample_key 3) (sample_key 10)
     = Inr (sample_key 12 @ sample_key 13)"
  by (simp add: combineDH_def sample_DH)

text \<open>A request that authenticates under a new session id, in closed form.\<close>

lemma request_opens:
  assumes "auth_claim (h_cfg h) now r = Some (token, sample_key 10, sid, 0)"
    and "ReplayFilter_Check (h_replay h) now token = (True, rf)"
    and "req_path r = hc_Path (h_cfg h)" "map_of (h_sessions h) sid = None"
    and "ipPool_alloc (h_pool h) = Some (cidr, ip, p)" "hc_Static (h_cfg h) = hc_Static sample_hcfg"
    and "length (h_owner h) = length (h_tunnels h)"
    and "s = \<lparr>ss_tun = length (h_tunnels h),
      ss_assign = \<lparr>asg_Addr = cidr, asg_Gw = hc_Gw (h_cfg h), asg_DNS = hc_DNS (h_cfg h)\<rparr>\<rparr>"
  shows "\<exists>k. ServeHTTP sample_prims ipPool_alloc now (Some (sample_key 2)) True r h
        = (Attached (response_header \<lparr>Private = sample_key 2, Public = sample_key 11\<rparr> (ss_assign s))
             (length (h_tunnels h)) (h_nconn h),
           h\<lparr>h_replay := rf, h_pool := p, h_owner := h_owner h @ [(sid, ip)], h_nconn := Suc (h_nconn h),
             h_tunnels := h_tunnels h @ [snd (addChannel 0 (h_nconn h) (set_conn (h_nconn h) k (newTunnel (\<lambda>_. zero_conn) True)))],
             h_sessions := AList.update sid s (h_sessions h)\<rparr>)"
proof -
  have a: "Handler_checkAuth (h_cfg h) (h_replay h) now r = (Some (sample_key 10, sid, 0), rf)"
    using assms(1,2) by (simp add: Handler_checkAuth_def)
  have g: "GenerateKeypair sample_prims (Some (sample_key 2)) = Inr \<lparr>Private = sample_key 2, Public = sample_key 11\<rparr>"
    using sample_keypair [of 2] by simp
  obtain keys where k: "DeriveSessionKeys sample_prims (sample_key 12 @ sample_key 13)
      (channelSalt (sample_key 10) (sample_key 11) sid 0) False = Some keys"
    using DeriveSessionKeys_total [OF sample_prims_total] by blast
  from newConn_total [OF sample_prims_total] DeriveSessionKeys_lengths [OF k] obtain conn where
    c: "newConn sample_prims (TxKey keys) (RxKey keys) (hc_Pad (h_cfg h)) = Inr conn" by blast
  have st: "Private (hc_Static (h_cfg h)) = sample_key 3" using assms(6) by (simp add: sample_hcfg_def)
  show ?thesis
    by (intro exI [of _ conn])
      (simp add: ServeHTTP_def a assms(3-5,8) new_session_def join_channel_def g st sample_combine k c Let_def)
qed

lemma sample_pool_alloc: "\<exists>cidr. ipPool_alloc sample_pool = Some (cidr, 0x0A080006, sample_pool
    \<lparr>free := [0x0A080002, 0x0A080003, 0x0A080004, 0x0A080005], used := {0x0A080006}\<rparr>)"
  by (simp add: ipPool_alloc_def sample_pool_def)

lemma sample_path: "req_path (dial_request sample_ccfg eph ts sid ci) = ''/ws''"
  by (simp add: dial_request_def sample_ccfg_def wire_path_def Let_def)

lemma sample_serving_fields:
  "\<exists>k s rf. sample_serving = (serving_init sample_srv)\<lparr>
     sg_srv := \<lparr>srv_handler = sample_srv\<lparr>h_replay := rf, h_pool := sample_pool
         \<lparr>free := [0x0A080002, 0x0A080003, 0x0A080004, 0x0A080005], used := {0x0A080006}\<rparr>,
         h_owner := [(sample_sid, 0x0A080006)], h_nconn := 1,
         h_tunnels := [snd (addChannel 0 0 (set_conn 0 k (newTunnel (\<lambda>_. zero_conn) True)))],
         h_sessions := [(sample_sid, s)]\<rparr>, srv_routes = Map.empty, srv_tun = []\<rparr>,
     sg_starting := [(0, ss_assign s)]\<rparr> \<and> ss_tun s = 0
     \<and> (ReplayFilter_Check (NewReplayFilter 240000000000) 1000 sample_token) = (True, rf)"
proof -
  obtain rf where rf: "ReplayFilter_Check (NewReplayFilter 240000000000) 1000 sample_token = (True, rf)"
    using sample_fresh [of 240000000000 1000 sample_token]
    by (cases "ReplayFilter_Check (NewReplayFilter 240000000000) 1000 sample_token") simp
  obtain cidr where al: "ipPool_alloc sample_pool = Some (cidr, 0x0A080006, sample_pool
    \<lparr>free := [0x0A080002, 0x0A080003, 0x0A080004, 0x0A080005], used := {0x0A080006}\<rparr>)"
    using sample_pool_alloc by blast
  have c: "auth_claim (h_cfg sample_srv) 1000 sample_request = Some (sample_token, sample_key 10, sample_sid, 0)"
    by (simp add: sample_srv_def sample_claim)
  have path: "req_path sample_request = hc_Path (h_cfg sample_srv)"
    using sample_path [of sample_eph 1000 sample_sid 0]
    by (simp add: sample_request_def sample_srv_def sample_hcfg_def)
  let ?s = "\<lparr>ss_tun = 0, ss_assign = \<lparr>asg_Addr = cidr, asg_Gw = ''10.8.0.1'', asg_DNS = ''''\<rparr>\<rparr>"
  obtain k where s: "ServeHTTP sample_prims ipPool_alloc 1000 (Some (sample_key 2)) True sample_request sample_srv
        = (Attached (response_header \<lparr>Private = sample_key 2, Public = sample_key 11\<rparr> (ss_assign ?s)) 0 0,
           sample_srv\<lparr>h_replay := rf, h_pool := sample_pool
         \<lparr>free := [0x0A080002, 0x0A080003, 0x0A080004, 0x0A080005], used := {0x0A080006}\<rparr>,
         h_owner := [(sample_sid, 0x0A080006)], h_nconn := 1,
         h_tunnels := [snd (addChannel 0 0 (set_conn 0 k (newTunnel (\<lambda>_. zero_conn) True)))],
         h_sessions := [(sample_sid, ?s)]\<rparr>)"
    using request_opens [OF c _ path, where rf = rf and cidr = cidr and ip = "0x0A080006" and s = "?s"] rf al
    by (auto simp: sample_srv_def sample_hcfg_def)
  have "started sample_srv (snd (ServeHTTP sample_prims ipPool_alloc 1000 (Some (sample_key 2)) True sample_request sample_srv))
      = [(0, ss_assign ?s)]"
    by (simp add: started_def s) (simp add: sample_srv_def)
  with s rf show ?thesis
    by (intro exI [of _ k] exI [of _ ?s] exI [of _ rf])
      (simp add: sample_serving_def server_request_def serving_init_def)
qed

lemma sample_obtain:
  obtains k s rf where
    "h_tunnels (srv_handler (sg_srv sample_serving)) = [snd (addChannel 0 0 (set_conn 0 k (newTunnel (\<lambda>_. zero_conn) True)))]"
    "h_owner (srv_handler (sg_srv sample_serving)) = [(sample_sid, 0x0A080006)]"
    "h_sessions (srv_handler (sg_srv sample_serving)) = [(sample_sid, s)]" "ss_tun s = 0"
    "h_pool (srv_handler (sg_srv sample_serving)) = sample_pool
         \<lparr>free := [0x0A080002, 0x0A080003, 0x0A080004, 0x0A080005], used := {0x0A080006}\<rparr>"
    "h_cfg (srv_handler (sg_srv sample_serving)) = sample_hcfg"
    "h_replay (srv_handler (sg_srv sample_serving)) = rf"
    "ReplayFilter_Check (NewReplayFilter 240000000000) 1000 sample_token = (True, rf)"
    "srv_routes (sg_srv sample_serving) = Map.empty" "srv_tun (sg_srv sample_serving) = []"
    "sg_starting sample_serving = [(0, ss_assign s)]" "sg_running sample_serving = []"
proof -
  from sample_serving_fields obtain k s rf where g: "sample_serving = (serving_init sample_srv)\<lparr>
     sg_srv := \<lparr>srv_handler = sample_srv\<lparr>h_replay := rf, h_pool := sample_pool
         \<lparr>free := [0x0A080002, 0x0A080003, 0x0A080004, 0x0A080005], used := {0x0A080006}\<rparr>,
         h_owner := [(sample_sid, 0x0A080006)], h_nconn := 1,
         h_tunnels := [snd (addChannel 0 0 (set_conn 0 k (newTunnel (\<lambda>_. zero_conn) True)))],
         h_sessions := [(sample_sid, s)]\<rparr>, srv_routes = Map.empty, srv_tun = []\<rparr>,
     sg_starting := [(0, ss_assign s)]\<rparr>" and s: "ss_tun s = 0"
     "ReplayFilter_Check (NewReplayFilter 240000000000) 1000 sample_token = (True, rf)" by blast
  have "h_cfg sample_srv = sample_hcfg" by (simp add: sample_srv_def)
  then show thesis by (intro that [of k s rf]) (simp_all add: g s serving_init_def)
qed

lemma sample_run: "serving_run sample_prims (serving_init sample_srv) sample_serving"
proof -
  obtain res g where r: "server_request sample_prims 1000 (Some (sample_key 2)) True sample_request
      (serving_init sample_srv) = (res, g)" by fastforce
  then show ?thesis
    using serving_run.more [OF serving_run.here serving_step.request [OF r]]
    by (simp add: sample_serving_def)
qed

theorem sessions_hold_distinct_leases_witness:
  "used (h_pool (srv_handler (sg_srv sample_serving))) = {0x0A080006}"
proof -
  note u = sessions_hold_distinct_leases [OF sample_New sample_server_handler sample_run HOL.refl,
      THEN conjunct2, THEN conjunct2, THEN conjunct1]
  obtain s where "h_sessions (srv_handler (sg_srv sample_serving)) = [(sample_sid, s)]" "ss_tun s = 0"
    "h_owner (srv_handler (sg_srv sample_serving)) = [(sample_sid, 0x0A080006)]"
    by (rule sample_obtain)
  then show ?thesis by (simp add: u lease_of_def)
qed


text \<open>C20. A device that refuses one packet strands its sender's session: when a write to the TUN
  device fails (a malformed packet is enough), handleConn returns; the tunnel is as alive as
  before, its session and its address stay taken, but no packet is routed to it and no
  keepalive runs for it any more.\<close>

theorem device_error_strands_session:
  assumes "serving_ok all g" "(tid, ip) \<in> set (sg_running g)" "\<not> dead (sg_tunnels g ! tid)"
    and "inbound (sg_tunnels g ! tid) = p # ps" "\<not> dev_ok p"
  shows "\<exists>g'. conn_turn dev_ok tid ip g = (Some PumpWriteFailed, g') \<and> serving_step P g g'
    \<and> \<not> dead (sg_tunnels g' ! tid) \<and> h_sessions (srv_handler (sg_srv g')) = h_sessions (srv_handler (sg_srv g))
    \<and> ip \<in> used (h_pool (srv_handler (sg_srv g')))
    \<and> (\<forall>a. srv_routes (sg_srv g') a \<noteq> Some tid) \<and> tid \<notin> fst ` set (sg_starting g') \<union> fst ` set (sg_running g')"
proof -
  let ?t = "sg_tunnels g ! tid" and ?h = "srv_handler (sg_srv g)"
  have r: "Tunnel_ReadPacket ?t = (TunnelPacket p, ?t\<lparr>inbound := ps\<rparr>)"
    using assms(4) by (simp add: Tunnel_ReadPacket_def)
  obtain g' where g': "conn_turn dev_ok tid ip g = (Some PumpWriteFailed, g')"
    using assms(5) r by (simp add: conn_turn_def Let_def)
  have ok': "serving_ok all g'" by (rule serving_turn [OF assms(1,2) g'])
  have run: "tid < length (sg_tunnels g)" "lease_of ?h tid = ip" using serving_running [OF assms(1,2)] by simp_all
  have eq: "g' = g\<lparr>sg_srv := server_unregister ip tid (srv_on tid (\<lambda>t. snd (Tunnel_ReadPacket t)) (sg_srv g)),
      sg_running := remove1 (tid, ip) (sg_running g)\<rparr>"
    using g' assms(5) r by (simp add: conn_turn_def Let_def)
  have h': "srv_handler (sg_srv g') = ?h\<lparr>h_tunnels := (h_tunnels ?h)[tid := ?t\<lparr>inbound := ps\<rparr>]\<rparr>"
    by (simp add: eq server_unregister_def on_tunnel_def r)
  have d: "distinct (map fst (sg_starting g) @ map fst (sg_running g))" using assms(1) by (simp add: serving_ok_def)
  have gone: "tid \<notin> fst ` set (sg_starting g') \<union> fst ` set (sg_running g')"
  proof -
    have "tid \<notin> fst ` set (sg_starting g)" using d assms(2) by force
    moreover have "distinct (map fst (sg_running g))" using d by simp
    then have "tid \<notin> fst ` set (remove1 (tid, ip) (sg_running g))"
      using assms(2) by (force simp: distinct_map inj_on_def set_remove1_eq)
    ultimately show ?thesis by (simp add: eq)
  qed
  have "srv_routes (sg_srv g') a \<noteq> Some tid" for a
  proof
    assume "srv_routes (sg_srv g') a = Some tid"
    with ok' have "(tid, a) \<in> set (sg_running g')" by (simp add: serving_ok_def)
    with gone show False by force
  qed
  moreover have "tid \<in> live_ids ?h" using run(1) assms(3) by (simp add: live_ids_def)
  then have "ip \<in> used (h_pool ?h)"
    using assms(1) run(2) unfolding serving_ok_def addresses_ok_def by blast
  ultimately show ?thesis
    using g' gone run(1) assms(3) serving_step.turn [OF assms(2) g'] by (auto simp: h')
qed

theorem device_error_strands_session_witness:
  "\<exists>(g :: unit serving) g'. conn_turn (\<lambda>_. False) 0 0x0A080006 g = (Some PumpWriteFailed, g') \<and> serving_step sample_prims g g'
     \<and> \<not> dead (sg_tunnels g' ! 0) \<and> 0x0A080006 \<in> used (h_pool (srv_handler (sg_srv g')))
     \<and> srv_routes (sg_srv g') 0x0A080006 \<noteq> Some 0"
proof -
  let ?g = "sample_serving"
  let ?f = "\<lambda>t. t\<lparr>inbound := inbound t @ [[0]]\<rparr>"
  have ok: "serving_ok (set (free (sv_pool sample_core))) ?g"
    by (rule server_started_ok [OF sample_New sample_server_handler sample_run])
  obtain k s rf where f:
    "h_tunnels (srv_handler (sg_srv ?g)) = [snd (addChannel 0 0 (set_conn 0 k (newTunnel (\<lambda>_. zero_conn) True)))]"
    "h_owner (srv_handler (sg_srv ?g)) = [(sample_sid, 0x0A080006)]"
    "sg_starting ?g = [(0, ss_assign s)]" "h_sessions (srv_handler (sg_srv ?g)) = [(sample_sid, s)]"
    by (rule sample_obtain)
  have st: "(0, ss_assign s) \<in> set (sg_starting ?g)" using f by simp
  have ip: "parseHostIP (asg_Addr (ss_assign s)) = Some 0x0A080006"
    using serving_starting [OF ok st] f(2) by (simp add: lease_of_def)
  let ?g1 = "conn_start 0 (ss_assign s) ?g"
  have g1: "sg_running ?g1 = (0, 0x0A080006) # sg_running ?g" "srv_handler (sg_srv ?g1) = srv_handler (sg_srv ?g)"
    by (simp_all add: conn_start_def ip server_register_def)
  have move: "tunnel_move ?f" by (simp add: tunnel_move_def moved_def tunnel_ok_def tunnel_defs)
  let ?g2 = "?g1\<lparr>sg_srv := srv_on 0 ?f (sg_srv ?g1)\<rparr>"
  have ok2: "serving_ok (set (free (sv_pool sample_core))) ?g2"
    by (rule serving_on(2) [OF serving_start [OF ok st] _ move]) (simp add: g1 f)
  have t2: "sg_tunnels ?g2 ! 0 = ?f (sg_tunnels ?g ! 0)" using f by (simp add: g1)
  then have "\<not> dead (sg_tunnels ?g2 ! 0)" "inbound (sg_tunnels ?g2 ! 0) = [[0]]"
    using f(1) by (simp_all add: addChannel_def newTunnel_def)
  moreover have "(0, 0x0A080006) \<in> set (sg_running ?g2)" by (simp add: g1)
  ultimately obtain g' where "conn_turn (\<lambda>_. False) 0 0x0A080006 ?g2 = (Some PumpWriteFailed, g')"
    "serving_step sample_prims ?g2 g'" "\<not> dead (sg_tunnels g' ! 0)"
    "0x0A080006 \<in> used (h_pool (srv_handler (sg_srv g')))" "\<forall>a. srv_routes (sg_srv g') a \<noteq> Some 0"
    using device_error_strands_session [OF ok2, of 0 "0x0A080006" "[0]" "[]" "\<lambda>_. False" sample_prims] by blast
  then show ?thesis by blast
qed

abbreviation late_ip :: "32 word" where
  "late_ip \<equiv> 0x0A080006"

abbreviation late_sid :: bytes where
  "late_sid \<equiv> replicate 16 8"

text \<open>The only channel of the first client fails before its handleConn has run.\<close>

lemma first_client_gone:
  obtains g1 T a rf h1 where "serving_run sample_prims (serving_init sample_srv) g1"
    "srv_handler (sg_srv g1) = h1" "srv_routes (sg_srv g1) = Map.empty" "sg_starting g1 = [(0, a)]" "sg_running g1 = []"
    "h_tunnels h1 = [T]" "dead T" "inbound T = []"
    "h_sessions h1 = []" "h_owner h1 = [(sample_sid, late_ip)]" "h_cfg h1 = sample_hcfg"
    "h_replay h1 = \<lparr>seen = [sample_token \<mapsto> 1240], ttl = 240, lastGC = 1000\<rparr>"
    "h_pool h1 = sample_pool\<lparr>free := [0x0A080002, 0x0A080003, 0x0A080004, 0x0A080005, late_ip], used := {}\<rparr>"
proof -
  let ?g0 = sample_serving
  obtain k s rf where f: "sg_tunnels ?g0 = [snd (addChannel 0 0 (set_conn 0 k (newTunnel (\<lambda>_. zero_conn) True)))]"
    "h_owner (srv_handler (sg_srv ?g0)) = [(sample_sid, late_ip)]"
    "h_sessions (srv_handler (sg_srv ?g0)) = [(sample_sid, s)]"
    "h_pool (srv_handler (sg_srv ?g0)) = sample_pool
         \<lparr>free := [0x0A080002, 0x0A080003, 0x0A080004, 0x0A080005], used := {late_ip}\<rparr>"
    "h_cfg (srv_handler (sg_srv ?g0)) = sample_hcfg" "h_replay (srv_handler (sg_srv ?g0)) = rf"
    "ReplayFilter_Check (NewReplayFilter 240000000000) 1000 sample_token = (True, rf)"
    "srv_routes (sg_srv ?g0) = Map.empty" "sg_starting ?g0 = [(0, ss_assign s)]" "sg_running ?g0 = []"
    by (rule sample_obtain)
  let ?g1 = "?g0\<lparr>sg_srv := srv_on 0 (removeChannel 0) (sg_srv ?g0)\<rparr>"
  have run1: "serving_run sample_prims (serving_init sample_srv) ?g1"
    by (rule serving_run.more [OF sample_run serving_step.channel [OF _ tunnel_moves(1)]]) (simp add: f)
  let ?T = "removeChannel 0 (sg_tunnels ?g0 ! 0)"
  have T: "dead ?T" "inbound ?T = []" "emptied ?T > emptied (sg_tunnels ?g0 ! 0)"
    by (simp_all add: f(1) addChannel_def newTunnel_def removeChannel_def removeChannel_locked_def markDead_def)
  have rf: "rf = \<lparr>seen = [sample_token \<mapsto> 1240], ttl = 240, lastGC = 1000\<rparr>"
    using f(7) by (simp add: ReplayFilter_Check_def NewReplayFilter_def sweep_def)
  have "srv_handler (sg_srv ?g1) = (srv_handler (sg_srv ?g0))\<lparr>h_tunnels := [?T], h_sessions := [],
      h_pool := ipPool_release late_ip (h_pool (srv_handler (sg_srv ?g0)))\<rparr>"
    using T(3) by (simp add: on_tunnel_def session_onEmpty_def f(1-3) Let_def)
  with that [OF run1 HOL.refl] T(1,2) show thesis
    using f rf by (simp add: ipPool_release_def)
qed

text \<open>The second client gets the released address; neither handleConn has started.\<close>

lemma second_client_in:
  obtains g2 a0 a1 T0 T1 where "serving_run sample_prims (serving_init sample_srv) g2"
    "srv_routes (sg_srv g2) = Map.empty" "sg_starting g2 = [(0, a0), (1, a1)]" "sg_running g2 = []"
    "h_tunnels (srv_handler (sg_srv g2)) = [T0, T1]" "dead T0" "inbound T0 = []" "\<not> dead T1"
    "parseHostIP (asg_Addr a0) = Some late_ip" "parseHostIP (asg_Addr a1) = Some late_ip"
proof -
  obtain g1 T a h1 where g1: "serving_run sample_prims (serving_init sample_srv) g1"
    "srv_handler (sg_srv g1) = h1" "srv_routes (sg_srv g1) = Map.empty" "sg_starting g1 = [(0, a)]" "sg_running g1 = []"
    "h_tunnels h1 = [T]" "dead T" "inbound T = []"
    "h_sessions h1 = []" "h_owner h1 = [(sample_sid, late_ip)]" "h_cfg h1 = sample_hcfg"
    "h_replay h1 = \<lparr>seen = [sample_token \<mapsto> 1240], ttl = 240, lastGC = 1000\<rparr>"
    "h_pool h1 = sample_pool\<lparr>free := [0x0A080002, 0x0A080003, 0x0A080004, 0x0A080005, late_ip], used := {}\<rparr>"
    by (rule first_client_gone)
  let ?req = "dial_request sample_ccfg sample_eph 2000 late_sid 0"
  obtain cidr p where al: "ipPool_alloc (h_pool h1) = Some (cidr, late_ip, p)"
    by (simp add: g1 ipPool_alloc_def)
  have c: "auth_claim (h_cfg h1) 2000 ?req
      = Some (authToken (sample_key 5) (sample_key 10) 2000 (sample_key 12) late_sid, sample_key 10, late_sid, 0)"
    using dial_claim [of sample_eph late_sid 0 2000 sample_hcfg sample_ccfg 2000]
    by (simp add: g1 sample_eph_def sample_key_def maxChannelsPerSession_def sample_hcfg_def
        sample_ccfg_def authWindow_def)
  have "fst (ReplayFilter_Check (h_replay h1) 2000
      (authToken (sample_key 5) (sample_key 10) 2000 (sample_key 12) late_sid))"
    using Check_rejects_iff [of "h_replay h1" 2000 "authToken (sample_key 5) (sample_key 10) 2000 (sample_key 12) late_sid"]
    by (auto simp: g1 split: if_splits)
  then obtain rf' where rf': "ReplayFilter_Check (h_replay h1) 2000
      (authToken (sample_key 5) (sample_key 10) 2000 (sample_key 12) late_sid) = (True, rf')"
    by (metis prod.collapse)
  have path: "req_path ?req = hc_Path (h_cfg h1)" by (simp add: sample_path g1 sample_hcfg_def)
  let ?s = "\<lparr>ss_tun = length (h_tunnels h1),
      ss_assign = \<lparr>asg_Addr = cidr, asg_Gw = hc_Gw (h_cfg h1), asg_DNS = hc_DNS (h_cfg h1)\<rparr>\<rparr>"
  let ?T1 = "\<lambda>k. snd (addChannel 0 (h_nconn h1) (set_conn (h_nconn h1) k (newTunnel (\<lambda>_. zero_conn) True)))"
  have "map_of (h_sessions h1) late_sid = None" "hc_Static (h_cfg h1) = hc_Static sample_hcfg"
    "length (h_owner h1) = length (h_tunnels h1)" by (simp_all add: g1)
  from request_opens [OF c rf' path this(1) al this(2,3) HOL.refl] obtain k' hdr where
    req: "ServeHTTP sample_prims ipPool_alloc 2000 (Some (sample_key 2)) True ?req h1
      = (Attached hdr (length (h_tunnels h1)) (h_nconn h1),
         h1\<lparr>h_replay := rf', h_pool := p, h_owner := h_owner h1 @ [(late_sid, late_ip)], h_nconn := Suc (h_nconn h1),
           h_tunnels := h_tunnels h1 @ [?T1 k'], h_sessions := AList.update late_sid ?s (h_sessions h1)\<rparr>)" by blast
  obtain h2 where h2: "h2 = snd (ServeHTTP sample_prims ipPool_alloc 2000 (Some (sample_key 2)) True ?req h1)" by blast
  have h2f: "h_owner h2 = [(sample_sid, late_ip), (late_sid, late_ip)]" "h_tunnels h2 = [T, ?T1 k']"
    and st: "started h1 h2 = [(1, ss_assign ?s)]"
    by (simp_all add: h2 req g1 started_def)
  obtain res g2 where g2: "server_request sample_prims 2000 (Some (sample_key 2)) True ?req g1 = (res, g2)" by fastforce
  have run2: "serving_run sample_prims (serving_init sample_srv) g2"
    by (rule serving_run.more [OF g1(1) serving_step.request [OF g2]])
  have e2: "srv_handler (sg_srv g2) = h2" "srv_routes (sg_srv g2) = Map.empty"
    "sg_starting g2 = [(0, a), (1, ss_assign ?s)]" "sg_running g2 = []"
    using g2 g1(2-5) st by (auto simp: server_request_def Let_def h2 split: prod.splits)
  have "serving_ok (set (free (sv_pool sample_core))) g2"
    by (rule server_started_ok [OF sample_New sample_server_handler run2])
  from serving_starting [OF this, of 0 a] serving_starting [OF this, of 1 "ss_assign ?s"]
  have "parseHostIP (asg_Addr a) = Some late_ip" "parseHostIP (asg_Addr (ss_assign ?s)) = Some late_ip"
    by (simp_all add: e2 h2f lease_of_def)
  then show thesis
    by (intro that [OF run2 e2(2-4) h2f(2) [folded e2(1)] g1(7,8)]) (simp_all add: addChannel_def newTunnel_def)
qed

text \<open>C21. A handleConn that starts late takes another session's route away: from the start of a
  server, a client whose channel fails before its handleConn has run and a second client that
  gets the released address lead to a state where the second session is alive, its handleConn
  is running and its address has no route, so no packet reaches it any more.\<close>

theorem late_handleConn_steals_the_route:
  "\<exists>g1 g2 ip. serving_run sample_prims (serving_init sample_srv) g1 \<and> serving_run sample_prims g1 g2
     \<and> srv_routes (sg_srv g1) ip = Some 1 \<and> srv_routes (sg_srv g2) ip = None
     \<and> (1, ip) \<in> set (sg_running g2) \<and> \<not> dead (sg_tunnels g2 ! 1) \<and> sg_starting g2 = []"
proof -
  obtain g a0 a1 T0 T1 where run2: "serving_run sample_prims (serving_init sample_srv) g"
    and g: "srv_routes (sg_srv g) = Map.empty" "sg_starting g = [(0, a0), (1, a1)]" "sg_running g = []"
      "h_tunnels (srv_handler (sg_srv g)) = [T0, T1]" "dead T0" "inbound T0 = []" "\<not> dead T1"
      "parseHostIP (asg_Addr a0) = Some late_ip" "parseHostIP (asg_Addr a1) = Some late_ip"
    by (rule second_client_in)
  \<comment> \<open>the second handleConn starts, then the first one, which finds its tunnel dead\<close>
  let ?g3 = "conn_start 1 a1 g" and ?g4 = "conn_start 0 a0 (conn_start 1 a1 g)"
  have run3: "serving_run sample_prims (serving_init sample_srv) ?g3"
    by (rule serving_run.more [OF run2 serving_step.start]) (simp add: g)
  have run4: "serving_run sample_prims ?g3 ?g4"
    by (rule serving_run.more [OF serving_run.here serving_step.start]) (simp add: g conn_start_def)
  have run: "(0, late_ip) \<in> set (sg_running ?g4)" by (simp add: conn_start_def g)
  obtain g5 where turn: "conn_turn (\<lambda>_. True) 0 late_ip ?g4 = (Some PumpTunnelDead, g5)"
    and g5: "g5 = ?g4\<lparr>sg_srv := server_unregister late_ip 0 (sg_srv ?g4), sg_running := remove1 (0, late_ip) (sg_running ?g4)\<rparr>"
    using g by (simp add: conn_turn_def conn_start_def server_register_def Tunnel_ReadPacket_def)
  have "serving_run sample_prims ?g3 g5" by (rule serving_run.more [OF run4 serving_step.turn [OF run turn]])
  moreover have "srv_routes (sg_srv ?g3) late_ip = Some 1" by (simp add: conn_start_def g server_register_def)
  moreover have "srv_routes (sg_srv g5) late_ip = None" "(1, late_ip) \<in> set (sg_running g5)" "sg_starting g5 = []"
    "\<not> dead (sg_tunnels g5 ! 1)"
    by (simp_all add: g5 conn_start_def g server_register_def server_unregister_def)
  ultimately show ?thesis using run3 by blast
qed

section \<open>handleConn as a whole\<close>

text \<open>The packets the device takes, and the state when the loop waits or has returned.\<close>

definition after_turns :: "nat \<Rightarrow> 32 word \<Rightarrow> bytes list \<Rightarrow> pump_end \<Rightarrow> tunnel \<Rightarrow> 'u serving \<Rightarrow> 'u serving" where
  "after_turns tid ip ps e t g =
     (let s = (sg_srv g)\<lparr>srv_handler := (srv_handler (sg_srv g))\<lparr>h_tunnels := (sg_tunnels g)[tid := t]\<rparr>,
                srv_tun := srv_tun (sg_srv g) @ ps\<rparr>
      in if e = PumpWaits then g\<lparr>sg_srv := s\<rparr>
         else g\<lparr>sg_srv := server_unregister ip tid s, sg_running := remove1 (tid, ip) (sg_running g)\<rparr>)"

lemma ReadPacket_packet:
  "Tunnel_ReadPacket t = (TunnelPacket p, t') \<Longrightarrow> inbound t = p # inbound t' \<and> t' = t\<lparr>inbound := inbound t'\<rparr>"
  by (auto simp: Tunnel_ReadPacket_def split: list.splits if_splits)

lemma ReadPacket_none:
  "Tunnel_ReadPacket t = (TunnelBlocked, t') \<Longrightarrow> t' = t" "Tunnel_ReadPacket t = (TunnelEOF e, t') \<Longrightarrow> t' = t"
  by (auto simp: Tunnel_ReadPacket_def split: list.splits if_splits)

lemma srv_on_read:
  "srv_on tid (\<lambda>t. snd (Tunnel_ReadPacket t)) s
     = s\<lparr>srv_handler := (srv_handler s)\<lparr>h_tunnels := (h_tunnels (srv_handler s))[tid := snd (Tunnel_ReadPacket (srv_tunnel s tid))]\<rparr>\<rparr>"
proof -
  have "emptied (snd (Tunnel_ReadPacket t)) = emptied t" for t
    by (simp add: Tunnel_ReadPacket_def split: list.split)
  then show ?thesis by (simp add: on_tunnel_def Let_def)
qed

lemma turns_run:
  "pump dev_ok t = (ps, e, t') \<Longrightarrow> (tid, ip) \<in> set (sg_running g) \<Longrightarrow> tid < length (sg_tunnels g) \<Longrightarrow>
     sg_tunnels g ! tid = t \<Longrightarrow> serving_run P g (after_turns tid ip ps e t' g)"
proof (induction dev_ok t arbitrary: ps e t' g rule: pump.induct)
  case (1 dev_ok t)
  obtain r u where ru: "Tunnel_ReadPacket t = (r, u)" by fastforce
  note pump = "1.prems"(1) [unfolded pump.simps [of dev_ok t] ru prod.case]
  have step: "serving_run P g (snd (conn_turn dev_ok tid ip g))"
    by (rule serving_run.more [OF serving_run.here serving_step.turn [OF "1.prems"(2), of dev_ok "fst (conn_turn dev_ok tid ip g)"]])
      simp
  show ?case
  proof (cases r)
    case TunnelBlocked
    with pump ReadPacket_none(1) ru have "t' = t" "ps = []" "e = PumpWaits" by auto
    moreover have "(sg_tunnels g)[tid := t] = sg_tunnels g" using "1.prems"(4) by (metis list_update_id)
    ultimately show ?thesis by (simp add: after_turns_def serving_run.here)
  next
    case (TunnelEOF x)
    with pump ReadPacket_none(2) ru have e: "t' = t" "ps = []" "e = PumpTunnelDead" by auto
    have "snd (conn_turn dev_ok tid ip g) = after_turns tid ip [] PumpTunnelDead t g"
      using "1.prems"(4) ru TunnelEOF by (simp add: conn_turn_def after_turns_def Let_def flip: "1.prems"(4))
    with step e show ?thesis by simp
  next
    case (TunnelPacket p)
    note pkt = ReadPacket_packet [OF ru [unfolded TunnelPacket]]
    show ?thesis
    proof (cases "dev_ok p")
      case False
      with pump TunnelPacket have e: "t' = u" "ps = []" "e = PumpWriteFailed" by auto
      have "snd (conn_turn dev_ok tid ip g) = after_turns tid ip [] PumpWriteFailed u g"
        using "1.prems"(4) ru TunnelPacket False by (simp add: conn_turn_def after_turns_def srv_on_read Let_def)
      with step e show ?thesis by simp
    next
      case True
      obtain ps' where rec: "pump dev_ok u = (ps', e, t')" "ps = p # ps'"
        using pump TunnelPacket True by (auto split: prod.splits)
      let ?g = "snd (conn_turn dev_ok tid ip g)"
      have g: "?g = g\<lparr>sg_srv := (sg_srv g)\<lparr>srv_handler := (srv_handler (sg_srv g))\<lparr>h_tunnels := (sg_tunnels g)[tid := u]\<rparr>,
                srv_tun := srv_tun (sg_srv g) @ [p]\<rparr>\<rparr>"
        using "1.prems"(4) ru TunnelPacket True by (simp add: conn_turn_def srv_on_read Let_def)
      have "serving_run P ?g (after_turns tid ip ps' e t' ?g)"
        using "1.IH" [OF ru [symmetric] TunnelPacket True rec(1), of ?g] "1.prems"(2,3) by (simp add: g)
      moreover have "after_turns tid ip ps' e t' ?g = after_turns tid ip ps e t' g"
        by (simp add: after_turns_def g rec(2) Let_def)
      ultimately show ?thesis using serving_run_trans [OF step] by simp
    qed
  qed
qed

text \<open>C19. Packets of a client reach the device in order: handleConn as a whole is a run of single
  steps of the server, it writes to the device exactly the packets waiting in the tunnel up to
  the first one the device refuses, and its route exists exactly while it waits for more.\<close>

theorem uplink_in_order:
  assumes "serving_ok all g" "(tid, asg) \<in> set (sg_starting g)"
    and "server_handleConn dev_ok tid asg (sg_srv g) = (r, s)"
  shows "\<exists>e g' ip. r = Some e \<and> serving_run P g g' \<and> sg_srv g' = s
    \<and> ip = lease_of (srv_handler (sg_srv g)) tid
    \<and> srv_tun s = srv_tun (sg_srv g) @ takeWhile dev_ok (inbound (sg_tunnels g ! tid))
    \<and> (e = PumpWriteFailed \<longleftrightarrow> \<not> list_all dev_ok (inbound (sg_tunnels g ! tid)))
    \<and> srv_routes s = (srv_routes (sg_srv g))(ip := (if e = PumpWaits then Some tid else None))"
proof -
  let ?t = "sg_tunnels g ! tid" and ?ip = "lease_of (srv_handler (sg_srv g)) tid"
  note st = serving_starting [OF assms(1,2)]
  let ?g1 = "conn_start tid asg g"
  have g1: "sg_srv ?g1 = server_register ?ip tid (sg_srv g)" "(tid, ?ip) \<in> set (sg_running ?g1)"
    using st by (simp_all add: conn_start_def)
  have tun1: "sg_tunnels ?g1 = sg_tunnels g" by (simp add: g1 server_register_def)
  obtain ps e t' where p: "pump dev_ok ?t = (ps, e, t')" by (metis prod_cases3)
  from pump_result [OF p] obtain k where t': "t' = ?t\<lparr>inbound := drop k (inbound ?t)\<rparr>" by blast
  have run: "serving_run P g (after_turns tid ?ip ps e t' ?g1)"
    using serving_run_trans [OF serving_run.more [OF serving_run.here serving_step.start [OF assms(2)]]
        turns_run [OF p g1(2)]] st tun1 by simp
  have srv: "sg_srv (after_turns tid ?ip ps e t' ?g1) =
      (let s2 = (srv_on tid (\<lambda>_. t') (sg_srv ?g1))\<lparr>srv_tun := srv_tun (sg_srv ?g1) @ ps\<rparr>
       in if e = PumpWaits then s2 else server_unregister ?ip tid s2)"
    using tun1 t' by (simp add: after_turns_def on_tunnel_def Let_def)
  have "r = Some e" "s = sg_srv (after_turns tid ?ip ps e t' ?g1)"
    using assms(3) st p tun1 unfolding srv by (auto simp: server_handleConn_def g1(1) server_register_def Let_def)
  moreover from this(2) have "srv_tun s = srv_tun (sg_srv g) @ ps"
    "srv_routes s = (srv_routes (sg_srv g))(?ip := (if e = PumpWaits then Some tid else None))"
    by (simp_all add: after_turns_def g1(1) server_register_def server_unregister_def Let_def)
  ultimately show ?thesis using run pump_result [OF p] by blast
qed

theorem uplink_in_order_witness:
  "\<exists>asg e s. server_handleConn (\<lambda>_. True) 0 asg (sg_srv sample_serving) = (Some e, s) \<and> srv_tun s = []
     \<and> e \<noteq> PumpWriteFailed"
proof -
  let ?g = "sample_serving"
  have ok: "serving_ok (set (free (sv_pool sample_core))) ?g"
    by (rule server_started_ok [OF sample_New sample_server_handler sample_run])
  obtain k s rf where f:
    "h_tunnels (srv_handler (sg_srv ?g)) = [snd (addChannel 0 0 (set_conn 0 k (newTunnel (\<lambda>_. zero_conn) True)))]"
    "h_owner (srv_handler (sg_srv ?g)) = [(sample_sid, 0x0A080006)]"
    "h_sessions (srv_handler (sg_srv ?g)) = [(sample_sid, s)]"
    "sg_starting ?g = [(0, ss_assign s)]" "srv_tun (sg_srv ?g) = []"
    by (rule sample_obtain)
  have "inbound (sg_tunnels ?g ! 0) = []" using f(1) by (simp add: addChannel_def newTunnel_def)
  moreover obtain r u where "server_handleConn (\<lambda>_. True) 0 (ss_assign s) (sg_srv ?g) = (r, u)" by fastforce
  ultimately show ?thesis
    using uplink_in_order [OF ok, where tid = 0 and asg = "ss_assign s" and dev_ok = "\<lambda>_. True" and r = r
        and s = u and P = sample_prims] f(4,5) by auto
qed

text \<open>A server that cannot start leaves no device behind: when New fails, either the device
  was never opened or it was closed again, and NAT is not left set up; when it succeeds the
  device is open, configured and behind NAT, the keys are those of the configuration, the
  public key belongs to the private one and the pool has an address to give.\<close>

theorem New_undoes_the_device:
  "(\<forall>e effs. server_New P cfg os = (Inl e, effs) \<longrightarrow>
       effs = [] \<or> hd effs = OpenTun \<and> last effs = CloseTun \<and> SetupNAT \<notin> set effs)
    \<and> (\<forall>core effs. server_New P cfg os = (Inr core, effs) \<longrightarrow>
       effs = [OpenTun, IfUp, SetupNAT] \<and> DecodePSK (s_PSK cfg) = Inr (sv_psk core)
       \<and> DecodeKey32 (s_ServerPriv cfg) = Inr (Private (sv_static core))
       \<and> PublicFromPrivate P (Private (sv_static core)) = Inr (Public (sv_static core))
       \<and> ipPool_alloc (sv_pool core) \<noteq> None)"
proof (intro conjI allI impI)
  fix e effs assume "server_New P cfg os = (Inl e, effs)"
  then show "effs = [] \<or> hd effs = OpenTun \<and> last effs = CloseTun \<and> SetupNAT \<notin> set effs"
    by (auto simp: server_New_def split: sum.splits option.splits if_splits)
next
  fix core effs assume n: "server_New P cfg os = (Inr core, effs)"
  then show "effs = [OpenTun, IfUp, SetupNAT]" "DecodePSK (s_PSK cfg) = Inr (sv_psk core)"
    "DecodeKey32 (s_ServerPriv cfg) = Inr (Private (sv_static core))"
    "PublicFromPrivate P (Private (sv_static core)) = Inr (Public (sv_static core))"
    by (auto simp: server_New_def split: sum.splits option.splits if_splits)
  have "free (sv_pool core) \<noteq> []" using server_New_Inr(1) [OF n] by (auto elim: newIPPool_Inr)
  then show "ipPool_alloc (sv_pool core) \<noteq> None" by (simp add: ipPool_alloc_def Let_def)
qed

theorem New_undoes_the_device_witness: "ipPool_alloc (sv_pool sample_core) \<noteq> None"
  using New_undoes_the_device sample_New by blast

end
