(* ===== verification/Go_Os.thy ===== *)
theory Go_Os
  imports Go_Text
begin

text \<open>
  What the program uses of the operating system, through the packages os and os/exec, and of
  strings to read what commands print.

  The system is a parameter, a record of operations on a state of any type \<open>'w\<close>: running a
  command either fails with an error text or yields its standard output; reading a file yields
  its contents if that works; writing and removing tell whether they worked. Nothing is
  assumed of them here: what a theorem needs is a named hypothesis of the theorem.

  \<open>Fields\<close> and \<open>TrimSpace\<close> are those of the package strings on ASCII text, which is what the
  commands print.
\<close>

section \<open>Text\<close>

definition white :: "char \<Rightarrow> bool" where
  "white c \<longleftrightarrow> c = CHR '' '' \<or> (9 \<le> (of_char c :: nat) \<and> (of_char c :: nat) \<le> 13)"

definition TrimSpace :: "string \<Rightarrow> string" where
  "TrimSpace s = rev (dropWhile white (rev (dropWhile white s)))"

function Fields :: "string \<Rightarrow> string list" where
  "Fields [] = []"
| "Fields (c # s) =
     (if white c then Fields s
      else (c # takeWhile (\<lambda>x. \<not> white x) s) # Fields (dropWhile (\<lambda>x. \<not> white x) s))"
  by pat_completeness auto

termination by (relation "measure length") (auto simp: less_Suc_eq_le length_dropWhile_le)

lemma Fields_word:
  assumes "w \<noteq> []" and "list_all (\<lambda>x. \<not> white x) w" and "s = [] \<or> white (hd s)"
  shows "Fields (w @ s) = w # Fields s"
proof -
  from assms(1) obtain c w' where w: "w = c # w'" by (cases w) auto
  from assms(2) w have "\<not> white c" "\<forall>x\<in>set w'. \<not> white x" by (auto simp: list_all_iff)
  moreover from assms(3) have "takeWhile (\<lambda>x. \<not> white x) s = []" "dropWhile (\<lambda>x. \<not> white x) s = s"
    by (cases s; simp)+
  ultimately show ?thesis by (simp add: w)
qed

lemma Fields_blank: "white c \<Longrightarrow> Fields (c # s) = Fields s"
  by simp

section \<open>The system\<close>

record 'w system =
  exec :: "string list \<Rightarrow> 'w \<Rightarrow> (string + string) \<times> 'w"
  ReadFile :: "string \<Rightarrow> 'w \<Rightarrow> string option"
  WriteFile :: "string \<Rightarrow> string \<Rightarrow> 'w \<Rightarrow> bool \<times> 'w"
  Remove :: "string \<Rightarrow> 'w \<Rightarrow> bool \<times> 'w"

text \<open>
  Go's idiom on the system: run a call; return at once when it fails, else go on with its
  value in the state it left.
\<close>

definition os_then ::
  "('e + 'a) \<times> 'w \<Rightarrow> ('a \<Rightarrow> 'w \<Rightarrow> ('e + 'b) \<times> 'w) \<Rightarrow> ('e + 'b) \<times> 'w" where
  "os_then p f = (case p of (Inl e, w) \<Rightarrow> (Inl e, w) | (Inr a, w) \<Rightarrow> f a w)"

text \<open>The same with a clean-up and an error of the caller's own before it returns.\<close>

definition os_else ::
  "('e + 'a) \<times> 'w \<Rightarrow> ('e \<Rightarrow> 'w \<Rightarrow> ('f + 'b) \<times> 'w) \<Rightarrow> ('a \<Rightarrow> 'w \<Rightarrow> ('f + 'b) \<times> 'w)
     \<Rightarrow> ('f + 'b) \<times> 'w" where
  "os_else p g f = (case p of (Inl e, w) \<Rightarrow> g e w | (Inr a, w) \<Rightarrow> f a w)"

lemma os_then_simps [simp]:
  "os_then (Inl e, w) f = (Inl e, w)" "os_then (Inr a, w) f = f a w"
  by (simp_all add: os_then_def)

lemma os_else_simps [simp]:
  "os_else (Inl e, w) g f = g e w" "os_else (Inr a, w) g f = f a w"
  by (simp_all add: os_else_def)

lemma os_then_Inr:
  "os_then p f = (Inr b, w') \<longleftrightarrow> (\<exists>a w. p = (Inr a, w) \<and> f a w = (Inr b, w'))"
  by (cases p; cases "fst p") auto

lemma os_else_Inr:
  assumes "\<And>e w. isl (fst (g e w))"
  shows "os_else p g f = (Inr b, w') \<longleftrightarrow> (\<exists>a w. p = (Inr a, w) \<and> f a w = (Inr b, w'))"
  using assms by (cases p; cases "fst p") (auto, metis fst_conv sum.disc(2))

end
