(* ===== verification/Krot_Netif.thy ===== *)
theory Krot_Netif
  imports Go_Os Go_Net "HOL-Library.Multiset"
begin

text \<open>
  internal/netif/netif_linux.go: bringing an interface up, the client's routes and DNS, the
  source route of the SOCKS mode, and the server's NAT, with the teardown of each.

  The commands are the lists of words the code runs; what they do to the host is the
  parameter \<open>system\<close> of \<open>Go_Os\<close>. The predicates \<open>routing_ok\<close>, \<open>files_ok\<close>, \<open>policy_ok\<close> and
  \<open>iptables_ok\<close> state the documented behaviour of the commands on the parts of the host that
  they manage, read by views: the routing tables, the policy rules, the installed iptables
  rules and the files. A failed command leaves its part unchanged.
\<close>

section \<open>Commands\<close>

datatype netif_error =
    CmdFailed "string list" string
  | NoRouteTo string string
  | TableRoute netif_error
  | AddRule netif_error
  | BadTunCIDR string
  | NoDefaultRoute
  | FileFailed string

definition run :: "'w system \<Rightarrow> string list \<Rightarrow> 'w \<Rightarrow> (netif_error + unit) \<times> 'w" where
  "run S args w =
     (case exec S args w of (Inl m, w') \<Rightarrow> (Inl (CmdFailed args m), w') | (Inr out, w') \<Rightarrow> (Inr (), w'))"

definition runOut :: "'w system \<Rightarrow> string list \<Rightarrow> 'w \<Rightarrow> (netif_error + string) \<times> 'w" where
  "runOut S args w =
     (case exec S args w of
        (Inl m, w') \<Rightarrow> (Inl (CmdFailed args m), w')
      | (Inr out, w') \<Rightarrow> (Inr (TrimSpace out), w'))"

text \<open>A command whose failure is ignored.\<close>

abbreviation try_run :: "'w system \<Rightarrow> string list \<Rightarrow> 'w \<Rightarrow> 'w" where
  "try_run S args w \<equiv> snd (run S args w)"

lemma try_run: "try_run S args w = snd (exec S args w)"
  by (simp add: run_def split: prod.split sum.split)

definition IfUp :: "'w system \<Rightarrow> string \<Rightarrow> string \<Rightarrow> int \<Rightarrow> 'w \<Rightarrow> (netif_error + unit) \<times> 'w" where
  "IfUp S nm cidr mtu w =
     os_then (run S [''ip'', ''addr'', ''add'', cidr, ''dev'', nm] w) (\<lambda>_ w.
     os_then (run S [''ip'', ''link'', ''set'', ''dev'', nm, ''mtu'', dec_int mtu] w) (\<lambda>_ w.
     run S [''ip'', ''link'', ''set'', ''dev'', nm, ''up''] w))"

section \<open>Client routes\<close>

record route_state =
  rs_serverIP :: string
  rs_gw :: string
  rs_dev :: string
  rs_tun :: string
  rs_dnsBak :: string

text \<open>The loop of routeTo over the words of the output: the last word after each keyword wins.\<close>

fun route_scan :: "string list \<Rightarrow> string \<times> string \<Rightarrow> string \<times> string" where
  "route_scan (x # y # r) (gw, dev) =
     route_scan (y # r)
       (if x = ''via'' then (y, dev) else if x = ''dev'' then (gw, y) else (gw, dev))"
| "route_scan _ p = p"

definition routeTo :: "'w system \<Rightarrow> string \<Rightarrow> 'w \<Rightarrow> (netif_error + string \<times> string) \<times> 'w" where
  "routeTo S ip w =
     os_then (runOut S [''ip'', ''route'', ''get'', ip] w) (\<lambda>out w.
       let (gw, dev) = route_scan (Fields out) ([], []) in
       if dev = [] then (Inl (NoRouteTo ip out), w) else (Inr (gw, dev), w))"

definition resolv :: string where "resolv = ''/etc/resolv.conf''"
definition bak :: string where "bak = ''/etc/resolv.conf.krot.bak''"

definition managed :: "string \<Rightarrow> string" where
  "managed dns = ''# managed by krot'' @ [CHR 0x0A] @ ''nameserver '' @ dns @ [CHR 0x0A]"

definition write_file :: "'w system \<Rightarrow> string \<Rightarrow> string \<Rightarrow> 'w \<Rightarrow> (netif_error + unit) \<times> 'w" where
  "write_file S f d w =
     (case WriteFile S f d w of (ok, w') \<Rightarrow> (if ok then Inr () else Inl (FileFailed f), w'))"

text \<open>setDNS changes the state it is called on before it can fail, so it returns it with the result.\<close>

definition setDNS ::
  "'w system \<Rightarrow> string \<Rightarrow> route_state \<Rightarrow> 'w \<Rightarrow> (netif_error option \<times> route_state) \<times> 'w" where
  "setDNS S dns rs w =
     (case ReadFile S resolv w of
        None \<Rightarrow>
          (case write_file S resolv (managed dns) w of
             (Inl e, w') \<Rightarrow> ((Some e, rs), w') | (Inr _, w') \<Rightarrow> ((None, rs), w'))
      | Some cur \<Rightarrow>
          (case write_file S bak cur w of
             (Inl e, w') \<Rightarrow> ((Some e, rs), w')
           | (Inr _, w1) \<Rightarrow>
               let rs1 = rs\<lparr>rs_dnsBak := bak\<rparr> in
               (case write_file S resolv (managed dns) w1 of
                  (Inl e, w') \<Rightarrow> ((Some e, rs1), w') | (Inr _, w') \<Rightarrow> ((None, rs1), w'))))"

text \<open>The words of the server's pinned route, and of the routes through the device.\<close>

definition pin_hop :: "route_state \<Rightarrow> string list" where
  "pin_hop rs = (if rs_gw rs \<noteq> [] then [''via'', rs_gw rs, ''dev'', rs_dev rs] else [''dev'', rs_dev rs])"

definition pin_prefix :: "string \<Rightarrow> string" where "pin_prefix ip = ip @ ''/32''"

definition half0 :: string where "half0 = ''0.0.0.0/1''"
definition half1 :: string where "half1 = ''128.0.0.0/1''"

definition route_add :: "'w system \<Rightarrow> string \<Rightarrow> string list \<Rightarrow> 'w \<Rightarrow> (netif_error + unit) \<times> 'w" where
  "route_add S p hop w = run S ([''ip'', ''route'', ''add'', p] @ hop) w"

definition route_del :: "'w system \<Rightarrow> string \<Rightarrow> string list \<Rightarrow> 'w \<Rightarrow> 'w" where
  "route_del S p hop w = try_run S ([''ip'', ''route'', ''del'', p] @ hop) w"

definition RouteState_Teardown :: "'w system \<Rightarrow> route_state \<Rightarrow> 'w \<Rightarrow> route_state \<times> 'w" where
  "RouteState_Teardown S rs w =
     (let w1 = route_del S half0 [''dev'', rs_tun rs] w;
          w2 = route_del S half1 [''dev'', rs_tun rs] w1;
          w3 = route_del S (pin_prefix (rs_serverIP rs)) (pin_hop rs) w2
      in if rs_dnsBak rs \<noteq> [] then
           let w4 = (case ReadFile S (rs_dnsBak rs) w3 of
                       None \<Rightarrow> w3 | Some d \<Rightarrow> snd (WriteFile S resolv d w3))
           in (rs\<lparr>rs_dnsBak := []\<rparr>, snd (Remove S (rs_dnsBak rs) w4))
         else (rs, w3))"

definition SetupClientRoutes ::
  "'w system \<Rightarrow> string \<Rightarrow> string \<Rightarrow> string \<Rightarrow> 'w \<Rightarrow> (netif_error + route_state) \<times> 'w" where
  "SetupClientRoutes S serverIP tunName dns w =
     os_then (routeTo S serverIP w) (\<lambda>(gw, dev) w.
     let rs = \<lparr>rs_serverIP = serverIP, rs_gw = gw, rs_dev = dev, rs_tun = tunName, rs_dnsBak = []\<rparr>;
         undo = (\<lambda>rs e w. (Inl e, snd (RouteState_Teardown S rs w))) in
     os_then (route_add S (pin_prefix serverIP) (pin_hop rs) w) (\<lambda>_ w.
     os_else (route_add S half0 [''dev'', tunName] w) (undo rs) (\<lambda>_ w.
     os_else (route_add S half1 [''dev'', tunName] w) (undo rs) (\<lambda>_ w.
     if dns \<noteq> [] then
       (case setDNS S dns rs w of
          ((Some e, rs1), w') \<Rightarrow> undo rs1 e w'
        | ((None, rs1), w') \<Rightarrow> (Inr rs1, w'))
     else (Inr rs, w)))))"

section \<open>Source routes\<close>

record src_route_state =
  sr_srcIP :: string
  sr_tun :: string
  sr_table :: string
  sr_added :: bool

definition src_table :: "string \<Rightarrow> string" where
  "src_table table = (if table = [] then ''100'' else table)"

text \<open>Loose reverse-path filtering, for all interfaces and for the device; failures are ignored.\<close>

definition loose_rp :: "'w system \<Rightarrow> string \<Rightarrow> 'w \<Rightarrow> 'w" where
  "loose_rp S tunName w =
     try_run S [''sysctl'', ''-w'', ''net.ipv4.conf.'' @ tunName @ ''.rp_filter=2'']
       (try_run S [''sysctl'', ''-w'', ''net.ipv4.conf.all.rp_filter=2''] w)"

definition SetupSourceRoute ::
  "'w system \<Rightarrow> string \<Rightarrow> string \<Rightarrow> string \<Rightarrow> 'w \<Rightarrow> (netif_error + src_route_state) \<times> 'w" where
  "SetupSourceRoute S srcIP tunName table0 w =
     (let table = src_table table0;
          rs = \<lparr>sr_srcIP = srcIP, sr_tun = tunName, sr_table = table, sr_added = False\<rparr>;
          w1 = loose_rp S tunName w
      in os_else (run S [''ip'', ''route'', ''replace'', ''default'', ''dev'', tunName, ''src'', srcIP,
                         ''table'', table] w1)
           (\<lambda>e w. (Inl (TableRoute e), w)) (\<lambda>_ w.
         let w3 = try_run S [''ip'', ''rule'', ''del'', ''from'', srcIP, ''lookup'', table] w in
         os_else (run S [''ip'', ''rule'', ''add'', ''from'', srcIP, ''lookup'', table] w3)
           (\<lambda>e w. (Inl (AddRule e), try_run S [''ip'', ''route'', ''flush'', ''table'', table] w))
           (\<lambda>_ w. (Inr (rs\<lparr>sr_added := True\<rparr>), w))))"

definition SrcRouteState_Teardown :: "'w system \<Rightarrow> src_route_state \<Rightarrow> 'w \<Rightarrow> src_route_state \<times> 'w" where
  "SrcRouteState_Teardown S rs w =
     (if \<not> sr_added rs then (rs, w)
      else
        let w1 = try_run S [''ip'', ''rule'', ''del'', ''from'', sr_srcIP rs, ''lookup'', sr_table rs] w;
            w2 = try_run S [''ip'', ''route'', ''flush'', ''table'', sr_table rs] w1
        in (rs\<lparr>sr_added := False\<rparr>, w2))"

section \<open>Server NAT\<close>

type_synonym nat_state = "string list list"      \<comment> \<open>NATState.rules\<close>

fun default_dev :: "string list \<Rightarrow> string option" where
  "default_dev (x # y # r) = (if x = ''dev'' then Some y else default_dev (y # r))"
| "default_dev _ = None"

definition defaultWAN :: "'w system \<Rightarrow> 'w \<Rightarrow> (netif_error + string) \<times> 'w" where
  "defaultWAN S w =
     os_then (runOut S [''ip'', ''route'', ''show'', ''default''] w) (\<lambda>out w.
       (or_err NoDefaultRoute (default_dev (Fields out)), w))"

definition NATState_Teardown :: "'w system \<Rightarrow> nat_state \<Rightarrow> 'w \<Rightarrow> nat_state \<times> 'w" where
  "NATState_Teardown S rules w =
     ([], fold (\<lambda>r. try_run S (''iptables'' # map (\<lambda>a. if a = ''-A'' then ''-D'' else a) r)) rules w)"

definition nat_rules :: "string \<Rightarrow> string \<Rightarrow> string \<Rightarrow> string list list" where
  "nat_rules tunName subnet wan =
     [[''-t'', ''nat'', ''-A'', ''POSTROUTING'', ''-s'', subnet, ''-o'', wan, ''-j'', ''MASQUERADE''],
      [''-A'', ''FORWARD'', ''-i'', tunName, ''-o'', wan, ''-j'', ''ACCEPT''],
      [''-A'', ''FORWARD'', ''-i'', wan, ''-o'', tunName, ''-m'', ''state'', ''--state'',
       ''RELATED,ESTABLISHED'', ''-j'', ''ACCEPT'']]"

fun install_rules :: "'w system \<Rightarrow> string list list \<Rightarrow> nat_state \<Rightarrow> 'w \<Rightarrow> (netif_error + nat_state) \<times> 'w" where
  "install_rules S [] done_rules w = (Inr done_rules, w)"
| "install_rules S (r # rs) done_rules w =
     os_else (run S (''iptables'' # r) w)
       (\<lambda>e w. (Inl e, snd (NATState_Teardown S done_rules w)))
       (\<lambda>_ w. install_rules S rs (done_rules @ [r]) w)"

definition SetupServerNAT ::
  "'w system \<Rightarrow> string \<Rightarrow> string \<Rightarrow> string \<Rightarrow> 'w \<Rightarrow> (netif_error + nat_state) \<times> 'w" where
  "SetupServerNAT S tunName tunCIDR wanIface w =
     os_then (run S [''sysctl'', ''-w'', ''net.ipv4.ip_forward=1''] w) (\<lambda>_ w.
     case ParseCIDR tunCIDR of
       None \<Rightarrow> (Inl (BadTunCIDR tunCIDR), w)
     | Some (_, net) \<Rightarrow>
         os_then (if wanIface = [] then defaultWAN S w else (Inr wanIface, w)) (\<lambda>wan w.
           install_rules S (nat_rules tunName (IPNet_String net) wan) [] w))"

section \<open>What the commands do to the host\<close>

text \<open>
  The main routing table of the host as a map from prefixes to hops, the words after the
  prefix. A hop leaves through a device, possibly by a gateway. \<open>ip route add\<close> fails when the
  prefix has a route; \<open>ip route del\<close> removes the route the words name, and none when the
  prefix has no route or one through another device.
\<close>

definition is_hop :: "string list \<Rightarrow> bool" where
  "is_hop hop \<longleftrightarrow> (\<exists>d. hop = [''dev'', d]) \<or> (\<exists>g d. hop = [''via'', g, ''dev'', d])"

type_synonym routes = "string \<rightharpoonup> string list"
type_synonym files = "string \<rightharpoonup> string"

definition undo_route :: "string \<Rightarrow> string list \<Rightarrow> routes \<Rightarrow> routes" where
  "undo_route p hop m = (if m p = Some hop then m(p := None) else m)"

definition adds_route ::
  "'w system \<Rightarrow> ('w \<Rightarrow> routes) \<Rightarrow> ('w \<Rightarrow> files) \<Rightarrow> string \<Rightarrow> string list \<Rightarrow> bool" where
  "adds_route S R F p hop \<longleftrightarrow>
     (\<forall>w. case exec S ([''ip'', ''route'', ''add'', p] @ hop) w of
        (Inl m, w') \<Rightarrow> R w' = R w \<and> F w' = F w
      | (Inr out, w') \<Rightarrow> R w p = None \<and> R w' = (R w)(p \<mapsto> hop) \<and> F w' = F w)"

definition dels_route ::
  "'w system \<Rightarrow> ('w \<Rightarrow> routes) \<Rightarrow> ('w \<Rightarrow> files) \<Rightarrow> string \<Rightarrow> string list \<Rightarrow> bool" where
  "dels_route S R F p hop \<longleftrightarrow>
     (\<forall>w. let w' = snd (exec S ([''ip'', ''route'', ''del'', p] @ hop) w) in
        F w' = F w \<and> (case R w p of
            None \<Rightarrow> R w' = R w
          | Some hop' \<Rightarrow> (hop' = hop \<longrightarrow> R w' = (R w)(p := None))
                       \<and> (last hop' \<noteq> last hop \<longrightarrow> R w' = R w)))"

definition only_reads :: "'w system \<Rightarrow> ('w \<Rightarrow> 'v) \<Rightarrow> string list \<Rightarrow> bool" where
  "only_reads S V args \<longleftrightarrow> (\<forall>w. V (snd (exec S args w)) = V w)"

definition routing_ok :: "'w system \<Rightarrow> ('w \<Rightarrow> routes) \<Rightarrow> ('w \<Rightarrow> files) \<Rightarrow> string set \<Rightarrow> bool" where
  "routing_ok S R F P \<longleftrightarrow>
     (\<forall>ip. only_reads S R [''ip'', ''route'', ''get'', ip] \<and> only_reads S F [''ip'', ''route'', ''get'', ip])
   \<and> (\<forall>p\<in>P. \<forall>hop. is_hop hop \<longrightarrow> adds_route S R F p hop \<and> dels_route S R F p hop)"

text \<open>Files: what is there can be read and removed; a failed write may leave anything in its file.\<close>

definition files_ok :: "'w system \<Rightarrow> ('w \<Rightarrow> routes) \<Rightarrow> ('w \<Rightarrow> files) \<Rightarrow> bool" where
  "files_ok S R F \<longleftrightarrow>
     (\<forall>f w. ReadFile S f w = F w f)
   \<and> (\<forall>f d w. let (ok, w') = WriteFile S f d w in
        R w' = R w \<and> (ok \<longrightarrow> F w' = (F w)(f \<mapsto> d)) \<and> (\<forall>g. g \<noteq> f \<longrightarrow> F w' g = F w g))
   \<and> (\<forall>f w. let w' = snd (Remove S f w) in R w' = R w \<and> F w' = (F w)(f := None))"

lemma is_hop [simp]: "is_hop [''dev'', d]" "is_hop (pin_hop rs)"
  by (simp_all add: is_hop_def pin_hop_def)

lemma prefixes_differ [simp]:
  "half0 \<noteq> half1" "half1 \<noteq> half0" "pin_prefix ip \<noteq> half0" "pin_prefix ip \<noteq> half1"
  "half0 \<noteq> pin_prefix ip" "half1 \<noteq> pin_prefix ip"
proof -
  have "last (pin_prefix ip) = CHR ''2''" "last half0 = CHR ''1''" "last half1 = CHR ''1''"
    by (simp_all add: pin_prefix_def half0_def half1_def)
  then show "pin_prefix ip \<noteq> half0" "pin_prefix ip \<noteq> half1" "half0 \<noteq> pin_prefix ip"
    "half1 \<noteq> pin_prefix ip" by fastforce+
  show "half0 \<noteq> half1" "half1 \<noteq> half0" by (simp_all add: half0_def half1_def)
qed

lemma runOut_snd [simp]: "snd (runOut S args w) = snd (exec S args w)"
  by (simp add: runOut_def split: prod.split sum.split)

lemma os_then_snd: "(\<And>a w'. p = (Inr a, w') \<Longrightarrow> V (snd (f a w')) = V w') \<Longrightarrow> V (snd (os_then p f)) = V (snd p)"
  by (cases p; cases "fst p") auto

lemma routeTo_view:
  assumes "routing_ok S R F P"
  shows "R (snd (routeTo S ip w)) = R w" "F (snd (routeTo S ip w)) = F w"
proof -
  have *: "V (snd (routeTo S ip w)) = V (snd (exec S [''ip'', ''route'', ''get'', ip] w))" for V :: "'a \<Rightarrow> 'v"
    unfolding routeTo_def
    by (subst os_then_snd) (simp_all add: Let_def split: prod.split)
  from assms have "only_reads S R [''ip'', ''route'', ''get'', ip]" "only_reads S F [''ip'', ''route'', ''get'', ip]"
    unfolding routing_ok_def by blast+
  then show "R (snd (routeTo S ip w)) = R w" "F (snd (routeTo S ip w)) = F w"
    by (simp_all only: * only_reads_def)
qed

lemma route_add_view:
  assumes "routing_ok S R F P" "p \<in> P" "is_hop hop"
  shows "case route_add S p hop w of
      (Inl e, w') \<Rightarrow> R w' = R w \<and> F w' = F w
    | (Inr u, w') \<Rightarrow> R w p = None \<and> R w' = (R w)(p \<mapsto> hop) \<and> F w' = F w"
proof -
  from assms have "adds_route S R F p hop" unfolding routing_ok_def by blast
  then have "case exec S ([''ip'', ''route'', ''add'', p] @ hop) w of
        (Inl m, w') \<Rightarrow> R w' = R w \<and> F w' = F w
      | (Inr out, w') \<Rightarrow> R w p = None \<and> R w' = (R w)(p \<mapsto> hop) \<and> F w' = F w"
    unfolding adds_route_def by (rule spec)
  then show ?thesis unfolding route_add_def run_def by (simp split: prod.splits sum.splits)
qed

lemma route_add_cases:
  assumes "routing_ok S R F P" "p \<in> P" "is_hop hop"
  obtains (refused) e w' where "route_add S p hop w = (Inl e, w')" "R w' = R w" "F w' = F w"
    | (added) w' where "route_add S p hop w = (Inr (), w')" "R w p = None"
        "R w' = (R w)(p \<mapsto> hop)" "F w' = F w"
proof -
  obtain r w' where "route_add S p hop w = (r, w')" by fastforce
  with route_add_view [OF assms, of w] that show thesis by (cases r) auto
qed

lemma route_del_view:
  assumes "routing_ok S R F P" "p \<in> P" "is_hop hop"
  shows "F (route_del S p hop w) = F w"
    and "R w p = None \<or> R w p = Some hop \<or> last (the (R w p)) \<noteq> last hop
      \<Longrightarrow> R (route_del S p hop w) = undo_route p hop (R w)"
proof -
  from assms have "dels_route S R F p hop" unfolding routing_ok_def by blast
  then have *: "let w' = route_del S p hop w in
        F w' = F w \<and> (case R w p of
            None \<Rightarrow> R w' = R w
          | Some hop' \<Rightarrow> (hop' = hop \<longrightarrow> R w' = (R w)(p := None))
                       \<and> (last hop' \<noteq> last hop \<longrightarrow> R w' = R w))"
    unfolding dels_route_def route_del_def try_run by (rule spec)
  then show "F (route_del S p hop w) = F w" by (simp add: Let_def)
  show "R w p = None \<or> R w p = Some hop \<or> last (the (R w p)) \<noteq> last hop
      \<Longrightarrow> R (route_del S p hop w) = undo_route p hop (R w)"
    using * by (auto simp: Let_def undo_route_def split: option.splits)
qed

lemma write_file_view:
  assumes "files_ok S R F"
  shows "R (snd (WriteFile S f d w)) = R w"
    and "fst (WriteFile S f d w) \<Longrightarrow> F (snd (WriteFile S f d w)) = (F w)(f \<mapsto> d)"
    and "g \<noteq> f \<Longrightarrow> F (snd (WriteFile S f d w)) g = F w g"
  using assms unfolding files_ok_def by (auto simp: case_prod_beta)

lemma remove_view:
  assumes "files_ok S R F"
  shows "R (snd (Remove S f w)) = R w" "F (snd (Remove S f w)) = (F w)(f := None)"
  using assms unfolding files_ok_def by (auto simp: Let_def)

lemma read_view: "files_ok S R F \<Longrightarrow> ReadFile S f w = F w f"
  by (simp add: files_ok_def)

section \<open>Teardown undoes the client's routes\<close>

abbreviation tun_hop :: "string \<Rightarrow> string list" where
  "tun_hop d \<equiv> [''dev'', d]"

abbreviation client_prefixes :: "string \<Rightarrow> string set" where
  "client_prefixes ip \<equiv> {half0, half1, pin_prefix ip}"

definition undo_client :: "route_state \<Rightarrow> routes \<Rightarrow> routes" where
  "undo_client rs m =
     undo_route (pin_prefix (rs_serverIP rs)) (pin_hop rs)
       (undo_route half1 (tun_hop (rs_tun rs)) (undo_route half0 (tun_hop (rs_tun rs)) m))"

text \<open>A table in which the deletions of Teardown hit its own routes or nothing.\<close>

definition own_routes :: "route_state \<Rightarrow> routes \<Rightarrow> bool" where
  "own_routes rs m \<longleftrightarrow>
     (\<forall>p\<in>{half0, half1}. m p = None \<or> m p = Some (tun_hop (rs_tun rs)) \<or> last (the (m p)) \<noteq> rs_tun rs)
   \<and> (m (pin_prefix (rs_serverIP rs)) = None \<or> m (pin_prefix (rs_serverIP rs)) = Some (pin_hop rs))"

lemma Teardown_state:
  "fst (RouteState_Teardown S rs w) = rs\<lparr>rs_dnsBak := []\<rparr>"
  by (simp add: RouteState_Teardown_def Let_def)

lemma Teardown_routes:
  assumes "routing_ok S R F (client_prefixes (rs_serverIP rs))" and "files_ok S R F" and "own_routes rs (R w)"
  shows "R (snd (RouteState_Teardown S rs w)) = undo_client rs (R w)"
proof -
  let ?t = "tun_hop (rs_tun rs)"
  let ?w1 = "route_del S half0 ?t w"
  let ?w2 = "route_del S half1 ?t ?w1"
  let ?w3 = "route_del S (pin_prefix (rs_serverIP rs)) (pin_hop rs) ?w2"
  have 1: "R ?w1 = undo_route half0 ?t (R w)"
    by (rule route_del_view(2) [OF assms(1)]) (use assms(3) in \<open>auto simp: own_routes_def\<close>)
  have 2: "R ?w2 = undo_route half1 ?t (R ?w1)"
    by (rule route_del_view(2) [OF assms(1)])
      (use assms(3) in \<open>auto simp: own_routes_def undo_route_def 1\<close>)
  have 3: "R ?w3 = undo_route (pin_prefix (rs_serverIP rs)) (pin_hop rs) (R ?w2)"
    by (rule route_del_view(2) [OF assms(1)])
      (use assms(3) in \<open>auto simp: own_routes_def undo_route_def 1 2\<close>)
  have "R (snd (RouteState_Teardown S rs w)) = R ?w3"
    by (simp add: RouteState_Teardown_def Let_def remove_view [OF assms(2)] write_file_view [OF assms(2)]
        split: option.split)
  then show ?thesis by (simp add: 1 2 3 undo_client_def)
qed

lemma setDNS_view:
  assumes "files_ok S R F"
  shows "R (snd (setDNS S dns rs w)) = R w"
    and "snd (fst (setDNS S dns rs w)) \<in> {rs, rs\<lparr>rs_dnsBak := bak\<rparr>}"
  using write_file_view(1) [OF assms]
  by (auto simp: setDNS_def write_file_def Let_def split: option.splits prod.splits) (metis snd_conv)+

lemma undo_client_dns [simp]: "undo_client (rs\<lparr>rs_dnsBak := b\<rparr>) m = undo_client rs m"
  "own_routes (rs\<lparr>rs_dnsBak := b\<rparr>) m = own_routes rs m"
  by (simp_all add: undo_client_def own_routes_def pin_hop_def)

definition no_halves :: "string \<Rightarrow> routes \<Rightarrow> bool" where
  "no_halves tun m \<longleftrightarrow> (\<forall>p\<in>{half0, half1}. m p = None \<or> last (the (m p)) \<noteq> tun)"

lemma partial_tables:
  fixes rs m
  defines "p \<equiv> pin_prefix (rs_serverIP rs)" and "t \<equiv> tun_hop (rs_tun rs)" and "h \<equiv> pin_hop rs"
  assumes "no_halves (rs_tun rs) m" and "m p = None"
  shows "own_routes rs (m(p \<mapsto> h))" "undo_client rs (m(p \<mapsto> h)) = m"
    and "m half0 = None \<Longrightarrow> own_routes rs (m(p \<mapsto> h, half0 \<mapsto> t))"
    "m half0 = None \<Longrightarrow> undo_client rs (m(p \<mapsto> h, half0 \<mapsto> t)) = m"
    and "m half0 = None \<Longrightarrow> m half1 = None \<Longrightarrow> own_routes rs (m(p \<mapsto> h, half0 \<mapsto> t, half1 \<mapsto> t))"
    "m half0 = None \<Longrightarrow> m half1 = None \<Longrightarrow> undo_client rs (m(p \<mapsto> h, half0 \<mapsto> t, half1 \<mapsto> t)) = m"
  using assms(4,5) unfolding p_def t_def h_def
  by (auto simp: own_routes_def undo_client_def undo_route_def no_halves_def fun_eq_iff)

lemma SetupClientRoutes_view:
  assumes ok: "routing_ok S R F (client_prefixes ip)" and files: "files_ok S R F"
    and pre: "no_halves tun (R w)"
  shows "case SetupClientRoutes S ip tun dns w of
      (Inl e, w') \<Rightarrow> R w' = R w
    | (Inr rs, w') \<Rightarrow> rs_serverIP rs = ip \<and> rs_tun rs = tun
        \<and> R w (pin_prefix ip) = None \<and> R w half0 = None \<and> R w half1 = None
        \<and> R w' = (R w)(pin_prefix ip \<mapsto> pin_hop rs, half0 \<mapsto> tun_hop tun, half1 \<mapsto> tun_hop tun)"
proof -
  obtain r w0 where r: "routeTo S ip w = (r, w0)" by fastforce
  with routeTo_view [OF ok, of ip w] have w0: "R w0 = R w" by simp
  show ?thesis
  proof (cases r)
    case Inl
    then show ?thesis by (simp add: SetupClientRoutes_def r w0)
  next
    case (Inr gd)
    then obtain gw dev where gd: "r = Inr (gw, dev)" by (cases gd) auto
    define rs where "rs = \<lparr>rs_serverIP = ip, rs_gw = gw, rs_dev = dev, rs_tun = tun, rs_dnsBak = []\<rparr>"
    have rs: "rs_serverIP rs = ip" "rs_tun rs = tun" by (simp_all add: rs_def)
    have ok': "routing_ok S R F (client_prefixes (rs_serverIP rs))" by (simp add: ok rs)
    note tables = partial_tables [of rs "R w", unfolded rs, OF pre]
    note def = SetupClientRoutes_def r gd rs_def [symmetric] Let_def
    show ?thesis
    proof (cases rule: route_add_cases [OF ok, of "pin_prefix ip" "pin_hop rs" w0])
      case (3 e w')
      then show ?thesis by (simp add: def w0)
    next
      case (4 w1)
      then have pin: "R w (pin_prefix ip) = None" and w1: "R w1 = (R w)(pin_prefix ip \<mapsto> pin_hop rs)"
        by (simp_all add: w0)
      show ?thesis
      proof (cases rule: route_add_cases [OF ok, of half0 "tun_hop tun" w1])
        case (3 e w2)
        with tables(1,2) [OF pin] Teardown_routes [OF ok' files, of w2] 4
        show ?thesis by (simp add: def w1)
      next
        case w2: (4 w2)
        then have h0: "R w half0 = None" and w2': "R w2 = (R w)(pin_prefix ip \<mapsto> pin_hop rs, half0 \<mapsto> tun_hop tun)"
          by (simp_all add: w1)
        show ?thesis
        proof (cases rule: route_add_cases [OF ok, of half1 "tun_hop tun" w2])
          case (3 e w3)
          with tables(3,4) [OF pin h0] Teardown_routes [OF ok' files, of w3] 4 w2
          show ?thesis by (simp add: def w2')
        next
          case w3: (4 w3)
          then have h1: "R w half1 = None"
            and w3': "R w3 = (R w)(pin_prefix ip \<mapsto> pin_hop rs, half0 \<mapsto> tun_hop tun, half1 \<mapsto> tun_hop tun)"
            by (simp_all add: w2')
          obtain e rs1 w4 where d: "setDNS S dns rs w3 = ((e, rs1), w4)" by (metis prod.exhaust)
          have w4: "R w4 = R w3" and rs1: "rs1 = rs \<or> rs1 = rs\<lparr>rs_dnsBak := bak\<rparr>"
            using setDNS_view [OF files, of dns rs w3] by (simp_all add: d)
          have undo: "R (snd (RouteState_Teardown S rs1 w4)) = R w"
            using rs1 tables(5,6) [OF pin h0 h1] Teardown_routes [OF _ files, of rs1 w4] ok rs
            by (auto simp: w4 w3')
          have "rs_serverIP rs1 = ip \<and> rs_tun rs1 = tun \<and> pin_hop rs1 = pin_hop rs"
            using rs1 rs by (auto simp: pin_hop_def)
          with undo d 4 w2 w3 w3' w4 rs pin h0 h1 show ?thesis
            by (simp add: def split: option.split)
        qed simp_all
      qed simp_all
    qed simp_all
  qed
qed

lemma setDNS_files:
  assumes "files_ok S R F" and "setDNS S dns rs w = ((None, rs1), w1)"
  shows "case F w resolv of
      None \<Rightarrow> F w1 = (F w)(resolv \<mapsto> managed dns) \<and> rs1 = rs
    | Some c \<Rightarrow> F w1 = (F w)(bak \<mapsto> c, resolv \<mapsto> managed dns) \<and> rs1 = rs\<lparr>rs_dnsBak := bak\<rparr>"
  using assms(2) write_file_view(2) [OF assms(1)]
  by (auto simp: setDNS_def write_file_def read_view [OF assms(1)] Let_def
      split: option.splits prod.splits if_splits) (metis fst_conv snd_conv)+

lemma SetupClientRoutes_files:
  assumes ok: "routing_ok S R F (client_prefixes ip)"
    and "SetupClientRoutes S ip tun dns w = (Inr rs, w1)"
  obtains rs0 w0 where "F w0 = F w" "rs_dnsBak rs0 = []" "rs_serverIP rs0 = ip"
    "if dns \<noteq> [] then setDNS S dns rs0 w0 = ((None, rs), w1) else rs = rs0 \<and> w1 = w0"
proof -
  have keeps: "F v' = F v" if "route_add S p hop v = (Inr (), v')" "p \<in> client_prefixes ip" "is_hop hop" for p hop v v'
    using route_add_view [OF ok that(2,3), of v] that(1) by simp
  from assms(2) obtain gd u where u: "routeTo S ip w = (Inr gd, u)"
    and rest: "(case gd of (gw, dev) \<Rightarrow> \<lambda>w.
      let rs = \<lparr>rs_serverIP = ip, rs_gw = gw, rs_dev = dev, rs_tun = tun, rs_dnsBak = []\<rparr>;
         undo = (\<lambda>rs e w. (Inl e, snd (RouteState_Teardown S rs w))) in
      os_then (route_add S (pin_prefix ip) (pin_hop rs) w) (\<lambda>_ w.
      os_else (route_add S half0 (tun_hop tun) w) (undo rs) (\<lambda>_ w.
      os_else (route_add S half1 (tun_hop tun) w) (undo rs) (\<lambda>_ w.
      if dns \<noteq> [] then
        (case setDNS S dns rs w of
          ((Some e, rs1), w') \<Rightarrow> undo rs1 e w'
        | ((None, rs1), w') \<Rightarrow> (Inr rs1, w'))
      else (Inr rs, w))))) u = (Inr rs, w1)"
    unfolding SetupClientRoutes_def os_then_Inr by blast
  from u routeTo_view(2) [OF ok, of ip w] have fu: "F u = F w" by simp
  obtain gw dev where gd: "gd = (gw, dev)" by (cases gd)
  define rs0 where "rs0 = \<lparr>rs_serverIP = ip, rs_gw = gw, rs_dev = dev, rs_tun = tun, rs_dnsBak = []\<rparr>"
  from rest obtain v1 v2 v3 where v: "route_add S (pin_prefix ip) (pin_hop rs0) u = (Inr (), v1)"
      "route_add S half0 (tun_hop tun) v1 = (Inr (), v2)" "route_add S half1 (tun_hop tun) v2 = (Inr (), v3)"
    and d: "(if dns \<noteq> [] then
        (case setDNS S dns rs0 v3 of
          ((Some e, rs1), w') \<Rightarrow> (Inl e, snd (RouteState_Teardown S rs1 w'))
        | ((None, rs1), w') \<Rightarrow> (Inr rs1, w'))
      else (Inr rs0, v3)) = (Inr rs, w1)"
    unfolding rs0_def by (auto simp: gd Let_def os_then_Inr os_else_Inr)
  have "F v3 = F w" using keeps [OF v(1)] keeps [OF v(2)] keeps [OF v(3)] fu by simp
  moreover from d have "if dns \<noteq> [] then setDNS S dns rs0 v3 = ((None, rs), w1) else rs = rs0 \<and> w1 = v3"
    by (auto split: if_splits prod.splits option.splits)
  ultimately show thesis by (intro that [of v3 rs0]) (simp_all add: rs0_def)
qed

lemma Teardown_files:
  assumes "routing_ok S R F (client_prefixes (rs_serverIP rs))" and files: "files_ok S R F"
    and writable: "\<And>c v. F v resolv \<noteq> None \<Longrightarrow> fst (WriteFile S resolv c v)" and "F w resolv \<noteq> None"
  shows "F (snd (RouteState_Teardown S rs w)) =
    (if rs_dnsBak rs = [] then F w
     else (case F w (rs_dnsBak rs) of None \<Rightarrow> F w | Some c \<Rightarrow> (F w)(resolv \<mapsto> c))(rs_dnsBak rs := None))"
proof -
  let ?w3 = "route_del S (pin_prefix (rs_serverIP rs)) (pin_hop rs)
    (route_del S half1 (tun_hop (rs_tun rs)) (route_del S half0 (tun_hop (rs_tun rs)) w))"
  have w3: "F ?w3 = F w" by (simp add: route_del_view(1) [OF assms(1)])
  with assms(4) writable have "fst (WriteFile S resolv c ?w3)" for c by metis
  with w3 show ?thesis
    by (auto simp: RouteState_Teardown_def Let_def remove_view [OF files] read_view [OF files]
        write_file_view(2) [OF files] split: option.split)
qed

text \<open>Teardown in any later state with the same table.\<close>

lemma setup_then_teardown:
  assumes "routing_ok S R F (client_prefixes ip)" and "files_ok S R F" and "no_halves tun (R w)"
    and "SetupClientRoutes S ip tun dns w = (Inr rs, w')" and "R v = R w'"
  shows "R (snd (RouteState_Teardown S rs v)) = R w" and "own_routes rs (R w)" and "undo_client rs (R w) = R w"
proof -
  from SetupClientRoutes_view [OF assms(1-3), of dns] have rs: "rs_serverIP rs = ip" "rs_tun rs = tun"
    and absent: "R w (pin_prefix ip) = None" "R w half0 = None" "R w half1 = None"
    and w': "R w' = (R w)(pin_prefix ip \<mapsto> pin_hop rs, half0 \<mapsto> tun_hop tun, half1 \<mapsto> tun_hop tun)"
    by (simp_all add: assms(4))
  note tables = partial_tables(5,6) [of rs "R w", unfolded rs, OF assms(3) absent]
  from Teardown_routes [of S R F rs v] assms(1,2,5) rs tables
  show "R (snd (RouteState_Teardown S rs v)) = R w" by (simp add: w')
  show "own_routes rs (R w)" "undo_client rs (R w) = R w"
    using absent rs by (auto simp: own_routes_def undo_client_def undo_route_def)
qed

section \<open>Properties of the client's setup\<close>

text \<open>What SetupClientRoutes does to the routing table is undone: when it fails, at whatever step,
  the table is as before; when it succeeds, the server is pinned to the old gateway and both
  halves of the address space go through the device, and Teardown, called once or twice,
  brings the old table back. It holds where no half is already routed through the device.\<close>

theorem client_routes_reverted:
  assumes "routing_ok S R F (client_prefixes ip)" and "files_ok S R F" and "no_halves tun (R w)"
  shows "case SetupClientRoutes S ip tun dns w of
      (Inl e, w') \<Rightarrow> R w' = R w
    | (Inr rs, w') \<Rightarrow>
        R w' = (R w)(pin_prefix ip \<mapsto> pin_hop rs, half0 \<mapsto> tun_hop tun, half1 \<mapsto> tun_hop tun)
        \<and> (let (rs1, w1) = RouteState_Teardown S rs w' in
            R w1 = R w \<and> R (snd (RouteState_Teardown S rs1 w1)) = R w)"
proof -
  obtain r w' where r: "SetupClientRoutes S ip tun dns w = (r, w')" by fastforce
  show ?thesis
  proof (cases r)
    case Inl
    with SetupClientRoutes_view [OF assms, of dns] show ?thesis by (simp add: r)
  next
    case (Inr rs)
    from SetupClientRoutes_view [OF assms, of dns] have rs: "rs_serverIP rs = ip"
      and w': "R w' = (R w)(pin_prefix ip \<mapsto> pin_hop rs, half0 \<mapsto> tun_hop tun, half1 \<mapsto> tun_hop tun)"
      by (simp_all add: r Inr)
    note undo = setup_then_teardown [OF assms r [unfolded Inr] refl]
    obtain rs1 w1 where t: "RouteState_Teardown S rs w' = (rs1, w1)" by fastforce
    with Teardown_state [of S rs w'] have rs1: "rs1 = rs\<lparr>rs_dnsBak := []\<rparr>" by simp
    from undo(1) have w1: "R w1 = R w" by (simp add: t)
    with Teardown_routes [of S R F rs1 w1] assms(1,2) rs undo(2,3)
    have "R (snd (RouteState_Teardown S rs1 w1)) = R w" by (simp add: rs1 w1)
    with w' w1 show ?thesis by (simp add: r Inr t)
  qed
qed

text \<open>C30. The pinned route of a run that ended without Teardown blocks every later run: while the
  server's prefix has a route SetupClientRoutes fails and changes neither routes nor files.\<close>

theorem stale_pin_blocks_restart:
  assumes "routing_ok S R F (client_prefixes ip)" and "R w (pin_prefix ip) = Some hop"
  shows "\<exists>e w'. SetupClientRoutes S ip tun dns w = (Inl e, w') \<and> R w' = R w \<and> F w' = F w"
proof -
  obtain r w0 where r: "routeTo S ip w = (r, w0)" by fastforce
  with routeTo_view [OF assms(1), of ip w] have w0: "R w0 = R w" "F w0 = F w" by simp_all
  show ?thesis
  proof (cases r)
    case Inl
    with w0 show ?thesis by (simp add: SetupClientRoutes_def r)
  next
    case (Inr gd)
    obtain gw dev where gd: "gd = (gw, dev)" by (cases gd)
    define rs where "rs = \<lparr>rs_serverIP = ip, rs_gw = gw, rs_dev = dev, rs_tun = tun, rs_dnsBak = []\<rparr>"
    show ?thesis
      by (rule route_add_cases [OF assms(1), of "pin_prefix ip" "pin_hop rs" w0])
        (use assms(2) w0 in \<open>simp_all add: SetupClientRoutes_def r Inr gd rs_def [symmetric] Let_def\<close>)
  qed
qed

text \<open>C29. DNS over a run: while it lasts resolv.conf names the given server; Teardown restores the
  file that was there at the start and removes the backup, and touches no other file. Where
  there was no resolv.conf there is no backup, and the program's file stays behind. A backup
  left by a run that was killed is not restored but overwritten and removed.\<close>

theorem dns_after_teardown:
  assumes "routing_ok S R F (client_prefixes ip)" and "files_ok S R F"
    and "\<And>c v. F v resolv \<noteq> None \<Longrightarrow> fst (WriteFile S resolv c v)"
    and "dns \<noteq> []" and "SetupClientRoutes S ip tun dns w = (Inr rs, w1)"
  shows "F w1 resolv = Some (managed dns)
    \<and> F (snd (RouteState_Teardown S rs w1)) =
        (case F w resolv of
           Some c \<Rightarrow> (F w)(resolv \<mapsto> c, bak := None)
         | None \<Rightarrow> (F w)(resolv \<mapsto> managed dns))"
proof -
  obtain rs0 w0 where w0: "F w0 = F w" "rs_dnsBak rs0 = []" "rs_serverIP rs0 = ip"
    and d': "if dns \<noteq> [] then setDNS S dns rs0 w0 = ((None, rs), w1) else rs = rs0 \<and> w1 = w0"
    by (rule SetupClientRoutes_files [OF assms(1,5)])
  from d' assms(4) have d: "setDNS S dns rs0 w0 = ((None, rs), w1)" by simp
  have nb: "bak \<noteq> resolv" "bak \<noteq> []" by (simp_all add: bak_def resolv_def)
  from setDNS_files [OF assms(2) d]
  have s: "case F w resolv of
      None \<Rightarrow> F w1 = (F w)(resolv \<mapsto> managed dns) \<and> rs = rs0
    | Some c \<Rightarrow> F w1 = (F w)(bak \<mapsto> c, resolv \<mapsto> managed dns) \<and> rs = rs0\<lparr>rs_dnsBak := bak\<rparr>"
    by (simp only: w0(1))
  then have res: "F w1 resolv = Some (managed dns)" and ip: "rs_serverIP rs = ip"
    using w0(3) by (auto split: option.splits)
  have "F (snd (RouteState_Teardown S rs w1)) =
    (if rs_dnsBak rs = [] then F w1
     else (case F w1 (rs_dnsBak rs) of None \<Rightarrow> F w1 | Some c \<Rightarrow> (F w1)(resolv \<mapsto> c))(rs_dnsBak rs := None))"
    by (rule Teardown_files [OF _ assms(2,3)]) (simp_all add: ip assms(1) res)
  with s res nb w0(2) show ?thesis by (auto simp: fun_eq_iff split: option.splits)
qed

section \<open>Source routes and policy rules\<close>

text \<open>
  Routing tables by name, and the policy rules as a multiset of pairs of source and table: a
  rule can be there several times, and \<open>ip rule del\<close> removes one copy.
\<close>

definition replaces_default :: "'w system \<Rightarrow> ('w \<Rightarrow> string \<Rightarrow> routes) \<Rightarrow> ('w \<Rightarrow> (string \<times> string) multiset) \<Rightarrow> bool" where
  "replaces_default S T U \<longleftrightarrow>
     (\<forall>d s t w. case exec S [''ip'', ''route'', ''replace'', ''default'', ''dev'', d, ''src'', s, ''table'', t] w of
        (Inl m, w') \<Rightarrow> T w' = T w \<and> U w' = U w
      | (Inr out, w') \<Rightarrow> T w' = (T w)(t := (T w t)(''default'' \<mapsto> [''dev'', d, ''src'', s])) \<and> U w' = U w)"

definition changes_rules :: "'w system \<Rightarrow> ('w \<Rightarrow> string \<Rightarrow> routes) \<Rightarrow> ('w \<Rightarrow> (string \<times> string) multiset) \<Rightarrow> bool" where
  "changes_rules S T U \<longleftrightarrow>
     (\<forall>s t w. case exec S [''ip'', ''rule'', ''add'', ''from'', s, ''lookup'', t] w of
        (Inl m, w') \<Rightarrow> T w' = T w \<and> U w' = U w
      | (Inr out, w') \<Rightarrow> T w' = T w \<and> U w' = add_mset (s, t) (U w))
   \<and> (\<forall>s t w. let w' = snd (exec S [''ip'', ''rule'', ''del'', ''from'', s, ''lookup'', t] w) in
        T w' = T w \<and> U w' = U w - {#(s, t)#})"

definition flushes_table :: "'w system \<Rightarrow> ('w \<Rightarrow> string \<Rightarrow> routes) \<Rightarrow> ('w \<Rightarrow> (string \<times> string) multiset) \<Rightarrow> bool" where
  "flushes_table S T U \<longleftrightarrow>
     (\<forall>t w. let w' = snd (exec S [''ip'', ''route'', ''flush'', ''table'', t] w) in
        T w' = (T w)(t := Map.empty) \<and> U w' = U w)"

definition policy_ok :: "'w system \<Rightarrow> ('w \<Rightarrow> string \<Rightarrow> routes) \<Rightarrow> ('w \<Rightarrow> (string \<times> string) multiset) \<Rightarrow> bool" where
  "policy_ok S T U \<longleftrightarrow>
     (\<forall>k. only_reads S T [''sysctl'', ''-w'', k] \<and> only_reads S U [''sysctl'', ''-w'', k])
     \<and> replaces_default S T U \<and> changes_rules S T U \<and> flushes_table S T U"

lemma run_sum: "run S args w = (case exec S args w of (Inl m, w') \<Rightarrow> (Inl (CmdFailed args m), w') | (Inr out, w') \<Rightarrow> (Inr (), w'))"
  by (simp add: run_def)

lemma policy_view:
  assumes "policy_ok S T U"
  shows "T (try_run S [''sysctl'', ''-w'', k] w) = T w" "U (try_run S [''sysctl'', ''-w'', k] w) = U w"
    and "T (try_run S [''ip'', ''rule'', ''del'', ''from'', s, ''lookup'', t] w) = T w"
    and "U (try_run S [''ip'', ''rule'', ''del'', ''from'', s, ''lookup'', t] w) = U w - {#(s, t)#}"
    and "T (try_run S [''ip'', ''route'', ''flush'', ''table'', t] w) = (T w)(t := Map.empty)"
    and "U (try_run S [''ip'', ''route'', ''flush'', ''table'', t] w) = U w"
proof -
  note * = assms [unfolded policy_ok_def changes_rules_def flushes_table_def only_reads_def Let_def, folded try_run]
  from * show "T (try_run S [''sysctl'', ''-w'', k] w) = T w" "U (try_run S [''sysctl'', ''-w'', k] w) = U w" by blast+
  from * show "T (try_run S [''ip'', ''rule'', ''del'', ''from'', s, ''lookup'', t] w) = T w" by blast
  from * show "U (try_run S [''ip'', ''rule'', ''del'', ''from'', s, ''lookup'', t] w) = U w - {#(s, t)#}" by blast
  from * show "T (try_run S [''ip'', ''route'', ''flush'', ''table'', t] w) = (T w)(t := Map.empty)"
    "U (try_run S [''ip'', ''route'', ''flush'', ''table'', t] w) = U w" by blast+
qed

lemma replace_default_cases:
  assumes "policy_ok S T U"
  obtains (refused) e w' where "run S [''ip'', ''route'', ''replace'', ''default'', ''dev'', d, ''src'', s, ''table'', t] w = (Inl e, w')"
      "T w' = T w" "U w' = U w"
    | (replaced) w' where "run S [''ip'', ''route'', ''replace'', ''default'', ''dev'', d, ''src'', s, ''table'', t] w = (Inr (), w')"
      "T w' = (T w)(t := (T w t)(''default'' \<mapsto> [''dev'', d, ''src'', s]))" "U w' = U w"
proof -
  let ?c = "[''ip'', ''route'', ''replace'', ''default'', ''dev'', d, ''src'', s, ''table'', t]"
  from assms have "replaces_default S T U" unfolding policy_ok_def by blast
  then have *: "case exec S ?c w of
        (Inl m, w') \<Rightarrow> T w' = T w \<and> U w' = U w
      | (Inr out, w') \<Rightarrow> T w' = (T w)(t := (T w t)(''default'' \<mapsto> [''dev'', d, ''src'', s])) \<and> U w' = U w"
    by (rule replaces_default_def [THEN iffD1, THEN spec, THEN spec, THEN spec, THEN spec])
  obtain r w' where r: "exec S ?c w = (r, w')" by fastforce
  show thesis
  proof (cases r)
    case (Inl m)
    with * show thesis by (intro refused [of "CmdFailed ?c m" w']) (simp_all add: r run_sum)
  next
    case (Inr out)
    with * show thesis by (intro replaced [of w']) (simp_all add: r run_sum)
  qed
qed

lemma rule_add_cases:
  assumes "policy_ok S T U"
  obtains (refused) e w' where "run S [''ip'', ''rule'', ''add'', ''from'', s, ''lookup'', t] w = (Inl e, w')"
      "T w' = T w" "U w' = U w"
    | (added) w' where "run S [''ip'', ''rule'', ''add'', ''from'', s, ''lookup'', t] w = (Inr (), w')"
      "T w' = T w" "U w' = add_mset (s, t) (U w)"
proof -
  let ?c = "[''ip'', ''rule'', ''add'', ''from'', s, ''lookup'', t]"
  from assms have "changes_rules S T U" unfolding policy_ok_def by blast
  then have *: "case exec S ?c w of
        (Inl m, w') \<Rightarrow> T w' = T w \<and> U w' = U w
      | (Inr out, w') \<Rightarrow> T w' = T w \<and> U w' = add_mset (s, t) (U w)"
    by (rule changes_rules_def [THEN iffD1, THEN conjunct1, THEN spec, THEN spec, THEN spec])
  obtain r w' where r: "exec S ?c w = (r, w')" by fastforce
  show thesis
  proof (cases r)
    case (Inl m)
    with * show thesis by (intro refused [of "CmdFailed ?c m" w']) (simp_all add: r run_sum)
  next
    case (Inr out)
    with * show thesis by (intro added [of w']) (simp_all add: r run_sum)
  qed
qed

lemma source_route_view:
  assumes "policy_ok S T U" and "src_table table = t"
  shows "case SetupSourceRoute S src tun table w of
      (Inl e, w') \<Rightarrow> U w' \<subseteq># U w \<and> (\<forall>t'. t' \<noteq> t \<longrightarrow> T w' t' = T w t')
    | (Inr rs, w') \<Rightarrow>
        U w' = add_mset (src, t) (U w - {#(src, t)#})
        \<and> T w' = (T w)(t := (T w t)(''default'' \<mapsto> [''dev'', tun, ''src'', src]))
        \<and> (let (rs1, w1) = SrcRouteState_Teardown S rs w' in
            U w1 = U w - {#(src, t)#} \<and> T w1 = (T w)(t := Map.empty)
            \<and> SrcRouteState_Teardown S rs1 w1 = (rs1, w1))"
proof -
  let ?w2 = "loose_rp S tun w"
  have w2: "T ?w2 = T w" "U ?w2 = U w" by (simp_all only: loose_rp_def policy_view [OF assms(1)])
  note def = SetupSourceRoute_def Let_def assms(2)
  show ?thesis
  proof (cases rule: replace_default_cases [OF assms(1), of tun src t ?w2])
    case (1 e w')
    then show ?thesis by (simp add: def w2)
  next
    case (2 w3)
    let ?w4 = "try_run S [''ip'', ''rule'', ''del'', ''from'', src, ''lookup'', t] w3"
    note w3' = 2(2,3) [unfolded w2]
    have w4: "T ?w4 = (T w)(t := (T w t)(''default'' \<mapsto> [''dev'', tun, ''src'', src]))" "U ?w4 = U w - {#(src, t)#}"
      by (simp_all only: policy_view [OF assms(1)] 2 w2)
    show ?thesis
    proof (cases rule: rule_add_cases [OF assms(1), of src t ?w4])
      case (1 e w5)
      then show ?thesis
        by (simp add: def 2(1) policy_view [OF assms(1)] w3')
    next
      case (2 w5)
      with \<open>run S [''ip'', ''route'', ''replace'', ''default'', ''dev'', tun, ''src'', src, ''table'', t] ?w2 = _\<close>
      show ?thesis
        by (simp add: def w3' SrcRouteState_Teardown_def policy_view [OF assms(1)])
    qed
  qed
qed

text \<open>The source route of the SOCKS mode: after a successful setup the rule is there and at most one
  stale copy of it was replaced, so restarts do not stack rules; the table's default leaves
  through the device. Teardown removes the rule and empties the table, all other tables are
  untouched, and a second Teardown does nothing. A failed setup adds no rule and leaves all
  other tables as they were.\<close>

theorem source_route_reverted:
  assumes "policy_ok S T U" and "src_table table = t"
  shows "case SetupSourceRoute S src tun table w of
      (Inl e, w') \<Rightarrow> U w' \<subseteq># U w \<and> (\<forall>t'. t' \<noteq> t \<longrightarrow> T w' t' = T w t')
    | (Inr rs, w') \<Rightarrow>
        U w' = add_mset (src, t) (U w - {#(src, t)#})
        \<and> T w' = (T w)(t := (T w t)(''default'' \<mapsto> [''dev'', tun, ''src'', src]))
        \<and> (let (rs1, w1) = SrcRouteState_Teardown S rs w' in
            U w1 = U w - {#(src, t)#} \<and> T w1 = (T w)(t := Map.empty)
            \<and> SrcRouteState_Teardown S rs1 w1 = (rs1, w1))"
  by (rule source_route_view [OF assms])

section \<open>The server's rules\<close>

text \<open>
  The installed iptables rules as a multiset of table words and rule specifications: \<open>-A\<close>
  appends one, \<open>-D\<close> with the same words removes one copy of it.
\<close>

type_synonym ipt_rules = "(string list \<times> string list) multiset"

definition appends_rule :: "'w system \<Rightarrow> ('w \<Rightarrow> ipt_rules) \<Rightarrow> string list \<Rightarrow> bool" where
  "appends_rule S M tab \<longleftrightarrow>
     (\<forall>spec w. case exec S (''iptables'' # tab @ ''-A'' # spec) w of
        (Inl m, w') \<Rightarrow> M w' = M w
      | (Inr out, w') \<Rightarrow> M w' = add_mset (tab, spec) (M w))"

definition deletes_rule :: "'w system \<Rightarrow> ('w \<Rightarrow> ipt_rules) \<Rightarrow> string list \<Rightarrow> bool" where
  "deletes_rule S M tab \<longleftrightarrow>
     (\<forall>spec w. M (snd (exec S (''iptables'' # tab @ ''-D'' # spec) w)) = M w - {#(tab, spec)#})"

definition iptables_ok :: "'w system \<Rightarrow> ('w \<Rightarrow> ipt_rules) \<Rightarrow> bool" where
  "iptables_ok S M \<longleftrightarrow>
     only_reads S M [''sysctl'', ''-w'', ''net.ipv4.ip_forward=1'']
     \<and> only_reads S M [''ip'', ''route'', ''show'', ''default'']
     \<and> appends_rule S M [] \<and> appends_rule S M [''-t'', ''nat'']
     \<and> deletes_rule S M [] \<and> deletes_rule S M [''-t'', ''nat'']"

definition ipt_rule :: "string list \<Rightarrow> string list \<times> string list" where
  "ipt_rule r = (takeWhile (\<lambda>a. a \<noteq> ''-A'') r, tl (dropWhile (\<lambda>a. a \<noteq> ''-A'') r))"

definition proper_rule :: "string list \<Rightarrow> bool" where
  "proper_rule r \<longleftrightarrow> (\<exists>tab spec. r = tab @ ''-A'' # spec \<and> tab \<in> {[], [''-t'', ''nat'']} \<and> ''-A'' \<notin> set spec)"

definition del_words :: "string list \<Rightarrow> string list" where
  "del_words r = map (\<lambda>a. if a = ''-A'' then ''-D'' else a) r"

lemma proper_rule_words:
  assumes "proper_rule r"
  obtains tab spec where "r = tab @ ''-A'' # spec" "del_words r = tab @ ''-D'' # spec" "ipt_rule r = (tab, spec)"
    "tab \<in> {[], [''-t'', ''nat'']}"
proof -
  from assms obtain tab spec where r: "r = tab @ ''-A'' # spec" and tab: "tab \<in> {[], [''-t'', ''nat'']}"
    and "''-A'' \<notin> set spec" unfolding proper_rule_def by blast
  then have "map (\<lambda>a. if a = ''-A'' then ''-D'' else a) spec = spec" by (intro map_idI) auto
  then have "del_words r = tab @ ''-D'' # spec" using tab by (auto simp: del_words_def r)
  moreover have "ipt_rule r = (tab, spec)" using tab by (auto simp: ipt_rule_def r)
  ultimately show thesis using r tab that by blast
qed

lemma proper_rule_simps:
  "''-A'' \<notin> set spec \<Longrightarrow> proper_rule (''-A'' # spec)"
  "''-A'' \<notin> set spec \<Longrightarrow> proper_rule (''-t'' # ''nat'' # ''-A'' # spec)"
  unfolding proper_rule_def by (rule exI [of _ "[]"], simp) (rule exI [of _ "[''-t'', ''nat'']"], simp)

lemma run_rule_view:
  assumes "iptables_ok S M" and "proper_rule r"
  shows "case run S (''iptables'' # r) w of
      (Inl e, w') \<Rightarrow> M w' = M w | (Inr u, w') \<Rightarrow> M w' = add_mset (ipt_rule r) (M w)"
    and "M (try_run S (''iptables'' # del_words r) w) = M w - {#ipt_rule r#}"
proof -
  obtain tab spec where r: "r = tab @ ''-A'' # spec" "del_words r = tab @ ''-D'' # spec" "ipt_rule r = (tab, spec)"
    and tab: "tab \<in> {[], [''-t'', ''nat'']}" by (rule proper_rule_words [OF assms(2)])
  with assms(1) have "appends_rule S M tab" "deletes_rule S M tab" unfolding iptables_ok_def by blast+
  then have add: "\<forall>w. case exec S (''iptables'' # tab @ ''-A'' # spec) w of
        (Inl m, w') \<Rightarrow> M w' = M w
      | (Inr out, w') \<Rightarrow> M w' = add_mset (tab, spec) (M w)"
    and del: "M (try_run S (''iptables'' # tab @ ''-D'' # spec) w) = M w - {#(tab, spec)#}"
    unfolding appends_rule_def deletes_rule_def try_run by (iprover, iprover)
  from add [THEN spec, of w] show "case run S (''iptables'' # r) w of
      (Inl e, w') \<Rightarrow> M w' = M w | (Inr u, w') \<Rightarrow> M w' = add_mset (ipt_rule r) (M w)"
    by (simp add: run_sum r(1) r(3) [unfolded r(1)] split: prod.splits sum.splits)
  from del show "M (try_run S (''iptables'' # del_words r) w) = M w - {#ipt_rule r#}" by (simp only: r(2,3))
qed

lemma NATState_Teardown_view:
  assumes "iptables_ok S M" and "list_all proper_rule rules"
  shows "M (snd (NATState_Teardown S rules w)) = M w - mset (map ipt_rule rules)"
proof -
  have "M (fold (\<lambda>r. try_run S (''iptables'' # del_words r)) rules w) = M w - mset (map ipt_rule rules)"
    using assms(2)
    by (induction rules arbitrary: w) (simp_all add: run_rule_view(2) [OF assms(1)] diff_diff_add_mset)
  then show ?thesis by (simp add: NATState_Teardown_def del_words_def)
qed

lemma install_rules_view:
  assumes "iptables_ok S M" and "list_all proper_rule (ds @ rs)"
  shows "case install_rules S rs ds w of
      (Inl e, w') \<Rightarrow> M w' = M w - mset (map ipt_rule ds)
    | (Inr st, w') \<Rightarrow> st = ds @ rs \<and> M w' = M w + mset (map ipt_rule rs)"
  using assms(2)
proof (induction rs arbitrary: ds w)
  case (Cons r rs)
  obtain q w1 where q: "run S (''iptables'' # r) w = (q, w1)" by fastforce
  from Cons.prems have r: "proper_rule r" and ds: "list_all proper_rule ds" by simp_all
  show ?case
  proof (cases q)
    case (Inl e)
    with run_rule_view(1) [OF assms(1) r, of w] NATState_Teardown_view [OF assms(1) ds] show ?thesis
      by (simp add: q)
  next
    case (Inr u)
    with run_rule_view(1) [OF assms(1) r, of w] have "M w1 = add_mset (ipt_rule r) (M w)" by (simp add: q)
    with Cons.IH [of "ds @ [r]" w1] Cons.prems show ?thesis
      by (auto simp: q Inr split: prod.splits sum.splits)
  qed
qed simp

lemma defaultWAN_view:
  assumes "iptables_ok S M"
  shows "M (snd (defaultWAN S w)) = M w"
  using assms unfolding defaultWAN_def
  by (subst os_then_snd) (simp_all add: iptables_ok_def only_reads_def)

lemma install_then_teardown:
  assumes "iptables_ok S M" and "list_all proper_rule rules" and "install_rules S rules [] w = (r, w')"
  shows "case r of
      Inl e \<Rightarrow> M w' = M w
    | Inr st \<Rightarrow> st = rules \<and> M w' = M w + mset (map ipt_rule st)
        \<and> (\<forall>v. M v = M w' \<longrightarrow> M (snd (NATState_Teardown S st v)) = M w)"
proof (cases r)
  case (Inl e)
  with install_rules_view [OF assms(1), of "[]" _ w] assms(2,3) show ?thesis by fastforce
next
  case (Inr st)
  with install_rules_view [OF assms(1), of "[]" _ w, simplified, OF assms(2)] assms(3)
  have st: "st = rules" "M w' = M w + mset (map ipt_rule st)" by simp_all
  with NATState_Teardown_view [OF assms(1), of st] assms(2) show ?thesis by (simp add: Inr)
qed

text \<open>SetupServerNAT is undone: when it fails, at whatever step, the iptables rules are those from
  before; when it succeeds exactly three rules were added, and Teardown removes exactly those.
  (No device may be named -A, the word that Teardown replaces wherever it occurs in a rule.)\<close>

lemma server_nat_reverted:
  assumes "iptables_ok S M" and "tun \<noteq> ''-A''" "wanIface \<noteq> ''-A''"
    and "\<And>v. fst (defaultWAN S v) \<noteq> Inr ''-A''"
  shows "case SetupServerNAT S tun cidr wanIface w of
      (Inl e, w') \<Rightarrow> M w' = M w
    | (Inr st, w') \<Rightarrow> length st = 3 \<and> M w' = M w + mset (map ipt_rule st)
        \<and> (\<forall>v. M v = M w' \<longrightarrow> M (snd (NATState_Teardown S st v)) = M w)"
proof -
  let ?c = "[''sysctl'', ''-w'', ''net.ipv4.ip_forward=1'']"
  obtain q w1 where q: "run S ?c w = (q, w1)" by fastforce
  from assms(1) have "M (try_run S ?c w) = M w" by (simp only: try_run iptables_ok_def only_reads_def)
  then have w1: "M w1 = M w" by (simp add: q)
  show ?thesis
  proof (cases "\<exists>u a net. q = Inr u \<and> ParseCIDR cidr = Some (a, net)")
    case False
    then show ?thesis
      by (cases q) (auto simp: SetupServerNAT_def q w1 split: option.split)
  next
    case True
    then obtain u a net where u: "q = Inr u" and net: "ParseCIDR cidr = Some (a, net)" by blast
    obtain d w2 where d: "(if wanIface = [] then defaultWAN S w1 else (Inr wanIface, w1)) = (d, w2)" by fastforce
    with defaultWAN_view [OF assms(1), of w1] w1 have w2: "M w2 = M w" by (auto split: if_splits)
    show ?thesis
    proof (cases d)
      case (Inl e)
      with d show ?thesis by (simp add: SetupServerNAT_def q u net w2)
    next
      case (Inr wan)
      with d assms(3) assms(4) [of w1] have "wan \<noteq> ''-A''" by (auto split: if_splits)
      moreover have "CHR ''/'' \<in> set (IPNet_String net)" by (simp add: IPNet_String_def)
      then have "IPNet_String net \<noteq> ''-A''" by auto
      ultimately have ok: "list_all proper_rule (nat_rules tun (IPNet_String net) wan)"
        using assms(2) by (simp add: nat_rules_def proper_rule_simps)
      obtain r w' where r: "install_rules S (nat_rules tun (IPNet_String net) wan) [] w2 = (r, w')" by fastforce
      with d Inr have s: "SetupServerNAT S tun cidr wanIface w = (r, w')"
        by (simp add: SetupServerNAT_def q u net)
      from install_then_teardown [OF assms(1) ok r] show ?thesis
        by (auto simp: s w2 nat_rules_def split: sum.splits)
    qed
  qed
qed

section \<open>A host\<close>

text \<open>A host on which the four predicates hold: the instance of the parameter for the witnesses.\<close>

record host =
  h_tables :: "string \<Rightarrow> routes"
  h_rules :: "(string \<times> string) multiset"
  h_ipt :: ipt_rules
  h_forward :: bool              \<comment> \<open>net.ipv4.ip_forward\<close>
  h_files :: files

abbreviation h_main :: "host \<Rightarrow> routes" where
  "h_main h \<equiv> h_tables h ''main''"

definition set_table :: "string \<Rightarrow> routes \<Rightarrow> host \<Rightarrow> host" where
  "set_table t m h = h\<lparr>h_tables := (h_tables h)(t := m)\<rparr>"

definition host_exec :: "string list \<Rightarrow> host \<Rightarrow> (string + string) \<times> host" where
  "host_exec args h =
     (let cmd = take 3 args; x = drop 3 args in
      if cmd = [''ip'', ''route'', ''get''] then
        (Inr (hd x @ '' via 192.168.0.1 dev eth0 src 192.168.0.7''), h)
      else if cmd = [''ip'', ''route'', ''show''] then (Inr ''default via 192.168.0.1 dev eth0'', h)
      else if cmd = [''ip'', ''route'', ''add''] then
        (if h_main h (hd x) = None then (Inr [], set_table ''main'' ((h_main h)(hd x \<mapsto> tl x)) h)
         else (Inl ''RTNETLINK answers: File exists'', h))
      else if cmd = [''ip'', ''route'', ''del''] then
        (if h_main h (hd x) = Some (tl x) then (Inr [], set_table ''main'' ((h_main h)(hd x := None)) h)
         else (Inl ''RTNETLINK answers: No such process'', h))
      else if cmd = [''ip'', ''route'', ''replace''] then
        (let t = x ! 6 in
         (Inr [], set_table t ((h_tables h t)(hd x \<mapsto> take 4 (tl x))) h))
      else if cmd = [''ip'', ''route'', ''flush''] then (Inr [], set_table (x ! 1) Map.empty h)
      else if cmd = [''ip'', ''rule'', ''add''] then (Inr [], h\<lparr>h_rules := add_mset (x ! 1, x ! 3) (h_rules h)\<rparr>)
      else if cmd = [''ip'', ''rule'', ''del''] then (Inr [], h\<lparr>h_rules := h_rules h - {#(x ! 1, x ! 3)#}\<rparr>)
      else if args = [''sysctl'', ''-w'', ''net.ipv4.ip_forward=1''] then (Inr [], h\<lparr>h_forward := True\<rparr>)
      else if take 2 args = [''iptables'', ''-A''] then
        (Inr [], h\<lparr>h_ipt := add_mset ([], drop 2 args) (h_ipt h)\<rparr>)
      else if take 4 args = [''iptables'', ''-t'', ''nat'', ''-A''] then
        (Inr [], h\<lparr>h_ipt := add_mset ([''-t'', ''nat''], drop 4 args) (h_ipt h)\<rparr>)
      else if take 2 args = [''iptables'', ''-D''] then
        (Inr [], h\<lparr>h_ipt := h_ipt h - {#([], drop 2 args)#}\<rparr>)
      else if take 4 args = [''iptables'', ''-t'', ''nat'', ''-D''] then
        (Inr [], h\<lparr>h_ipt := h_ipt h - {#([''-t'', ''nat''], drop 4 args)#}\<rparr>)
      else (Inr [], h))"

definition sample_system :: "host system" where
  "sample_system = \<lparr>exec = host_exec, ReadFile = (\<lambda>f h. h_files h f),
     WriteFile = (\<lambda>f d h. (True, h\<lparr>h_files := (h_files h)(f \<mapsto> d)\<rparr>)),
     Remove = (\<lambda>f h. (h_files h f \<noteq> None, h\<lparr>h_files := (h_files h)(f := None)\<rparr>))\<rparr>"

definition fresh_host :: host where
  "fresh_host = \<lparr>h_tables = (\<lambda>_. Map.empty), h_rules = {#}, h_ipt = {#}, h_forward = False,
     h_files = [resolv \<mapsto> ''nameserver 9.9.9.9'']\<rparr>"

lemma sample_simps [simp]:
  "exec sample_system = host_exec" "ReadFile sample_system f h = h_files h f"
  "WriteFile sample_system f d h = (True, h\<lparr>h_files := (h_files h)(f \<mapsto> d)\<rparr>)"
  "Remove sample_system f h = (h_files h f \<noteq> None, h\<lparr>h_files := (h_files h)(f := None)\<rparr>)"
  by (simp_all add: sample_system_def)

lemma set_table_simps [simp]:
  "h_tables (set_table t m h) = (h_tables h)(t := m)" "h_rules (set_table t m h) = h_rules h"
  "h_ipt (set_table t m h) = h_ipt h"
  "h_forward (set_table t m h) = h_forward h" "h_files (set_table t m h) = h_files h"
  by (simp_all add: set_table_def)

lemma sample_files_ok: "files_ok sample_system h_main h_files"
  by (simp add: files_ok_def)

lemma sample_routing_ok: "routing_ok sample_system h_main h_files P"
proof -
  have "adds_route sample_system h_main h_files p hop" for p hop
    by (simp add: adds_route_def host_exec_def Let_def)
  moreover have "dels_route sample_system h_main h_files p hop" for p hop
    by (simp add: dels_route_def host_exec_def Let_def split: option.split)
  moreover have "only_reads sample_system h_main [''ip'', ''route'', ''get'', ip]"
    "only_reads sample_system h_files [''ip'', ''route'', ''get'', ip]" for ip
    by (simp_all add: only_reads_def host_exec_def)
  ultimately show ?thesis by (simp add: routing_ok_def)
qed

lemma sample_policy_ok: "policy_ok sample_system h_tables h_rules"
  unfolding policy_ok_def
  by (simp add: only_reads_def replaces_default_def changes_rules_def flushes_table_def host_exec_def Let_def)

lemma sample_iptables_ok: "iptables_ok sample_system h_ipt"
  unfolding iptables_ok_def
  by (simp add: only_reads_def appends_rule_def deletes_rule_def host_exec_def)

section \<open>Witnesses\<close>

lemma sample_setup:
  obtains rs h1 where "SetupClientRoutes sample_system ''5.5.5.5'' ''krot0'' ''1.1.1.1'' fresh_host = (Inr rs, h1)"
proof -
  have "\<not> isl (fst (SetupClientRoutes sample_system ''5.5.5.5'' ''krot0'' ''1.1.1.1'' fresh_host))"
    by (simp add: SetupClientRoutes_def routeTo_def runOut_def run_def route_add_def setDNS_def write_file_def
        host_exec_def TrimSpace_def white_def fresh_host_def set_table_def pin_hop_def pin_prefix_def
        half0_def half1_def resolv_def bak_def Let_def)
  then show thesis by (metis isl_def obj_sumE prod.collapse that)
qed

theorem client_routes_reverted_witness:
  "\<exists>rs h1. SetupClientRoutes sample_system ''5.5.5.5'' ''krot0'' ''1.1.1.1'' fresh_host = (Inr rs, h1)
     \<and> h_main h1 half0 = Some (tun_hop ''krot0'')
     \<and> h_main (snd (RouteState_Teardown sample_system rs h1)) = h_main fresh_host"
proof -
  obtain rs h1 where s: "SetupClientRoutes sample_system ''5.5.5.5'' ''krot0'' ''1.1.1.1'' fresh_host = (Inr rs, h1)"
    by (rule sample_setup)
  have "no_halves ''krot0'' (h_main fresh_host)" by (simp add: no_halves_def fresh_host_def)
  from client_routes_reverted [where S = sample_system and R = h_main and F = h_files and ip = "''5.5.5.5''" and tun = "''krot0''" and dns = "''1.1.1.1''" and w = fresh_host,
      OF sample_routing_ok sample_files_ok this] s
  show ?thesis by (auto simp: case_prod_beta Let_def)
qed

theorem stale_pin_blocks_restart_witness:
  "\<exists>e h'. SetupClientRoutes sample_system ''5.5.5.5'' ''krot0'' []
     (set_table ''main'' [pin_prefix ''5.5.5.5'' \<mapsto> [''dev'', ''eth0'']] fresh_host) = (Inl e, h')"
proof -
  have "h_main (set_table ''main'' [pin_prefix ''5.5.5.5'' \<mapsto> [''dev'', ''eth0'']] fresh_host) (pin_prefix ''5.5.5.5'')
      = Some [''dev'', ''eth0'']" by simp
  from stale_pin_blocks_restart [where S = sample_system and R = h_main
      and F = h_files and ip = "''5.5.5.5''" and tun = "''krot0''" and dns = "[]"
      and w = "set_table ''main'' [pin_prefix ''5.5.5.5'' \<mapsto> [''dev'', ''eth0'']] fresh_host", OF sample_routing_ok this]
  show ?thesis by blast
qed

theorem dns_after_teardown_witness:
  "\<exists>rs h1. SetupClientRoutes sample_system ''5.5.5.5'' ''krot0'' ''1.1.1.1'' fresh_host = (Inr rs, h1)
     \<and> h_files h1 resolv = Some (managed ''1.1.1.1'')
     \<and> h_files (snd (RouteState_Teardown sample_system rs h1)) resolv = Some ''nameserver 9.9.9.9''"
proof -
  obtain rs h1 where s: "SetupClientRoutes sample_system ''5.5.5.5'' ''krot0'' ''1.1.1.1'' fresh_host = (Inr rs, h1)"
    by (rule sample_setup)
  have "h_files fresh_host resolv = Some ''nameserver 9.9.9.9''" "bak \<noteq> resolv"
    by (simp_all add: fresh_host_def resolv_def bak_def)
  with dns_after_teardown [where S = sample_system and R = h_main
      and F = h_files and ip = "''5.5.5.5''" and tun = "''krot0''" and dns = "''1.1.1.1''"
      and w = fresh_host and rs = rs and ?w1.0 = h1, OF sample_routing_ok sample_files_ok _ _ s] s
  show ?thesis by auto
qed

theorem source_route_reverted_witness:
  "case SetupSourceRoute sample_system ''10.8.0.2'' ''krot0'' [] fresh_host of
      (Inl e, h') \<Rightarrow> False
    | (Inr rs, h') \<Rightarrow> h_rules h' = {#(''10.8.0.2'', ''100'')#}
        \<and> h_rules (snd (SrcRouteState_Teardown sample_system rs h')) = {#}"
proof -
  have ok: "\<not> isl (fst (SetupSourceRoute sample_system ''10.8.0.2'' ''krot0'' [] fresh_host))"
    by (simp add: SetupSourceRoute_def loose_rp_def run_def host_exec_def src_table_def Let_def)
  have "src_table [] = ''100''" "h_rules fresh_host = {#}" by (simp_all add: src_table_def fresh_host_def)
  with source_route_reverted [OF sample_policy_ok, where table = "[]" and t = "''100''" and src = "''10.8.0.2''"
      and tun = "''krot0''" and w = fresh_host] ok
  show ?thesis by (auto simp: case_prod_beta Let_def split: sum.splits)
qed

end
