(* ===== verification/Krot_Socks.thy ===== *)
theory Krot_Socks
  imports Go_Net
begin

text \<open>
  internal/socks/socks.go: the SOCKS5 proxy in front of the tunnel. A client's connection is the
  bytes it will send, all of them; whether a write to it succeeds and what the dialer does are
  arguments. io.ReadFull takes exactly what it asks for, so what is left after the handshake
  is what relay copies to the remote side.
\<close>

section \<open>Constants\<close>

definition ver5 :: byte where "ver5 = 0x05"
definition cmdConnect :: byte where "cmdConnect = 0x01"
definition atypIPv4 :: byte where "atypIPv4 = 0x01"
definition atypDomain :: byte where "atypDomain = 0x03"
definition atypIPv6 :: byte where "atypIPv6 = 0x04"
definition repSucceeded :: byte where "repSucceeded = 0x00"
definition repGenFail :: byte where "repGenFail = 0x01"
definition repHostUnrch :: byte where "repHostUnrch = 0x04"
definition repCmdNotSup :: byte where "repCmdNotSup = 0x07"

lemmas socks_consts = ver5_def cmdConnect_def atypIPv4_def atypDomain_def atypIPv6_def
  repSucceeded_def repGenFail_def repHostUnrch_def repCmdNotSup_def

section \<open>Creating the server\<close>

datatype socks_new_error = SocksListen | BadSrcIP

record socks_server =
  sk_local :: "bytes option"       \<comment> \<open>the dialer's local address, for TCP and for the resolver\<close>
  sk_dns :: "string option"        \<comment> \<open>the DNS server dialed instead of the system's\<close>

definition dns_target :: "string \<Rightarrow> string option" where
  "dns_target dnsAddr =
     (if dnsAddr = [] then None
      else Some (if SplitHostPort dnsAddr = None then JoinHostPort dnsAddr ''53'' else dnsAddr))"

text \<open>The boolean is whether the listener is open when New returns.\<close>

definition socks_New :: "bool \<Rightarrow> string \<Rightarrow> string \<Rightarrow> (socks_new_error + socks_server) \<times> bool" where
  "socks_New listen_ok srcIP dnsAddr =
     (if \<not> listen_ok then (Inl SocksListen, False)
      else if srcIP = [] then (Inr \<lparr>sk_local = None, sk_dns = dns_target dnsAddr\<rparr>, True)
      else case ParseIP srcIP of
             None \<Rightarrow> (Inl BadSrcIP, False)
           | Some ip \<Rightarrow> (Inr \<lparr>sk_local = Some ip, sk_dns = dns_target dnsAddr\<rparr>, True))"

text \<open>The network the resolver dials for one Go asks for.\<close>

definition dns_network :: "string \<Rightarrow> string" where
  "dns_network network =
     (if network = ''tcp'' \<or> network = ''tcp4'' \<or> network = ''tcp6'' then ''tcp'' else ''udp'')"

section \<open>The handshake\<close>

datatype socks_error =
    SocksRead | SocksWrite | NotV5 | BadRequestVersion | OnlyConnect | BadATYP

definition read_full :: "nat \<Rightarrow> bytes \<Rightarrow> (bytes \<times> bytes) option" where
  "read_full n inp = (if length inp < n then None else Some (take n inp, drop n inp))"

definition sendReply :: "byte \<Rightarrow> bytes" where
  "sendReply code = [ver5, code, 0x00, atypIPv4, 0, 0, 0, 0, 0, 0]"

text \<open>The address of a request: an error comes with the reply written for it.\<close>

definition read_host :: "byte \<Rightarrow> bytes \<Rightarrow> socks_error \<times> bytes list + string \<times> bytes" where
  "read_host atyp inp =
     (if atyp = atypIPv4 then
        (case read_full 4 inp of None \<Rightarrow> Inl (SocksRead, []) | Some (b, r) \<Rightarrow> Inr (IP_String b, r))
      else if atyp = atypIPv6 then
        (case read_full 16 inp of None \<Rightarrow> Inl (SocksRead, []) | Some (b, r) \<Rightarrow> Inr (IP_String b, r))
      else if atyp = atypDomain then
        (case read_full 1 inp of
           None \<Rightarrow> Inl (SocksRead, [])
         | Some (l, r) \<Rightarrow>
             (case read_full (unat (l ! 0)) r of
                None \<Rightarrow> Inl (SocksRead, [])
              | Some (b, r') \<Rightarrow> Inr (string_of b, r')))
      else Inl (BadATYP, [sendReply repCmdNotSup]))"

text \<open>The target and the bytes left, or an error; and what was written to the client.\<close>

definition socks_handshake :: "bool \<Rightarrow> bytes \<Rightarrow> (socks_error + string \<times> bytes) \<times> bytes list" where
  "socks_handshake greet_ok inp =
     (case read_full 2 inp of
        None \<Rightarrow> (Inl SocksRead, [])
      | Some (hdr, r1) \<Rightarrow>
          if hdr ! 0 \<noteq> ver5 then (Inl NotV5, [])
          else
            (case read_full (unat (hdr ! 1)) r1 of
               None \<Rightarrow> (Inl SocksRead, [])
             | Some (methods, r2) \<Rightarrow>
                 let w = [[ver5, 0x00]] in
                 if \<not> greet_ok then (Inl SocksWrite, w)
                 else
                   (case read_full 4 r2 of
                      None \<Rightarrow> (Inl SocksRead, w)
                    | Some (req, r3) \<Rightarrow>
                        if req ! 0 \<noteq> ver5 then (Inl BadRequestVersion, w)
                        else if req ! 1 \<noteq> cmdConnect then (Inl OnlyConnect, w @ [sendReply repCmdNotSup])
                        else
                          (case read_host (req ! 3) r3 of
                             Inl (e, ws) \<Rightarrow> (Inl e, w @ ws)
                           | Inr (host, r4) \<Rightarrow>
                               (case read_full 2 r4 of
                                  None \<Rightarrow> (Inl SocksRead, w)
                                | Some (pb, rest) \<Rightarrow>
                                    (Inr (JoinHostPort host (dec_nat (unat (pb ! 0) * 256 + unat (pb ! 1))), rest),
                                     w))))))"

section \<open>A connection\<close>

text \<open>A failed dial either timed out or not.\<close>

datatype dialed = DialFailed bool | DialOK

definition replyCodeFor :: "bool \<Rightarrow> byte" where
  "replyCodeFor timeout = (if timeout then repHostUnrch else repGenFail)"

datatype handled =
    HandshakeFailed socks_error
  | NoRemote
  | ReplyLost
  | Relaying string bytes      \<comment> \<open>the target, and what relay will read from the client\<close>

definition socks_handle :: "bool \<Rightarrow> bool \<Rightarrow> (string \<Rightarrow> dialed) \<Rightarrow> bytes \<Rightarrow> handled \<times> bytes list" where
  "socks_handle greet_ok reply_ok dial inp =
     (case socks_handshake greet_ok inp of
        (Inl e, ws) \<Rightarrow> (HandshakeFailed e, ws)
      | (Inr (target, rest), ws) \<Rightarrow>
          (case dial target of
             DialFailed timeout \<Rightarrow> (NoRemote, ws @ [sendReply (replyCodeFor timeout)])
           | DialOK \<Rightarrow>
               (if reply_ok then Relaying target rest else ReplyLost, ws @ [sendReply repSucceeded])))"

section \<open>Requests\<close>

text \<open>What a client says, as RFC 1928 has it.\<close>

datatype socks_addr = SocksV4 bytes | SocksV6 bytes | SocksName bytes

fun addr_ok :: "socks_addr \<Rightarrow> bool" where
  "addr_ok (SocksV4 b) = (length b = 4)"
| "addr_ok (SocksV6 b) = (length b = 16)"
| "addr_ok (SocksName b) = (length b < 256)"

fun addr_bytes :: "socks_addr \<Rightarrow> bytes" where
  "addr_bytes (SocksV4 b) = atypIPv4 # b"
| "addr_bytes (SocksV6 b) = atypIPv6 # b"
| "addr_bytes (SocksName b) = atypDomain # of_nat (length b) # b"

fun addr_host :: "socks_addr \<Rightarrow> string" where
  "addr_host (SocksV4 b) = IP_String b"
| "addr_host (SocksV6 b) = IP_String b"
| "addr_host (SocksName b) = string_of b"

definition socks_request :: "bytes \<Rightarrow> byte \<Rightarrow> socks_addr \<Rightarrow> 16 word \<Rightarrow> bytes" where
  "socks_request methods rsv addr port =
     [ver5, of_nat (length methods)] @ methods @ [ver5, cmdConnect, rsv] @ addr_bytes addr @ PutUint16 port"

lemma read_full_append: "length a = n \<Longrightarrow> read_full n (a @ b) = Some (a, b)"
  by (simp add: read_full_def)

lemma read_full_Some: "read_full n inp = Some (a, b) \<longleftrightarrow> inp = a @ b \<and> length a = n"
  by (auto simp: read_full_def)

lemma unat_byte_length: "length b < 256 \<Longrightarrow> unat (of_nat (length b) :: byte) = length b"
  by (simp add: unat_of_nat)

lemma read_host_addr:
  assumes "addr_ok a"
  shows "\<exists>t r. addr_bytes a = t # r \<and> (\<forall>rest. read_host t (r @ rest) = Inr (addr_host a, rest))"
proof (cases a)
  case (SocksName b)
  have "read_full 1 (of_nat (length b) # b @ rest) = Some ([of_nat (length b)], b @ rest)" for rest
    using read_full_append [of "[of_nat (length b)]" 1] by simp
  with SocksName assms show ?thesis
    by (simp add: read_host_def socks_consts read_full_append unat_byte_length)
qed (use assms in \<open>simp_all add: read_host_def socks_consts read_full_append\<close>)

lemma read_host_Inr:
  assumes "read_host t inp = Inr (host, rest)"
  shows "\<exists>a. addr_ok a \<and> addr_host a = host \<and> t # inp = addr_bytes a @ rest"
proof -
  consider "t = atypIPv4" | "t = atypIPv6" | "t = atypDomain"
    using assms by (auto simp: read_host_def split: if_splits)
  then show ?thesis
  proof cases
    case 1
    with assms obtain b where "read_full 4 inp = Some (b, rest)" "host = IP_String b"
      by (auto simp: read_host_def split: option.splits)
    with 1 show ?thesis by (intro exI [of _ "SocksV4 b"]) (simp add: read_full_Some)
  next
    case 2
    with assms obtain b where "read_full 16 inp = Some (b, rest)" "host = IP_String b"
      by (auto simp: read_host_def socks_consts split: option.splits)
    with 2 show ?thesis by (intro exI [of _ "SocksV6 b"]) (simp add: read_full_Some)
  next
    case 3
    with assms obtain l r b where "read_full 1 inp = Some (l, r)"
      "read_full (unat (l ! 0)) r = Some (b, rest)" "host = string_of b"
      by (auto simp: read_host_def socks_consts split: option.splits)
    moreover from this(1) obtain x where "l = [x]" by (auto simp: read_full_Some length_Suc_conv)
    moreover have "unat x < 256" for x :: byte using unsigned_less [of x] by simp
    ultimately show ?thesis using 3
      by (intro exI [of _ "SocksName b"]) (auto simp: read_full_Some)
  qed
qed

lemma PutUint16_unat:
  assumes "PutUint16 v = [a, b]" shows "unat a * 256 + unat b = unat v"
proof -
  have v: "unat v < 65536" using unsigned_less [of v] by simp
  have "unat a = unat v div 256 mod 256" "unat b = unat v mod 256"
    using assms by (auto simp: PutUint16_def unsigned_ucast_eq unsigned_drop_bit_eq take_bit_eq_mod drop_bit_eq_div
        unat_div_distrib)
  moreover have "unat v div 256 mod 256 = unat v div 256" using v by (simp add: less_mult_imp_div_less)
  ultimately show ?thesis by simp
qed

lemma read_port:
  "read_full 2 (PutUint16 v @ rest) = Some (PutUint16 v, rest)"
  "unat (PutUint16 v ! 0) * 256 + unat (PutUint16 v ! Suc 0) = unat v"
proof -
  show "read_full 2 (PutUint16 v @ rest) = Some (PutUint16 v, rest)" by (rule read_full_append) simp
  obtain a b where ab: "PutUint16 v = [a, b]" by (simp add: PutUint16_def)
  from PutUint16_unat [OF this] show "unat (PutUint16 v ! 0) * 256 + unat (PutUint16 v ! Suc 0) = unat v"
    by (simp add: ab)
qed

lemma handshake_request:
  assumes "length methods < 256" "addr_ok a"
  shows "socks_handshake True (socks_request methods rsv a port @ rest)
    = (Inr (JoinHostPort (addr_host a) (dec_nat (unat port)), rest), [[ver5, 0x00]])"
proof -
  obtain t r where t: "addr_bytes a = t # r" "\<And>s. read_host t (r @ s) = Inr (addr_host a, s)"
    using read_host_addr [OF assms(2)] by blast
  let ?n = "of_nat (length methods) :: byte"
  let ?tail = "PutUint16 port @ rest"
  have "socks_request methods rsv a port @ rest
      = [ver5, ?n] @ methods @ [ver5, cmdConnect, rsv, t] @ r @ ?tail"
    by (simp add: socks_request_def t)
  moreover have "read_full 2 ([ver5, ?n] @ methods @ [ver5, cmdConnect, rsv, t] @ r @ ?tail)
      = Some ([ver5, ?n], methods @ [ver5, cmdConnect, rsv, t] @ r @ ?tail)"
    by (rule read_full_append) simp
  moreover have "read_full (length methods) (methods @ [ver5, cmdConnect, rsv, t] @ r @ ?tail)
      = Some (methods, [ver5, cmdConnect, rsv, t] @ r @ ?tail)" by (rule read_full_append) simp
  moreover have "read_full 4 ([ver5, cmdConnect, rsv, t] @ r @ ?tail) = Some ([ver5, cmdConnect, rsv, t], r @ ?tail)"
    by (rule read_full_append) simp
  moreover have "unat (PutUint16 port ! 0) * 256 + unat (PutUint16 port ! 1) = unat port"
    using read_port(2) by simp
  moreover have "[ver5, ?n] ! 0 = ver5" "[ver5, ?n] ! 1 = ?n" "[ver5, cmdConnect, rsv, t] ! 0 = ver5"
    "[ver5, cmdConnect, rsv, t] ! 1 = cmdConnect" "[ver5, cmdConnect, rsv, t] ! 3 = t" by simp_all
  ultimately show ?thesis
    by (simp only: socks_handshake_def option.case prod.case Let_def t(2) sum.case read_port(1)
        unat_byte_length [OF assms(1)] simp_thms if_False)
qed

lemma handshake_Inr:
  assumes "socks_handshake ok inp = (Inr (target, rest), ws)"
  shows "\<exists>methods rsv a port. ok \<and> ws = [[ver5, 0x00]] \<and> length methods < 256 \<and> addr_ok a
    \<and> inp = socks_request methods rsv a port @ rest
    \<and> target = JoinHostPort (addr_host a) (dec_nat (unat port))"
proof -
  from assms obtain hdr r1 where 1: "read_full 2 inp = Some (hdr, r1)" "hdr ! 0 = ver5"
    by (auto simp: socks_handshake_def split: option.splits if_splits)
  with assms obtain methods r2 where 2: "read_full (unat (hdr ! 1)) r1 = Some (methods, r2)"
    by (auto simp: socks_handshake_def split: option.splits)
  with assms 1 obtain req r3 where 3: "read_full 4 r2 = Some (req, r3)" "ok" "req ! 0 = ver5" "req ! 1 = cmdConnect"
    by (auto simp: socks_handshake_def Let_def split: option.splits if_splits)
  with assms 1 2 obtain host r4 where 4: "read_host (req ! 3) r3 = Inr (host, r4)"
    by (auto simp: socks_handshake_def Let_def split: sum.splits prod.splits)
  with assms 1 2 3 obtain pb where 5: "read_full 2 r4 = Some (pb, rest)" "ws = [[ver5, 0x00]]"
    "target = JoinHostPort host (dec_nat (unat (pb ! 0) * 256 + unat (pb ! 1)))"
    by (auto simp: socks_handshake_def Let_def split: option.splits)
  from read_host_Inr [OF 4] obtain a where a: "addr_ok a" "addr_host a = host" "(req ! 3) # r3 = addr_bytes a @ r4"
    by blast
  obtain n where hdr: "hdr = [ver5, n]" using 1 by (auto simp: read_full_Some length_Suc_conv numeral_2_eq_2)
  obtain rsv t where req: "req = [ver5, cmdConnect, rsv, t]"
    using 3 by (auto simp: read_full_Some length_Suc_conv eval_nat_numeral)
  obtain x y where pb: "pb = [x, y]" using 5 by (auto simp: read_full_Some length_Suc_conv numeral_2_eq_2)
  have xy: "PutUint16 (Uint16 [x, y]) = [x, y]" by (rule PutUint16_Uint16)
  have n: "length methods = unat n" using 2 hdr by (simp add: read_full_Some)
  have "length methods < 256" using unsigned_less [of n] n by simp
  moreover have "inp = socks_request methods rsv a (Uint16 [x, y]) @ rest"
    using 1(1) 2 3(1) 5(1) a(3) n by (simp add: socks_request_def read_full_Some hdr req pb xy)
  moreover have "target = JoinHostPort (addr_host a) (dec_nat (unat (Uint16 [x, y])))"
    using 5(3) PutUint16_unat [OF xy] a(2) by (simp add: pb)
  ultimately show ?thesis using 3(2) 5(2) a(1) by blast
qed

section \<open>Properties\<close>

text \<open>C22. The proxy accepts exactly the CONNECT requests of SOCKS5, and reads no byte too many:
  the handshake ends with a target and some bytes left precisely when the client said a
  greeting with any methods, then a version 5 CONNECT with an IPv4 address, an IPv6 address or
  a name of up to 255 bytes and a port, and then those bytes; the target is that host and port,
  and the only thing written is the choice of no authentication.\<close>

theorem socks_accepts_exactly_connect:
  "socks_handshake ok inp = (Inr (target, rest), ws)
     \<longleftrightarrow> (\<exists>methods rsv a port. ok \<and> ws = [[ver5, 0x00]] \<and> length methods < 256 \<and> addr_ok a
           \<and> inp = socks_request methods rsv a port @ rest
           \<and> target = JoinHostPort (addr_host a) (dec_nat (unat port)))"
  by (rule iffI, erule handshake_Inr) (elim exE conjE, simp add: handshake_request)

lemma read_host_Inl: "read_host t r = Inl (e, ws) \<Longrightarrow> ws = [] \<or> ws = [sendReply repCmdNotSup]"
  by (auto simp: read_host_def split: if_splits option.splits)

lemma handshake_Inl:
  assumes "socks_handshake ok inp = (Inl e, ws)"
  shows "length ws \<le> 2 \<and> sendReply repSucceeded \<notin> set ws"
proof -
  have "ws = [] \<or> ws = [[ver5, 0]] \<or> ws = [[ver5, 0], sendReply repCmdNotSup]"
    using assms by (auto simp: socks_handshake_def Let_def split: option.splits if_splits sum.splits
        dest!: read_host_Inl)
  then show ?thesis by (auto simp: sendReply_def socks_consts)
qed

text \<open>The client is told of success exactly when the remote side is connected: in every
  connection the proxy writes its greeting and at most one reply, the reply is the success
  code precisely when the request was complete and the dial worked, a dial that timed out is
  answered with code 4 and one that failed otherwise with code 1, and bytes are relayed only
  after the success reply was written, beginning right behind the request.\<close>

theorem socks_reply_tells_the_outcome:
  assumes "socks_handle greet_ok reply_ok dial inp = (out, ws)"
  shows "length ws \<le> 2
    \<and> (sendReply repSucceeded \<in> set ws \<longleftrightarrow>
         (\<exists>target rest. fst (socks_handshake greet_ok inp) = Inr (target, rest) \<and> dial target = DialOK))
    \<and> (\<forall>target rest. out = Relaying target rest \<longleftrightarrow>
         reply_ok \<and> fst (socks_handshake greet_ok inp) = Inr (target, rest) \<and> dial target = DialOK)
    \<and> (\<forall>target rest timeout. fst (socks_handshake greet_ok inp) = Inr (target, rest)
         \<and> dial target = DialFailed timeout \<longrightarrow> ws = [[ver5, 0], sendReply (if timeout then 4 else 1)])"
proof -
  obtain r w where h: "socks_handshake greet_ok inp = (r, w)" by fastforce
  show ?thesis
  proof (cases r)
    case (Inl e)
    with assms h handshake_Inl [of greet_ok inp e] show ?thesis by (auto simp: socks_handle_def)
  next
    case (Inr x)
    obtain target rest where x: "x = (target, rest)" by fastforce
    have w: "w = [[ver5, 0]]" using handshake_Inr [of greet_ok inp target rest w] h Inr x by simp
    have c: "replyCodeFor b = (if b then 4 else 1)" for b by (simp add: replyCodeFor_def socks_consts)
    have n: "sendReply repSucceeded \<noteq> [ver5, 0]" "sendReply repSucceeded \<noteq> sendReply (replyCodeFor b)" for b
      by (simp_all add: sendReply_def replyCodeFor_def socks_consts)
    show ?thesis
    proof (cases "dial target")
      case (DialFailed b)
      with assms h Inr x w have "out = NoRemote" "ws = [[ver5, 0], sendReply (replyCodeFor b)]"
        by (simp_all add: socks_handle_def)
      with h Inr x DialFailed n c show ?thesis by auto
    next
      case DialOK
      with assms h Inr x w have "out = (if reply_ok then Relaying target rest else ReplyLost)"
        "ws = [[ver5, 0], sendReply repSucceeded]" by (simp_all add: socks_handle_def)
      with h Inr x DialOK show ?thesis by auto
    qed
  qed
qed

definition sample_connect :: bytes where
  "sample_connect = socks_request [0x00] 0x00 (SocksName [0x61]) 80 @ [0x47]"

theorem socks_reply_tells_the_outcome_witness:
  "\<exists>ws. socks_handle True True (\<lambda>_. DialOK) sample_connect = (Relaying ''a:80'' [0x47], ws)
     \<and> sendReply repSucceeded \<in> set ws"
proof -
  have "dec_nat (unat (80 :: 16 word)) = ''80''" "string_of [0x61] = ''a''" by code_simp+
  then have h: "fst (socks_handshake True sample_connect) = Inr (''a:80'', [0x47])"
    using handshake_request [of "[0x00]" "SocksName [0x61]" "0x00" 80 "[0x47]"]
    by (simp add: sample_connect_def JoinHostPort_def)
  obtain out ws where s: "socks_handle True True (\<lambda>_. DialOK) sample_connect = (out, ws)" by fastforce
  from socks_reply_tells_the_outcome [OF s] h s show ?thesis by auto
qed

text \<open>What is dialed is what was asked for: the target text of a request splits again into the
  host and the port of the request, an IPv4 host parses to the requested address, and the
  port to the requested number.\<close>

theorem socks_target_round_trip:
  assumes "socks_handshake True (socks_request methods rsv a port @ rest) = (Inr (target, rest'), ws)"
    and "length methods < 256" "addr_ok a" "\<forall>b. a = SocksName b \<longrightarrow> host_chars (string_of b)"
  shows "rest' = rest \<and> (\<exists>p. SplitHostPort target = Some (addr_host a, p) \<and> parse_digits 0 p = Some (unat port))
    \<and> (\<forall>b. a = SocksV4 b \<longrightarrow> ParseIP (addr_host a) = Some (v4_in_v6 @ b))"
proof -
  have t: "target = JoinHostPort (addr_host a) (dec_nat (unat port))" "rest' = rest"
    using handshake_request [OF assms(2,3), of rsv port rest] assms(1) by simp_all
  have "host_chars (addr_host a)" using assms(4) IP_String_plain by (cases a) auto
  from SplitHostPort_Join [OF this dec_nat_plain] have
    "SplitHostPort target = Some (addr_host a, dec_nat (unat port))" by (simp add: t)
  moreover have "ParseIP (addr_host a) = Some (v4_in_v6 @ b)" if "a = SocksV4 b" for b
    using that assms(3) ParseIP_dotted [of b] by (simp add: IP_String_def To4_def)
  ultimately show ?thesis using t(2) by simp
qed

theorem socks_target_round_trip_witness:
  "ParseIP (addr_host (SocksV4 [10, 8, 0, 5])) = Some (v4_in_v6 @ [10, 8, 0, 5])"
proof -
  have h: "socks_handshake True (socks_request [] 0 (SocksV4 [10, 8, 0, 5]) 443 @ [])
      = (Inr (JoinHostPort (addr_host (SocksV4 [10, 8, 0, 5])) (dec_nat (unat (443 :: 16 word))), []), [[ver5, 0x00]])"
    by (rule handshake_request) simp_all
  from socks_target_round_trip [OF h] show ?thesis by simp
qed

end
