(* ===== verification/Krot_Client.thy ===== *)
theory Krot_Client
  imports Krot_Dial Krot_Config Krot_Netif Krot_Socks
begin

text \<open>
  internal/client/client.go: Run dials the server, opens and configures the TUN device, sets up
  routing in one of three modes, waits while packets are pumped, and reverts everything. The
  keys, Dial, the interface and route setup and the SOCKS server's creation are the model's
  own definitions. Opening and closing the device (package tun) are parameters on the host's
  state. What happens between setup and teardown is an argument of Run, and \<open>Krot_Pumps\<close>
  models the goroutines that run then.
\<close>

section \<open>State\<close>

definition hostIP :: "string \<Rightarrow> string" where
  "hostIP cidr = takeWhile (\<lambda>c. c \<noteq> CHR ''/'') cidr"

datatype run_error =
    RunConfig config_error | RunDial dial_error | RunNoAddr | RunTun | RunIfUp netif_error
  | RunSourceRoute netif_error | RunSocks socks_new_error | RunRoutes netif_error
  | TunRead | TunnelWrite tunnel_error | TunnelRead tunnel_error | TunWrite

text \<open>The host, the tunnel once it is dialed, and whether the device and the listener are open.\<close>

record 'w run_state =
  rn_host :: 'w
  rn_tun :: "tunnel option"
  rn_dev :: bool
  rn_sv :: bool

record 'w client_env =
  ce_sys :: "'w system"
  ce_tunOpen :: "string \<Rightarrow> 'w \<Rightarrow> (unit + string) \<times> 'w"      \<comment> \<open>the name of the device\<close>
  ce_devClose :: "string \<Rightarrow> 'w \<Rightarrow> 'w"
  ce_listen :: "string \<Rightarrow> bool"

text \<open>What Dial has as arguments besides the configuration: see \<open>Krot_Dial\<close>.\<close>

record dial_args =
  da_sid :: "bytes option"
  da_env :: "nat \<Rightarrow> dial_env"
  da_arrival :: "nat list"

definition run_dial_config :: "client_cfg \<Rightarrow> bytes \<Rightarrow> bytes \<Rightarrow> client_config" where
  "run_dial_config cfg psk serverPub =
     \<lparr>cc_Path = c_Path cfg, cc_PSK = psk, cc_ServerStatic = serverPub, cc_PinSHA256 = c_PinSHA256 cfg,
      cc_Channels = c_Channels cfg,
      cc_Pad = \<lparr>BurstRecords = 0, BurstMin = 0, BurstMax = 0, SteadyMax = 0\<rparr>\<rparr>"

definition run_dial :: "prims \<Rightarrow> dial_args \<Rightarrow> client_cfg \<Rightarrow> run_error + tunnel \<times> Assignment" where
  "run_dial P da cfg =
     try_bind (lift_err RunConfig (DecodePSK (c_PSK cfg))) (\<lambda>psk.
     try_bind (lift_err RunConfig (DecodeKey32 (c_ServerPub cfg))) (\<lambda>serverPub.
     lift_err RunDial (Dial P (run_dial_config cfg psk serverPub) (da_sid da) (da_env da) (da_arrival da))))"

section \<open>Closing\<close>

definition conn_close :: "'w run_state \<Rightarrow> 'w run_state" where
  "conn_close s = s\<lparr>rn_tun := map_option Tunnel_Close (rn_tun s)\<rparr>"

definition dev_close :: "'w client_env \<Rightarrow> string \<Rightarrow> 'w run_state \<Rightarrow> 'w run_state" where
  "dev_close E nm s = s\<lparr>rn_host := ce_devClose E nm (rn_host s), rn_dev := False\<rparr>"

definition sv_close :: "'w run_state \<Rightarrow> 'w run_state" where
  "sv_close s = s\<lparr>rn_sv := False\<rparr>"

definition close_both :: "'w client_env \<Rightarrow> string \<Rightarrow> 'w run_state \<Rightarrow> 'w run_state" where
  "close_both E nm s = conn_close (dev_close E nm s)"

section \<open>Run\<close>

text \<open>
  From the start of the pumps to the end of the select: how it ends, the tunnel and the host
  then. \<^term>\<open>Inr ()\<close> is the cancelled context.
\<close>

type_synonym 'w between = "tunnel \<Rightarrow> 'w \<Rightarrow> (run_error + unit) \<times> tunnel \<times> 'w"

definition pumping :: "'w between \<Rightarrow> 'w run_state \<Rightarrow> (run_error + unit) \<times> 'w run_state" where
  "pumping go s =
     (case rn_tun s of
        None \<Rightarrow> (Inr (), s)
      | Some t \<Rightarrow> (case go t (rn_host s) of (r, t', w) \<Rightarrow> (r, s\<lparr>rn_tun := Some t', rn_host := w\<rparr>)))"

text \<open>
  The three modes, with the deferred calls that each registers: they run after the pumps, and
  also on the error returns, where the device and the tunnel were closed already.
\<close>

definition run_socks ::
  "'w client_env \<Rightarrow> 'w between \<Rightarrow> client_cfg \<Rightarrow> Assignment \<Rightarrow> string \<Rightarrow> 'w run_state
     \<Rightarrow> (run_error + unit) \<times> 'w run_state" where
  "run_socks E go cfg asg nm s =
     (let srcIP = hostIP (asg_Addr asg) in
      case SetupSourceRoute (ce_sys E) srcIP nm (c_SocksTable cfg) (rn_host s) of
        (Inl e, w) \<Rightarrow> (Inl (RunSourceRoute e), close_both E nm (s\<lparr>rn_host := w\<rparr>))
      | (Inr sr, w) \<Rightarrow>
          let s1 = s\<lparr>rn_host := w\<rparr>;
              dns = (if c_DNS cfg = [] then asg_DNS asg else c_DNS cfg) in
          (case socks_New (ce_listen E (c_SocksListen cfg)) srcIP dns of
             (Inl e, _) \<Rightarrow>
               let (sr1, w1) = SrcRouteState_Teardown (ce_sys E) sr (rn_host s1);
                   s2 = close_both E nm (s1\<lparr>rn_host := w1\<rparr>)
               in (Inl (RunSocks e),
                   s2\<lparr>rn_host := snd (SrcRouteState_Teardown (ce_sys E) sr1 (rn_host s2))\<rparr>)
           | (Inr sv, opened) \<Rightarrow>
               let (r, s2) = pumping go (s1\<lparr>rn_sv := opened\<rparr>);
                   s3 = sv_close s2
               in (r, s3\<lparr>rn_host := snd (SrcRouteState_Teardown (ce_sys E) sr (rn_host s3))\<rparr>)))"

definition run_full ::
  "'w client_env \<Rightarrow> 'w between \<Rightarrow> client_cfg \<Rightarrow> Assignment \<Rightarrow> string \<Rightarrow> 'w run_state
     \<Rightarrow> (run_error + unit) \<times> 'w run_state" where
  "run_full E go cfg asg nm s =
     (let dns = (if c_DNS cfg = [] then asg_DNS asg else c_DNS cfg) in
      case SetupClientRoutes (ce_sys E) (c_ServerIP cfg) nm dns (rn_host s) of
        (Inl e, w) \<Rightarrow> (Inl (RunRoutes e), close_both E nm (s\<lparr>rn_host := w\<rparr>))
      | (Inr rs, w) \<Rightarrow>
          let (r, s1) = pumping go (s\<lparr>rn_host := w\<rparr>)
          in (r, s1\<lparr>rn_host := snd (RouteState_Teardown (ce_sys E) rs (rn_host s1))\<rparr>))"

definition run_mode ::
  "'w client_env \<Rightarrow> 'w between \<Rightarrow> client_cfg \<Rightarrow> Assignment \<Rightarrow> string \<Rightarrow> 'w run_state
     \<Rightarrow> (run_error + unit) \<times> 'w run_state" where
  "run_mode E go cfg asg nm s =
     (if c_SocksListen cfg \<noteq> [] then run_socks E go cfg asg nm s
      else if c_RouteMode cfg = ''manual'' then pumping go s
      else run_full E go cfg asg nm s)"

definition Run ::
  "prims \<Rightarrow> 'w client_env \<Rightarrow> dial_args \<Rightarrow> 'w between \<Rightarrow> client_cfg \<Rightarrow> 'w
     \<Rightarrow> (run_error + unit) \<times> 'w run_state" where
  "Run P E da go cfg w =
     (let s0 = \<lparr>rn_host = w, rn_tun = None, rn_dev = False, rn_sv = False\<rparr> in
      case run_dial P da cfg of
        Inl e \<Rightarrow> (Inl e, s0)
      | Inr (t, asg) \<Rightarrow>
          let s1 = s0\<lparr>rn_tun := Some t\<rparr> in
          if asg_Addr asg = [] then (Inl RunNoAddr, conn_close s1)
          else
            (case ce_tunOpen E (c_TunName cfg) w of
               (Inl _, w1) \<Rightarrow> (Inl RunTun, conn_close (s1\<lparr>rn_host := w1\<rparr>))
             | (Inr nm, w1) \<Rightarrow>
                 let s2 = s1\<lparr>rn_dev := True\<rparr> in
                 (case IfUp (ce_sys E) nm (asg_Addr asg) (c_MTU cfg) w1 of
                    (Inl e, w2) \<Rightarrow> (Inl (RunIfUp e), close_both E nm (s2\<lparr>rn_host := w2\<rparr>))
                  | (Inr _, w2) \<Rightarrow>
                      let (r, s3) = run_mode E go cfg asg nm (s2\<lparr>rn_host := w2\<rparr>)
                      in (r, close_both E nm s3))))"

section \<open>Everything is closed\<close>

text \<open>The device and the listener are closed, and closing the tunnel was the last thing done to it.\<close>

definition released :: "'w run_state \<Rightarrow> bool" where
  "released s \<longleftrightarrow> \<not> rn_dev s \<and> \<not> rn_sv s
     \<and> (\<forall>t. rn_tun s = Some t \<longrightarrow> channels t = [] \<and> (\<exists>u. t = Tunnel_Close u))"

lemma close_both_simps [simp]:
  "rn_dev (close_both E nm s) = False" "rn_sv (close_both E nm s) = rn_sv s"
  "rn_tun (close_both E nm s) = map_option Tunnel_Close (rn_tun s)"
  "rn_host (close_both E nm s) = ce_devClose E nm (rn_host s)"
  by (simp_all add: close_both_def conn_close_def dev_close_def)

lemma released_close_both: "\<not> rn_sv s \<Longrightarrow> released (close_both E nm s)"
  by (auto simp: released_def Tunnel_Close_fields)

lemma pumping_sv: "rn_sv (snd (pumping go s)) = rn_sv s"
  by (simp add: pumping_def split: option.split prod.split)

lemma run_mode_sv: "\<not> rn_sv s \<Longrightarrow> \<not> rn_sv (snd (run_mode E go cfg asg nm s))"
  using pumping_sv [of go]
  by (auto simp: run_mode_def run_full_def run_socks_def Let_def sv_close_def case_prod_beta
      split: prod.split sum.split)

text \<open>C25. However Run ends, by a bad key, a failed dial, a server that assigns no address, a device that
  does not open, an interface, route or proxy setup that fails at any of its steps, a broken
  pump or the cancelled context, when it returns the device and the proxy's listener are
  closed and the tunnel, if there was one, was closed and has no channel.\<close>

theorem Run_releases_everything: "released (snd (Run P E da go cfg w))"
proof -
  have "released (snd (run_mode E go cfg asg nm s3, close_both E nm (snd (run_mode E go cfg asg nm s3))))"
    if "\<not> rn_sv s3" for asg nm s3
    using that by (simp add: released_close_both run_mode_sv)
  moreover have "released (conn_close s)" if "\<not> rn_dev s" "\<not> rn_sv s" for s :: "'a run_state"
    using that by (auto simp: released_def conn_close_def Tunnel_Close_fields)
  ultimately show ?thesis
    by (auto simp: Run_def Let_def released_def case_prod_beta released_close_both Tunnel_Close_fields conn_close_def
        run_mode_sv split: sum.split prod.split)
qed

section \<open>The host is as before\<close>

text \<open>
  What the device does to the main table: closing it removes the routes that leave through it;
  a device just opened has none; giving it an address and bringing it up adds routes through
  it, to none of the prefixes the program uses for the addresses of \<open>A\<close>.
\<close>

definition drop_dev :: "string \<Rightarrow> routes \<Rightarrow> routes" where
  "drop_dev nm m = (\<lambda>p. case m p of None \<Rightarrow> None | Some hop \<Rightarrow> if last hop = nm then None else Some hop)"

definition no_dev :: "string \<Rightarrow> routes \<Rightarrow> bool" where
  "no_dev nm m \<longleftrightarrow> (\<forall>p hop. m p = Some hop \<longrightarrow> last hop \<noteq> nm)"

definition grows_by_dev :: "string set \<Rightarrow> string \<Rightarrow> routes \<Rightarrow> routes \<Rightarrow> bool" where
  "grows_by_dev P nm m m' \<longleftrightarrow>
     (\<forall>p. m' p = m p \<or> p \<notin> P \<and> m p = None \<and> m' p = Some (tun_hop nm))"

definition device_words :: "string set \<Rightarrow> string \<Rightarrow> string list set" where
  "device_words A nm =
     {[''ip'', ''addr'', ''add'', a, ''dev'', nm] | a. a \<in> A}
     \<union> {[''ip'', ''link'', ''set'', ''dev'', nm, ''mtu'', k] | k. True}
     \<union> {[''ip'', ''link'', ''set'', ''dev'', nm, ''up'']}"

definition device_ok :: "'w client_env \<Rightarrow> ('w \<Rightarrow> routes) \<Rightarrow> string set \<Rightarrow> string set \<Rightarrow> bool" where
  "device_ok E R P A \<longleftrightarrow>
     (\<forall>m w. R (snd (ce_tunOpen E m w)) = R w
        \<and> (\<forall>nm. fst (ce_tunOpen E m w) = Inr nm \<longrightarrow> no_dev nm (R w)))
   \<and> (\<forall>nm w. R (ce_devClose E nm w) = drop_dev nm (R w))
   \<and> (\<forall>nm w. \<forall>args \<in> device_words A nm.
        grows_by_dev P nm (R w) (R (snd (exec (ce_sys E) args w))))"

lemma grows_by_dev_refl: "grows_by_dev P nm m m"
  by (simp add: grows_by_dev_def)

lemma grows_by_dev_trans: "grows_by_dev P nm m m' \<Longrightarrow> grows_by_dev P nm m' m'' \<Longrightarrow> grows_by_dev P nm m m''"
  unfolding grows_by_dev_def by metis

lemma drop_dev_undoes: "grows_by_dev P nm m m' \<Longrightarrow> no_dev nm m \<Longrightarrow> drop_dev nm m' = m"
proof (rule ext)
  fix p assume "grows_by_dev P nm m m'" "no_dev nm m"
  then have "m' p = m p \<or> m p = None \<and> m' p = Some (tun_hop nm)" "\<And>hop. m p = Some hop \<Longrightarrow> last hop \<noteq> nm"
    unfolding grows_by_dev_def no_dev_def by blast+
  then show "drop_dev nm m' p = m p" by (cases "m p") (auto simp: drop_dev_def)
qed

lemma drop_dev_idem: "drop_dev nm (drop_dev nm m) = drop_dev nm m"
  by (auto simp: drop_dev_def fun_eq_iff split: option.split)

lemma grows_no_halves:
  "grows_by_dev (client_prefixes ip) nm m m' \<Longrightarrow> no_dev nm m \<Longrightarrow> no_halves nm m'"
  unfolding grows_by_dev_def no_dev_def no_halves_def by (metis insertI1 insertI2 option.collapse insert_iff empty_iff)

lemma os_then_grows:
  assumes "grows_by_dev P nm m (R (snd p))"
    and "\<And>a w. p = (Inr a, w) \<Longrightarrow> grows_by_dev P nm (R w) (R (snd (f a w)))"
  shows "grows_by_dev P nm m (R (snd (os_then p f)))"
proof (cases p)
  case (Pair r w)
  with assms show ?thesis by (cases r) (auto intro: grows_by_dev_trans)
qed

lemma IfUp_grows:
  assumes dev: "device_ok E R P A" and "cidr \<in> A"
  shows "grows_by_dev P nm (R w) (R (snd (IfUp (ce_sys E) nm cidr mtu w)))"
proof -
  have g: "grows_by_dev P nm (R v) (R (snd (run (ce_sys E) args v)))" if "args \<in> device_words A nm" for args v
    unfolding try_run using dev [unfolded device_ok_def] that by blast
  have w: "[''ip'', ''addr'', ''add'', cidr, ''dev'', nm] \<in> device_words A nm"
    "[''ip'', ''link'', ''set'', ''dev'', nm, ''mtu'', k] \<in> device_words A nm"
    "[''ip'', ''link'', ''set'', ''dev'', nm, ''up''] \<in> device_words A nm" for k
    using assms(2) unfolding device_words_def by blast+
  show ?thesis unfolding IfUp_def
    by (rule os_then_grows [where R = R], rule g [OF w(1)], rule os_then_grows [where R = R],
        rule g [OF w(2)], rule g [OF w(3)])
qed

lemma pumping_host:
  assumes "\<And>t w. R (snd (snd (go t w))) = R w"
  shows "R (rn_host (snd (pumping go s))) = R (rn_host s)"
  using assms by (simp add: pumping_def split: option.split prod.split) (metis snd_conv)

lemma run_full_routes:
  assumes ok: "routing_ok (ce_sys E) R F (client_prefixes (c_ServerIP cfg))" "files_ok (ce_sys E) R F"
    and dev: "device_ok E R P A" and quiet: "\<And>t w. R (snd (snd (go t w))) = R w"
    and pre: "no_halves nm (R (rn_host s))"
  shows "R (rn_host (snd (run_full E go cfg asg nm s))) \<in> {R (rn_host s), drop_dev nm (R (rn_host s))}"
proof -
  define dns where "dns = (if c_DNS cfg = [] then asg_DNS asg else c_DNS cfg)"
  obtain r w where r: "SetupClientRoutes (ce_sys E) (c_ServerIP cfg) nm dns (rn_host s) = (r, w)" by fastforce
  show ?thesis
  proof (cases r)
    case (Inl e)
    with SetupClientRoutes_view [OF ok pre, of dns] r have "R w = R (rn_host s)" by simp
    moreover have "R (ce_devClose E nm w) = drop_dev nm (R w)" using dev by (simp add: device_ok_def)
    ultimately show ?thesis by (simp add: run_full_def Let_def dns_def [symmetric] r Inl)
  next
    case (Inr rs)
    have "R (rn_host (snd (pumping go (s\<lparr>rn_host := w\<rparr>)))) = R w"
      by (subst pumping_host [of R, OF quiet]) simp
    from setup_then_teardown(1) [OF ok pre r [unfolded Inr] this]
    show ?thesis by (simp add: run_full_def Let_def dns_def [symmetric] r Inr case_prod_beta)
  qed
qed


section \<open>A run on the sample host\<close>

definition sample_client_env :: "host client_env" where
  "sample_client_env = \<lparr>ce_sys = sample_system,
     ce_tunOpen = (\<lambda>m h. (if no_dev ''krot0'' (h_main h) then Inr ''krot0'' else Inl (), h)),
     ce_devClose = (\<lambda>nm h. set_table ''main'' (drop_dev nm (h_main h)) h), ce_listen = (\<lambda>_. True)\<rparr>"

definition sample_client_cfg :: client_cfg where
  "sample_client_cfg = \<lparr>c_ServerIP = ''5.5.5.5'', c_ServerPort = 443, c_SNI = ''a.example'', c_Path = ''/ws'',
     c_PSK = StdEncodeToString (sample_key 5), c_ServerPub = StdEncodeToString (sample_key 12),
     c_Insecure = True, c_PinSHA256 = [], c_TunName = ''krot0'', c_MTU = 1320, c_DNS = ''1.1.1.1'',
     c_Channels = 1, c_RouteMode = [], c_SocksListen = [], c_SocksTable = []\<rparr>"

definition sample_answer :: "(string \<times> string) list" where
  "sample_answer = [(hdrServerEph, b64 (sample_key 11)), (hdrAssignAddr, ''10.8.0.2/24'')]"

definition sample_dial_args :: dial_args where
  "sample_dial_args = \<lparr>da_sid = Some sample_sid,
     da_env = (\<lambda>_. sample_dial_env\<lparr>de_upgrade := (\<lambda>_. Some sample_answer)\<rparr>), da_arrival = []\<rparr>"

lemma sample_run_dial:
  "\<exists>t asg. run_dial sample_prims sample_dial_args sample_client_cfg = Inr (t, asg) \<and> asg_Addr asg = ''10.8.0.2/24''"
proof -
  have keys: "DecodePSK (StdEncodeToString (sample_key 5)) = Inr (sample_key 5)"
    "DecodeKey32 (StdEncodeToString (sample_key 12)) = Inr (sample_key 12)"
    by (simp_all add: DecodePSK_Inr DecodeKey32_Inr sample_key_def KeySize_def)
  have dh: "combineDH sample_prims (sample_key 1) (sample_key 11) (sample_key 1) (sample_key 12)
      = Inr (sample_key 12 @ sample_key 13)"
    by (simp add: combineDH_def sample_DH)
  obtain k where k: "DeriveSessionKeys sample_prims (sample_key 12 @ sample_key 13)
      (channelSalt (sample_key 10) (sample_key 11) sample_sid 0) True = Some k"
    using DeriveSessionKeys_total [OF sample_prims_total] by blast
  have hdr: "Header_Get sample_answer hdrServerEph = b64 (sample_key 11)"
    "Header_Get sample_answer hdrAssignAddr = ''10.8.0.2/24''"
    by (simp_all add: sample_answer_def wire_names Header_Get_def)
  obtain c where c: "newConn sample_prims (TxKey k) (RxKey k) DefaultPad = Inr c"
    using newConn_total [OF sample_prims_total] DeriveSessionKeys_lengths [OF k] by blast
  have dec: "decodeKey (b64 (sample_key 11)) = Some (sample_key 11)" by (simp add: sample_key_def)
  have gen: "GenerateKeypair sample_prims (Some (sample_key 1)) = Inr \<lparr>Private = sample_key 1, Public = sample_key 10\<rparr>"
    using sample_keypair [of 1] by simp
  define cc where "cc = run_dial_config sample_client_cfg (sample_key 5) (sample_key 12)"
  have cc: "cc_PinSHA256 cc = []" "cc_ServerStatic cc = sample_key 12"
    "BurstRecords (cc_Pad cc) = 0" "BurstMax (cc_Pad cc) = 0"
    by (simp_all add: cc_def run_dial_config_def sample_client_cfg_def)
  have "finish_dial sample_prims cc \<lparr>Private = sample_key 1, Public = sample_key 10\<rparr> sample_sid 0 sample_answer
      = Inr (c, \<lparr>asg_Addr = ''10.8.0.2/24'', asg_Gw = Header_Get sample_answer hdrAssignGw,
               asg_DNS = Header_Get sample_answer hdrAssignDNS\<rparr>)"
    by (simp add: finish_dial_def hdr dec cc lift_err_def dh k c Let_def)
  then have ch: "dialChannel sample_prims cc sample_sid 0 (sample_dial_env\<lparr>de_upgrade := (\<lambda>_. Some sample_answer)\<rparr>)
      = Inr (c, \<lparr>asg_Addr = ''10.8.0.2/24'', asg_Gw = Header_Get sample_answer hdrAssignGw,
               asg_DNS = Header_Get sample_answer hdrAssignDNS\<rparr>)"
    by (simp add: dialChannel_def sample_dial_env_def cc gen lift_err_def)
  have psk: "c_PSK sample_client_cfg = StdEncodeToString (sample_key 5)"
    "c_ServerPub sample_client_cfg = StdEncodeToString (sample_key 12)"
    by (simp_all add: sample_client_cfg_def)
  show ?thesis
    by (simp add: run_dial_def psk keys lift_err_def cc_def [symmetric] Dial_def sample_dial_args_def ch Let_def)
qed

lemma sample_cfg_fields:
  "ce_sys sample_client_env = sample_system" "c_TunName sample_client_cfg = ''krot0''"
  "ce_tunOpen sample_client_env m h = (if no_dev ''krot0'' (h_main h) then Inr ''krot0'' else Inl (), h)"
  "c_MTU sample_client_cfg = 1320" "c_SocksListen sample_client_cfg = []" "c_RouteMode sample_client_cfg = []"
  "c_ServerIP sample_client_cfg = ''5.5.5.5''" "c_DNS sample_client_cfg = ''1.1.1.1''"
  by (simp_all add: sample_client_env_def sample_client_cfg_def)

lemma sample_device_ok: "device_ok sample_client_env h_main P A"
proof -
  have "h_main (snd (host_exec args h)) = h_main h" if "args \<in> device_words A nm" for args nm h
    using that unfolding device_words_def by (elim UnE CollectE exE conjE singletonE) (simp_all add: host_exec_def)
  then have "grows_by_dev P nm (h_main h) (h_main (snd (host_exec args h)))" if "args \<in> device_words A nm" for args nm h
    using that grows_by_dev_refl by simp
  then show ?thesis by (simp add: device_ok_def sample_client_env_def)
qed


end
