(* ===== verification/Krot_Pumps.thy ===== *)
theory Krot_Pumps
  imports Krot_Client
begin

text \<open>
  The goroutines of internal/client/client.go that run between Run's setup and its teardown:
  the two pumps, the keepalive, and below them the tunnel's read loops. Each turn of a loop is
  a function; a step relation lets them interleave in any order and with any behaviour of the
  device, the connections and the peer.
\<close>

section \<open>State and turns\<close>

text \<open>
  \<open>pm_held\<close>: packets that read loops have read and not yet put into the inbound channel;
  \<open>pm_got\<close>: all packets that went into the channel, in this order; \<open>pm_out\<close>: packets written
  to the device; \<open>pm_errs\<close>: what was sent on errc. The flags tell which goroutines still run.
\<close>

record pumps =
  pm_tun :: tunnel
  pm_held :: "bytes list"
  pm_got :: "bytes list"
  pm_out :: "bytes list"
  pm_up :: bool
  pm_down :: bool
  pm_keep :: bool
  pm_errs :: "run_error list"

definition pumps_init :: "tunnel \<Rightarrow> pumps" where
  "pumps_init t = \<lparr>pm_tun = t, pm_held = [], pm_got = inbound t, pm_out = [], pm_up = True, pm_down = True,
     pm_keep = True, pm_errs = []\<rparr>"

definition up_fail :: "run_error \<Rightarrow> pumps \<Rightarrow> pumps" where
  "up_fail e s = s\<lparr>pm_up := False, pm_errs := pm_errs s @ [e]\<rparr>"

definition down_fail :: "run_error \<Rightarrow> pumps \<Rightarrow> pumps" where
  "down_fail e s = s\<lparr>pm_down := False, pm_errs := pm_errs s @ [e]\<rparr>"

text \<open>TUN to tunnel, given what the device's read returned.\<close>

definition up_turn :: "unit + bytes \<Rightarrow> write_env \<Rightarrow> pumps \<Rightarrow> pumps" where
  "up_turn rd env s =
     (case rd of
        Inl _ \<Rightarrow> up_fail TunRead s
      | Inr pkt \<Rightarrow>
          let (r, t) = Tunnel_WritePacket pkt env (pm_tun s) in
          (case r of
             Inl e \<Rightarrow> up_fail (TunnelWrite e) (s\<lparr>pm_tun := t\<rparr>)
           | Inr _ \<Rightarrow> s\<lparr>pm_tun := t\<rparr>))"

text \<open>Tunnel to TUN, \<^term>\<open>None\<close> while it waits for a packet; \<open>ok\<close>: the device takes the packet.\<close>

definition down_turn :: "bool \<Rightarrow> pumps \<Rightarrow> pumps option" where
  "down_turn ok s =
     (let (r, t) = Tunnel_ReadPacket (pm_tun s) in
      case r of
        TunnelBlocked \<Rightarrow> None
      | TunnelEOF e \<Rightarrow> Some (down_fail (TunnelRead e) s)
      | TunnelPacket p \<Rightarrow>
          Some (if ok then s\<lparr>pm_tun := t, pm_out := pm_out s @ [p]\<rparr>
                else down_fail TunWrite (s\<lparr>pm_tun := t\<rparr>)))"

definition keep_tick :: "write_env \<Rightarrow> pumps \<Rightarrow> pumps" where
  "keep_tick env s =
     (let (r, t) = Tunnel_WriteKeepalive env (pm_tun s) in
      if r \<noteq> None then s\<lparr>pm_tun := Tunnel_Close t, pm_keep := False\<rparr> else s\<lparr>pm_tun := t\<rparr>)"

text \<open>
  Steps: the turns; a read loop of a channel reads a packet (\<open>hold\<close>), puts it into the inbound
  channel when there is room (\<open>deliver\<close>), drops it when the tunnel is dead (\<open>drop\<close>), or
  fails and removes its channel (\<open>lose\<close>).
\<close>

inductive pump_step :: "pumps \<Rightarrow> pumps \<Rightarrow> bool" where
  up: "pm_up s \<Longrightarrow> pump_step s (up_turn rd env s)"
| down: "pm_down s \<Longrightarrow> down_turn ok s = Some s' \<Longrightarrow> pump_step s s'"
| keep: "pm_keep s \<Longrightarrow> pump_step s (keep_tick env s)"
| hold: "(idx, c) \<in> set (channels (pm_tun s)) \<Longrightarrow> pump_step s (s\<lparr>pm_held := p # pm_held s\<rparr>)"
| deliver: "pm_held s = ps @ p # qs \<Longrightarrow> length (inbound (pm_tun s)) < inbound_cap \<Longrightarrow>
    pump_step s (s\<lparr>pm_held := ps @ qs, pm_got := pm_got s @ [p],
      pm_tun := (pm_tun s)\<lparr>inbound := inbound (pm_tun s) @ [p]\<rparr>\<rparr>)"
| drop: "pm_held s = ps @ p # qs \<Longrightarrow> dead (pm_tun s) \<Longrightarrow> pump_step s (s\<lparr>pm_held := ps @ qs\<rparr>)"
| lose: "(idx, c) \<in> set (channels (pm_tun s)) \<Longrightarrow>
    pump_step s (s\<lparr>pm_tun := removeChannel idx (pm_tun s)\<rparr>)"

inductive pump_reach :: "tunnel \<Rightarrow> pumps \<Rightarrow> bool" for t :: tunnel where
  init: "pump_reach t (pumps_init t)"
| step: "pump_reach t s \<Longrightarrow> pump_step s s' \<Longrightarrow> pump_reach t s'"

inductive_cases pump_stepE: "pump_step s s'"

section \<open>Invariant\<close>

definition running :: "pumps \<Rightarrow> nat" where
  "running s = (if pm_up s then 1 else 0) + (if pm_down s then 1 else 0)"

definition pumps_ok :: "pumps \<Rightarrow> bool" where
  "pumps_ok s \<longleftrightarrow> tunnel_ok (pm_tun s)
     \<and> length (pm_errs s) + running s = 2
     \<and> (\<exists>lost. pm_got s = pm_out s @ lost @ inbound (pm_tun s) \<and> length lost \<le> 1 \<and> (pm_down s \<longrightarrow> lost = []))"

lemma removeChannel_inbound [simp]: "inbound (removeChannel idx t) = inbound t"
  by (cases "map_of (channels t) idx") (simp_all add: removeChannel_None removeChannel_fields)

lemma write_loop_inbound: "inbound (snd (write_loop k h i p env t)) = inbound t"
proof (induction k arbitrary: i t)
  case 0
  then show ?case by simp
next
  case (Suc k)
  show ?case
  proof (cases "order t = [] \<or> map_of (channels t) (choice h i t) = None")
    case True
    then show ?thesis by (cases "order t = []") (simp_all add: write_loop_empty write_loop.simps choice_def Let_def)
  next
    case False
    then obtain c where ne: "order t \<noteq> []" and c: "map_of (channels t) (choice h i t) = Some c" by auto
    obtain r k' where w: "attempt p env i t c = (r, k')" by fastforce
    show ?thesis
      by (cases r) (use write_loop_fail [OF ne c] write_loop_success [OF ne c] w Suc.IH in \<open>auto\<close>)
  qed
qed

lemma keepalive_loop_inbound: "inbound (snd (keepalive_loop i cs env t)) = inbound t"
  by (induction i cs env t rule: keepalive_loop.induct) (auto split: prod.splits sum.splits)

lemma Tunnel_Close_inbound: "inbound (Tunnel_Close t) = inbound t"
proof -
  have "inbound (fold Conn_Close cs u) = inbound u" for cs u by (induction cs arbitrary: u) auto
  then show ?thesis by (simp add: Tunnel_Close_def Tunnel_Close_locked_def)
qed

lemmas inbounds = write_loop_inbound keepalive_loop_inbound Tunnel_Close_inbound

lemma turn_moved:
  assumes "tunnel_ok (pm_tun s)"
  shows "moved (pm_tun s) (pm_tun (up_turn rd env s))" "inbound (pm_tun (up_turn rd env s)) = inbound (pm_tun s)"
    and "moved (pm_tun s) (pm_tun (keep_tick env s))" "inbound (pm_tun (keep_tick env s)) = inbound (pm_tun s)"
proof -
  note mv = tunnel_moves [unfolded tunnel_move_def, rule_format]
  show "moved (pm_tun s) (pm_tun (up_turn rd env s))"
    using assms mv(3) [of "pm_tun s"]
    by (auto simp: up_turn_def up_fail_def Let_def case_prod_beta moved_refl split: sum.split)
  show "inbound (pm_tun (up_turn rd env s)) = inbound (pm_tun s)"
    by (auto simp: up_turn_def up_fail_def Let_def case_prod_beta Tunnel_WritePacket_def inbounds split: sum.split)
  let ?t = "snd (Tunnel_WriteKeepalive env (pm_tun s))"
  have t: "moved (pm_tun s) ?t" using assms mv(4) by blast
  then have "moved ?t (Tunnel_Close ?t)" using mv(2) by (simp add: moved_def)
  with t have "moved (pm_tun s) (Tunnel_Close ?t)" by (rule moved_trans)
  with t show "moved (pm_tun s) (pm_tun (keep_tick env s))"
    by (simp add: keep_tick_def case_prod_beta)
  show "inbound (pm_tun (keep_tick env s)) = inbound (pm_tun s)"
    by (auto simp: keep_tick_def case_prod_beta Tunnel_WriteKeepalive_def inbounds Let_def)
qed

lemma up_turn_counts:
  "pm_up s \<Longrightarrow> length (pm_errs (up_turn rd env s)) + running (up_turn rd env s) = length (pm_errs s) + running s"
  "pm_out (up_turn rd env s) = pm_out s" "pm_got (up_turn rd env s) = pm_got s"
  "pm_down (up_turn rd env s) = pm_down s" "pm_held (up_turn rd env s) = pm_held s"
  "pm_keep (up_turn rd env s) = pm_keep s"
  by (auto simp: up_turn_def up_fail_def running_def Let_def case_prod_beta split: sum.split)

lemma keep_tick_fields:
  "pm_out (keep_tick env s) = pm_out s" "pm_got (keep_tick env s) = pm_got s"
  "pm_down (keep_tick env s) = pm_down s" "pm_held (keep_tick env s) = pm_held s"
  "pm_up (keep_tick env s) = pm_up s" "pm_errs (keep_tick env s) = pm_errs s"
  "running (keep_tick env s) = running s"
  by (auto simp: keep_tick_def case_prod_beta running_def)

text \<open>A turn of the down pump, by what the tunnel has.\<close>

lemma down_turn_cases:
  assumes "down_turn ok s = Some s'"
  obtains (packet) p ps where "inbound (pm_tun s) = p # ps"
      "s' = (if ok then s\<lparr>pm_tun := (pm_tun s)\<lparr>inbound := ps\<rparr>, pm_out := pm_out s @ [p]\<rparr>
             else down_fail TunWrite (s\<lparr>pm_tun := (pm_tun s)\<lparr>inbound := ps\<rparr>\<rparr>))"
    | (eof) "inbound (pm_tun s) = []" "dead (pm_tun s)" "s' = down_fail (TunnelRead errTunnelClosed) s"
  using assms by (cases "inbound (pm_tun s)") (auto simp: down_turn_def Tunnel_ReadPacket_def split: if_splits)

lemma inbound_ok: "tunnel_ok (t\<lparr>inbound := ps\<rparr>) = tunnel_ok t"
  by (simp add: tunnel_ok_def tunnel_defs)

lemma pump_step_ok:
  assumes "pump_step s s'" and "pumps_ok s"
  shows "pumps_ok s'"
  using assms(1)
proof cases
  case (up rd env)
  with assms(2) turn_moved(1,2) [of s rd env] up_turn_counts [where s = s and rd = rd and env = env] show ?thesis
    by (auto simp: pumps_ok_def moved_def)
next
  case (down ok)
  from down(2) show ?thesis
  proof (cases rule: down_turn_cases)
    case (packet p ps)
    with assms(2) down(1) show ?thesis
      by (auto simp: pumps_ok_def running_def down_fail_def inbound_ok intro: exI [of _ "[p]"])
  next
    case eof
    with assms(2) down(1) show ?thesis by (auto simp: pumps_ok_def running_def down_fail_def)
  qed
next
  case (keep env)
  with assms(2) turn_moved(3,4) [of s env] show ?thesis
    by (auto simp: pumps_ok_def moved_def keep_tick_fields)
next
  case (deliver ps p qs)
  with assms(2) show ?thesis by (auto simp: pumps_ok_def running_def inbound_ok)
next
  case (lose idx c)
  with assms(2) show ?thesis by (auto simp: pumps_ok_def running_def removeChannel_ok)
qed (use assms(2) in \<open>auto simp: pumps_ok_def running_def\<close>)

lemma pump_reach_ok: "pump_reach t s \<Longrightarrow> tunnel_ok t \<Longrightarrow> pumps_ok s"
proof (induction rule: pump_reach.induct)
  case init
  then show ?case by (simp add: pumps_ok_def pumps_init_def running_def)
next
  case (step s s')
  then show ?case using pump_step_ok by blast
qed

section \<open>Order and errors\<close>


section \<open>The end of the pumps\<close>

definition pump_load :: "pumps \<Rightarrow> nat" where
  "pump_load s = 2 * length (pm_held s) + length (inbound (pm_tun s)) + running s + (if pm_keep s then 1 else 0)"

lemma dead_no_channels: "pumps_ok s \<Longrightarrow> dead (pm_tun s) \<Longrightarrow> channels (pm_tun s) = [] \<and> order (pm_tun s) = []"
  by (auto simp: pumps_ok_def tunnel_ok_def tunnel_defs)

lemma dead_up_turn:
  assumes "pumps_ok s" "dead (pm_tun s)"
  shows "\<exists>e. up_turn rd env s = up_fail e s"
  using dead_no_channels [OF assms]
  by (cases rd) (auto simp: up_turn_def Tunnel_WritePacket_def write_loop_empty intro: exI [of _ "TunnelWrite errTunnelClosed"])

lemma dead_keep_tick:
  assumes "pumps_ok s" "dead (pm_tun s)"
  shows "keep_tick env s = s\<lparr>pm_tun := Tunnel_Close (pm_tun s), pm_keep := False\<rparr>"
  using dead_no_channels [OF assms] by (simp add: keep_tick_def Tunnel_WriteKeepalive_def Let_def)

lemma dead_down_turn: "dead (pm_tun s) \<Longrightarrow> down_turn ok s \<noteq> None"
  by (auto simp: down_turn_def Tunnel_ReadPacket_def Let_def split: list.split)

lemma pumps_ok_once: "pumps_ok s \<Longrightarrow> once_inv (pm_tun s)"
  by (simp add: pumps_ok_def tunnel_ok_def)

lemma dead_pump_step:
  assumes ok: "pumps_ok s" and dead: "dead (pm_tun s)" and "pump_step s s'"
  shows "dead (pm_tun s') \<and> pump_load s' < pump_load s"
  using assms(3)
proof cases
  case (up rd env)
  obtain e where "up_turn rd env s = up_fail e s" using dead_up_turn [OF ok dead] by blast
  with up dead show ?thesis by (simp add: up_fail_def pump_load_def running_def)
next
  case (down ok')
  from down(2) show ?thesis
    by (cases rule: down_turn_cases)
      (use down(1) dead in \<open>auto simp: down_fail_def pump_load_def running_def\<close>)
next
  case (keep env)
  with Tunnel_Close_grows [of "pm_tun s"] pumps_ok_once [OF ok] show ?thesis
    by (simp add: dead_keep_tick [OF ok dead] pump_load_def running_def Tunnel_Close_inbound)
next
  case (deliver ps p qs)
  with dead show ?thesis by (simp add: pump_load_def running_def)
next
  case (drop ps p qs)
  with dead show ?thesis by (simp add: pump_load_def running_def)
qed (use dead_no_channels [OF ok dead] in auto)

lemma dead_pump_run:
  "(pump_step ^^ n) s s' \<Longrightarrow> pumps_ok s \<Longrightarrow> dead (pm_tun s) \<Longrightarrow> n \<le> pump_load s"
proof (induction n arbitrary: s)
  case (Suc n)
  from Suc.prems(1) obtain u where u: "pump_step s u" "(pump_step ^^ n) u s'"
    using relpowp_Suc_D2 by metis
  note d = dead_pump_step [OF Suc.prems(2,3) u(1)]
  with Suc.IH [OF u(2) pump_step_ok [OF u(1) Suc.prems(2)]] show ?case by simp
qed simp

text \<open>C32. Once the tunnel is dead the client ends, so that it can be restarted: a keepalive that fails
  leaves the tunnel dead; from then on every run of the goroutines, whatever the device does,
  has a bounded number of steps, and when no step is left both pumps have reported an error.
  The pump towards the device does not depend on the device or the peer for its next step.\<close>

theorem dead_tunnel_ends_the_run:
  assumes "pump_reach t s" and "tunnel_ok t"
  shows "(pm_keep s \<and> \<not> pm_keep (keep_tick env s) \<longrightarrow> dead (pm_tun (keep_tick env s)))
    \<and> (dead (pm_tun s) \<and> (pump_step ^^ n) s s' \<longrightarrow>
      n \<le> pump_load s \<and> ((\<nexists>s''. pump_step s' s'') \<longrightarrow> length (pm_errs s') = 2)
      \<and> (pm_down s' \<longrightarrow> down_turn ok s' \<noteq> None))"
proof (rule conjI [rotated], rule impI, elim conjE)
  assume dead: "dead (pm_tun s)" and run: "(pump_step ^^ n) s s'"
  have ok: "pumps_ok s" by (rule pump_reach_ok [OF assms])
  have "pumps_ok s' \<and> dead (pm_tun s')"
    using run
  proof (induction n arbitrary: s')
    case 0
    with ok dead show ?case by simp
  next
    case (Suc n)
    then obtain u where "(pump_step ^^ n) s u" "pump_step u s'" by auto
    with Suc.IH pump_step_ok dead_pump_step show ?case by blast
  qed
  then have ok': "pumps_ok s'" and dead': "dead (pm_tun s')" by simp_all
  have "length (pm_errs s') = 2" if stuck: "\<nexists>s''. pump_step s' s''"
  proof -
    have "\<not> pm_up s'" using stuck pump_step.up by blast
    moreover have "\<not> pm_down s'" using stuck pump_step.down dead_down_turn [OF dead', of True] by blast
    ultimately show ?thesis using ok' by (simp add: pumps_ok_def running_def)
  qed
  with dead_pump_run [OF run ok dead] dead_down_turn [OF dead']
  show "n \<le> pump_load s \<and> ((\<nexists>s''. pump_step s' s'') \<longrightarrow> length (pm_errs s') = 2)
      \<and> (pm_down s' \<longrightarrow> down_turn ok s' \<noteq> None)" by blast
next
  show "pm_keep s \<and> \<not> pm_keep (keep_tick env s) \<longrightarrow> dead (pm_tun (keep_tick env s))"
  proof
    have "once_inv (snd (Tunnel_WriteKeepalive env (pm_tun s)))"
      using pump_reach_ok [OF assms] tunnel_moves(4)
      by (simp add: pumps_ok_def tunnel_move_def moved_def tunnel_ok_def)
    moreover assume "pm_keep s \<and> \<not> pm_keep (keep_tick env s)"
    ultimately show "dead (pm_tun (keep_tick env s))"
      using Tunnel_Close_grows by (simp add: keep_tick_def case_prod_beta split: if_splits)
  qed
qed

section \<open>Witnesses\<close>

definition sample_pumps :: pumps where
  "sample_pumps = pumps_init (newTunnel (\<lambda>_. zero_conn) False)"

lemma sample_pumps_reach: "pump_reach (newTunnel (\<lambda>_. zero_conn) False) sample_pumps"
  by (simp add: sample_pumps_def pump_reach.init)

definition sample_write_env :: write_env where
  "sample_write_env = \<lparr>env_raw = (\<lambda>_. 0), env_fill = (\<lambda>_. None), env_ok = (\<lambda>_. True)\<rparr>"


theorem dead_tunnel_ends_the_run_witness:
  "dead (pm_tun (keep_tick sample_write_env sample_pumps))"
proof -
  have "pm_keep sample_pumps" "\<not> pm_keep (keep_tick sample_write_env sample_pumps)"
    by (simp_all add: sample_pumps_def pumps_init_def keep_tick_def Tunnel_WriteKeepalive_def newTunnel_def)
  with dead_tunnel_ends_the_run [OF sample_pumps_reach newTunnel_ok] show ?thesis by blast
qed

end
