(* ===== verification/Krot_Relay.thy ===== *)
theory Krot_Relay
  imports Krot_Socks "HOL-Library.Sublist"
begin

text \<open>
  relay of internal/socks/socks.go, what becomes of a connection after the success reply: its two
  copying goroutines as a step relation over which the interleavings are quantified. Of a
  connection the model has the bytes its peer still sends, read in any cut, and the bytes
  written to it; reads and writes may fail at any time. io.Copy is the standard library's loop
  of a read and a write, until the end of the source or an error.
\<close>

section \<open>One direction\<close>

record copier =
  cp_src :: bytes        \<comment> \<open>what the source still sends before it ends\<close>
  cp_got :: bytes        \<comment> \<open>what was read from it\<close>
  cp_put :: bytes        \<comment> \<open>what was written to the destination\<close>
  cp_run :: bool         \<comment> \<open>in io.Copy\<close>
  cp_fin :: bool         \<comment> \<open>CloseWrite was called and done sent\<close>
  cp_err :: bool         \<comment> \<open>a read or a write failed\<close>

definition copier_init :: "bytes \<Rightarrow> copier" where
  "copier_init src = \<lparr>cp_src = src, cp_got = [], cp_put = [], cp_run = True, cp_fin = False, cp_err = False\<rparr>"

text \<open>\<open>took n k\<close>: a read of \<open>n\<close> bytes of which \<open>k\<close> were written.\<close>

definition took :: "nat \<Rightarrow> nat \<Rightarrow> copier \<Rightarrow> copier" where
  "took n k c = c\<lparr>cp_src := drop n (cp_src c), cp_got := cp_got c @ take n (cp_src c),
     cp_put := cp_put c @ take k (cp_src c)\<rparr>"

inductive copy_step :: "copier \<Rightarrow> copier \<Rightarrow> bool" where
  chunk: "cp_run c \<Longrightarrow> 0 < n \<Longrightarrow> n \<le> length (cp_src c) \<Longrightarrow> copy_step c (took n n c)"
| short_write: "cp_run c \<Longrightarrow> k < n \<Longrightarrow> n \<le> length (cp_src c) \<Longrightarrow>
    copy_step c ((took n k c)\<lparr>cp_run := False, cp_err := True\<rparr>)"
| source_ends: "cp_run c \<Longrightarrow> cp_src c = [] \<Longrightarrow> copy_step c (c\<lparr>cp_run := False\<rparr>)"
| read_fails: "cp_run c \<Longrightarrow> copy_step c (c\<lparr>cp_run := False, cp_err := True\<rparr>)"
| half_close: "\<not> cp_run c \<Longrightarrow> \<not> cp_fin c \<Longrightarrow> copy_step c (c\<lparr>cp_fin := True\<rparr>)"

inductive_cases copy_stepE: "copy_step c c'"

section \<open>Both directions\<close>

record relay =
  rl_down :: copier      \<comment> \<open>cp(a, b): from the remote side to the client\<close>
  rl_up :: copier        \<comment> \<open>cp(b, a)\<close>
  rl_waits :: nat        \<comment> \<open>how many of the two receives from done are left\<close>
  rl_closed :: bool      \<comment> \<open>handle has returned: both connections are closed\<close>

definition relay_init :: "bytes \<Rightarrow> bytes \<Rightarrow> relay" where
  "relay_init from_client from_remote =
     \<lparr>rl_down = copier_init from_remote, rl_up = copier_init from_client, rl_waits = 2, rl_closed = False\<rparr>"

text \<open>The sends on the channel done that have not been received.\<close>

definition tokens :: "relay \<Rightarrow> nat" where
  "tokens s = of_bool (cp_fin (rl_down s)) + of_bool (cp_fin (rl_up s)) + rl_waits s - 2"

inductive relay_step :: "relay \<Rightarrow> relay \<Rightarrow> bool" where
  down: "copy_step (rl_down s) c \<Longrightarrow> relay_step s (s\<lparr>rl_down := c\<rparr>)"
| up: "copy_step (rl_up s) c \<Longrightarrow> relay_step s (s\<lparr>rl_up := c\<rparr>)"
| receive: "0 < tokens s \<Longrightarrow> relay_step s (s\<lparr>rl_waits := rl_waits s - 1\<rparr>)"
| close: "rl_waits s = 0 \<Longrightarrow> \<not> rl_closed s \<Longrightarrow> relay_step s (s\<lparr>rl_closed := True\<rparr>)"

inductive_cases relay_stepE: "relay_step s s'"

inductive relay_reach :: "bytes \<Rightarrow> bytes \<Rightarrow> relay \<Rightarrow> bool" for from_client from_remote where
  init: "relay_reach from_client from_remote (relay_init from_client from_remote)"
| step: "relay_reach from_client from_remote s \<Longrightarrow> relay_step s s' \<Longrightarrow> relay_reach from_client from_remote s'"

section \<open>Invariant\<close>

definition copier_ok :: "bytes \<Rightarrow> copier \<Rightarrow> bool" where
  "copier_ok src c \<longleftrightarrow> cp_got c @ cp_src c = src \<and> prefix (cp_put c) (cp_got c)
     \<and> (cp_run c \<longrightarrow> \<not> cp_fin c \<and> \<not> cp_err c)
     \<and> (\<not> cp_err c \<longrightarrow> cp_put c = cp_got c \<and> (\<not> cp_run c \<longrightarrow> cp_src c = []))"

definition relay_ok :: "bytes \<Rightarrow> bytes \<Rightarrow> relay \<Rightarrow> bool" where
  "relay_ok from_client from_remote s \<longleftrightarrow>
     copier_ok from_client (rl_up s) \<and> copier_ok from_remote (rl_down s)
   \<and> rl_waits s \<le> 2 \<and> 2 \<le> of_bool (cp_fin (rl_down s)) + of_bool (cp_fin (rl_up s)) + rl_waits s
   \<and> (rl_closed s \<longrightarrow> rl_waits s = 0)"

lemma prefix_take_take: "k \<le> n \<Longrightarrow> prefix (take k xs) (take n xs)"
  by (metis min.absorb1 take_is_prefix take_take)

lemma copy_step_ok: "copy_step c c' \<Longrightarrow> copier_ok src c \<Longrightarrow> copier_ok src c'"
  by (erule copy_stepE) (auto simp: copier_ok_def took_def prefix_take_take)

lemma copy_step_fin: "copy_step c c' \<Longrightarrow> cp_fin c \<longrightarrow> cp_fin c'"
  by (erule copy_stepE) (auto simp: took_def)

lemma relay_step_ok:
  assumes "relay_step s s'" and "relay_ok x y s"
  shows "relay_ok x y s'"
  using assms
proof (cases rule: relay_step.cases)
  case (down c)
  with assms(2) copy_step_ok copy_step_fin [OF down(2)] show ?thesis
    by (auto simp: relay_ok_def of_bool_def split: if_splits)
next
  case (up c)
  with assms(2) copy_step_ok copy_step_fin [OF up(2)] show ?thesis
    by (auto simp: relay_ok_def of_bool_def split: if_splits)
next
  case receive
  with assms(2) show ?thesis by (auto simp: relay_ok_def tokens_def)
next
  case close
  with assms(2) show ?thesis by (auto simp: relay_ok_def)
qed

lemma relay_init_ok: "relay_ok x y (relay_init x y)"
  by (simp add: relay_ok_def relay_init_def copier_ok_def copier_init_def)

lemma relay_reach_ok: "relay_reach x y s \<Longrightarrow> relay_ok x y s"
  by (induction rule: relay_reach.induct) (rule relay_init_ok, rule relay_step_ok)

lemma copier_ok_prefix: "copier_ok src c \<Longrightarrow> prefix (cp_put c) src"
  by (auto simp: copier_ok_def)

lemma copier_ok_over: "copier_ok src c \<Longrightarrow> cp_fin c \<Longrightarrow> \<not> cp_err c \<Longrightarrow> cp_put c = src"
  by (auto simp: copier_ok_def)

lemma relay_closed_over:
  "relay_ok x y s \<Longrightarrow> rl_closed s \<Longrightarrow> cp_fin (rl_up s) \<and> cp_fin (rl_down s)"
  by (auto simp: relay_ok_def of_bool_def split: if_splits)

section \<open>Termination\<close>

text \<open>What the peers send is finite; a relay to a peer that never ends does not end either.\<close>

definition copier_size :: "copier \<Rightarrow> nat" where
  "copier_size c = length (cp_src c) + of_bool (cp_run c) + of_bool (\<not> cp_fin c)"

definition relay_size :: "relay \<Rightarrow> nat" where
  "relay_size s = copier_size (rl_up s) + copier_size (rl_down s) + rl_waits s + of_bool (\<not> rl_closed s)"

lemma copy_step_size: "copy_step c c' \<Longrightarrow> copier_size c' < copier_size c"
  by (erule copy_stepE) (auto simp: copier_size_def took_def)

lemma relay_step_size: "relay_step s s' \<Longrightarrow> relay_size s' < relay_size s"
  by (erule relay_stepE) (auto simp: relay_size_def tokens_def of_bool_def dest: copy_step_size split: if_splits)

lemma copy_step_possible:
  assumes "\<not> cp_fin c"
  obtains c' where "copy_step c c'"
proof (cases "cp_run c \<and> cp_src c \<noteq> []")
  case True
  then have "copy_step c (took 1 1 c)" by (intro copy_step.chunk) (auto simp: Suc_le_eq)
  then show ?thesis by (rule that)
next
  case False
  with assms show ?thesis using copy_step.source_ends copy_step.half_close that by blast
qed

lemma relay_stuck_closed:
  assumes "relay_ok x y s" and "\<And>s'. \<not> relay_step s s'"
  shows "rl_closed s"
proof (rule ccontr)
  assume not_closed: "\<not> rl_closed s"
  have "cp_fin (rl_up s)" "cp_fin (rl_down s)"
    using copy_step_possible assms(2) relay_step.up relay_step.down by metis+
  then have "rl_waits s > 0 \<Longrightarrow> tokens s > 0" by (simp add: tokens_def)
  with assms(2) relay_step.receive relay_step.close not_closed show False by blast
qed

theorem relay_ends:
  assumes "(relay_step ^^ k) (relay_init x y) s"
  shows "k \<le> length x + length y + 7 \<and> ((\<forall>s'. \<not> relay_step s s') \<longrightarrow> rl_closed s)"
proof -
  have "k + relay_size s \<le> relay_size (relay_init x y) \<and> relay_ok x y s"
    using assms
  proof (induction k arbitrary: s)
    case 0
    then show ?case using relay_init_ok by auto
  next
    case (Suc k)
    then obtain t where "(relay_step ^^ k) (relay_init x y) t" "relay_step t s" by auto
    with Suc.IH relay_step_size relay_step_ok show ?case by fastforce
  qed
  moreover have "relay_size (relay_init x y) = length x + length y + 7"
    by (simp add: relay_size_def relay_init_def copier_size_def copier_init_def)
  ultimately show ?thesis using relay_stuck_closed by fastforce
qed

text \<open>Without a failure it is carried through, whatever the two sides send.\<close>

lemma copier_completes:
  "\<exists>c. copy_step\<^sup>*\<^sup>* (copier_init src) c \<and> \<not> cp_run c \<and> cp_fin c \<and> \<not> cp_err c"
proof -
  let ?c = "took (length src) (length src) (copier_init src)"
  have "copy_step\<^sup>*\<^sup>* (copier_init src) ?c"
    using copy_step.chunk [of "copier_init src" "length src"]
    by (cases "src = []") (auto simp: took_def copier_init_def)
  also have "copy_step ?c (?c\<lparr>cp_run := False\<rparr>)"
    by (rule copy_step.source_ends) (simp_all add: took_def copier_init_def)
  also have "copy_step (?c\<lparr>cp_run := False\<rparr>) (?c\<lparr>cp_run := False, cp_fin := True\<rparr>)"
    using copy_step.half_close [of "?c\<lparr>cp_run := False\<rparr>"] by (simp add: took_def copier_init_def)
  finally show ?thesis by (rule exI [of _ "?c\<lparr>cp_run := False, cp_fin := True\<rparr>", OF conjI]) (simp add: took_def copier_init_def)
qed

lemma reach_copier:
  assumes "copy_step\<^sup>*\<^sup>* c c'" and "relay_reach x y s"
  shows "rl_up s = c \<Longrightarrow> relay_reach x y (s\<lparr>rl_up := c'\<rparr>)" "rl_down s = c \<Longrightarrow> relay_reach x y (s\<lparr>rl_down := c'\<rparr>)"
  using assms
proof (induction rule: rtranclp_induct)
  case (step d e)
  { case 1
    with step relay_step.up [of "s\<lparr>rl_up := d\<rparr>" e] show ?case by (auto intro: relay_reach.step)
  next
    case 2
    with step relay_step.down [of "s\<lparr>rl_down := d\<rparr>" e] show ?case by (auto intro: relay_reach.step) }
qed (metis relay.surjective relay.update_convs)+

lemma relay_completes:
  "\<exists>s. relay_reach x y s \<and> rl_closed s \<and> \<not> cp_err (rl_up s) \<and> \<not> cp_err (rl_down s)"
proof -
  obtain u where u: "copy_step\<^sup>*\<^sup>* (copier_init x) u" "cp_fin u" "\<not> cp_err u" using copier_completes by blast
  obtain d where d: "copy_step\<^sup>*\<^sup>* (copier_init y) d" "cp_fin d" "\<not> cp_err d" using copier_completes by blast
  define s where "s = (relay_init x y)\<lparr>rl_up := u, rl_down := d\<rparr>"
  have "relay_reach x y s" unfolding s_def
    by (rule reach_copier(2) [OF d(1)], rule reach_copier(1) [OF u(1)], rule relay_reach.init) (simp_all add: relay_init_def)
  moreover have "relay_step s (s\<lparr>rl_waits := 1\<rparr>)" "relay_step (s\<lparr>rl_waits := 1\<rparr>) (s\<lparr>rl_waits := 0\<rparr>)"
    "relay_step (s\<lparr>rl_waits := 0\<rparr>) (s\<lparr>rl_waits := 0, rl_closed := True\<rparr>)"
    using relay_step.receive [of s] relay_step.receive [of "s\<lparr>rl_waits := 1\<rparr>"] relay_step.close [of "s\<lparr>rl_waits := 0\<rparr>"] u d
    by (simp_all add: s_def tokens_def relay_init_def)
  ultimately have "relay_reach x y (s\<lparr>rl_waits := 0, rl_closed := True\<rparr>)" by (blast intro: relay_reach.step)
  with u d show ?thesis by (intro exI [of _ "s\<lparr>rl_waits := 0, rl_closed := True\<rparr>"]) (simp add: s_def)
qed

section \<open>A proxied connection\<close>

text \<open>C23. A connection that is relayed: the client was told of success behind the greeting, each side
  receives a prefix of what the other sent, the client's part beginning right behind its
  request, and all of it unless a read or write failed. The connections are closed only when
  both directions have ended, not when either has: a direction that still runs never finds
  them closed.\<close>

theorem relay_carries_the_connection:
  assumes h: "socks_handle greet_ok reply_ok dial inp = (Relaying target data, ws)"
    and r: "relay_reach data response s"
  shows "(\<exists>methods rsv a port. inp = socks_request methods rsv a port @ data
        \<and> target = JoinHostPort (addr_host a) (dec_nat (unat port)))
    \<and> ws = [[ver5, 0], sendReply repSucceeded]
    \<and> prefix (cp_put (rl_up s)) data \<and> prefix (cp_put (rl_down s)) response
    \<and> (rl_closed s \<longrightarrow> (cp_err (rl_up s) \<or> cp_put (rl_up s) = data)
                 \<and> (cp_err (rl_down s) \<or> cp_put (rl_down s) = response))
    \<and> (cp_run (rl_up s) \<or> cp_run (rl_down s) \<longrightarrow> \<not> rl_closed s)"
proof -
  obtain r w where sh: "socks_handshake greet_ok inp = (r, w)" by fastforce
  with h have r': "r = Inr (target, data)" "ws = w @ [sendReply repSucceeded]"
    by (auto simp: socks_handle_def split: sum.splits dialed.splits if_splits)
  note req = handshake_Inr [OF sh [unfolded r'(1)]]
  have ok: "relay_ok data response s" by (rule relay_reach_ok [OF r])
  then have up: "copier_ok data (rl_up s)" and down: "copier_ok response (rl_down s)"
    by (simp_all add: relay_ok_def)
  note over = relay_closed_over [OF ok]
  have "cp_run (rl_up s) \<or> cp_run (rl_down s) \<Longrightarrow> \<not> rl_closed s"
    using over up down unfolding copier_ok_def by blast
  with req r'(2) over copier_ok_prefix [OF up] copier_ok_prefix [OF down]
    copier_ok_over [OF up] copier_ok_over [OF down] show ?thesis by auto
qed

theorem relay_carries_the_connection_witness:
  "\<exists>s. relay_reach [0x47] [0x48] s \<and> rl_closed s \<and> cp_put (rl_up s) = [0x47] \<and> cp_put (rl_down s) = [0x48]"
proof -
  obtain ws where h: "socks_handle True True (\<lambda>_. DialOK) sample_connect = (Relaying ''a:80'' [0x47], ws)"
    using socks_reply_tells_the_outcome_witness by blast
  obtain s where s: "relay_reach [0x47] [0x48] s" "rl_closed s" "\<not> cp_err (rl_up s)" "\<not> cp_err (rl_down s)"
    using relay_completes by blast
  from relay_carries_the_connection [OF h s(1)] s show ?thesis by auto
qed

end
