(* ===== verification/Krot_Probe.thy ===== *)
theory Krot_Probe
  imports Krot_Client Krot_Server
begin

text \<open>
  cmd/krot-probe: the connectivity check that dials a server and sends a DNS query through the
  tunnel. The query it crafts (an IPv4 header with its checksum, UDP, DNS), the reply it waits
  for and the answers it reads out of it. An index or slice out of range is None, a panic.
\<close>

section \<open>The checksum\<close>

fun sum_words :: "bytes \<Rightarrow> 32 word" where
  "sum_words (a # b # h) = (push_bit 8 (ucast a) OR ucast b) + sum_words h"
| "sum_words h = 0"

lemma unat_low16: "unat ((s :: 32 word) AND 0xFFFF) = unat s mod 65536"
proof -
  have "s AND 0xFFFF = take_bit 16 s" by (simp add: take_bit_eq_mask mask_eq_exp_minus_1)
  then show ?thesis by (simp add: take_bit_eq_mod unat_mod_distrib)
qed

lemma unat_high16: "unat (drop_bit 16 (s :: 32 word)) = unat s div 65536"
  by (simp add: drop_bit_eq_div unat_div_distrib)

lemma unat_carry: "unat (((s :: 32 word) AND 0xFFFF) + drop_bit 16 s) = unat s mod 65536 + unat s div 65536"
proof -
  have "unat s < 2 ^ LENGTH(32)" by (rule unsigned_less)
  then have "unat s div 65536 < 65536" by (simp add: less_mult_imp_div_less)
  moreover have "unat s mod 65536 < 65536" by simp
  ultimately have "unat s mod 65536 + unat s div 65536 < 4294967296" by linarith
  then show ?thesis by (simp add: unat_word_ariths unat_low16 unat_high16)
qed

lemma drop_bit16_zero: "drop_bit 16 (s :: 32 word) = 0 \<longleftrightarrow> unat s < 65536"
proof -
  have "drop_bit 16 s = 0 \<longleftrightarrow> unat (drop_bit 16 s) = 0" by (simp add: unat_eq_0)
  then show ?thesis by (simp add: unat_high16 div_eq_0_iff)
qed

function fold_carry :: "32 word \<Rightarrow> 32 word" where
  "fold_carry s = (if drop_bit 16 s \<noteq> 0 then fold_carry ((s AND 0xFFFF) + drop_bit 16 s) else s)"
  by pat_completeness auto

termination
proof (relation "measure unat")
  fix s :: "32 word"
  assume "drop_bit 16 s \<noteq> 0"
  then have "65536 \<le> unat s" by (simp add: drop_bit16_zero)
  then have "0 < unat s div 65536" by (simp add: div_greater_zero_iff)
  moreover have "unat s = 65536 * (unat s div 65536) + unat s mod 65536" by simp
  ultimately have "unat s mod 65536 + unat s div 65536 < unat s" by linarith
  then show "((s AND 0xFFFF) + drop_bit 16 s, s) \<in> measure unat" by (simp add: unat_carry)
qed simp

declare fold_carry.simps [simp del]

definition ipChecksum :: "bytes \<Rightarrow> 16 word" where
  "ipChecksum h = NOT (ucast (fold_carry (sum_words h)))"

section \<open>The query\<close>

text \<open>The loop over the name: the label since \<open>start\<close> and the rest.\<close>

fun qname :: "string \<Rightarrow> string \<Rightarrow> bytes" where
  "qname label [] = of_nat (length label) # bytes_of label"
| "qname label (c # name) =
     (if c = CHR ''.'' then (of_nat (length label) # bytes_of label) @ qname [] name
      else qname (label @ [c]) name)"

definition buildDNSMessage :: "string \<Rightarrow> bytes" where
  "buildDNSMessage name =
     PutUint16 0xABCD @ PutUint16 0x0100 @ PutUint16 1 @ replicate 6 0
     @ qname [] name @ [0] @ [0, 1] @ [0, 1]"

text \<open>The header with the checksum field: 0 while the checksum is computed.\<close>

definition ipv4_header :: "nat \<Rightarrow> 16 word \<Rightarrow> bytes \<Rightarrow> bytes \<Rightarrow> bytes" where
  "ipv4_header totalLen csum src dst =
     [0x45, 0] @ PutUint16 (of_nat totalLen) @ PutUint16 0x1234 @ PutUint16 0x4000 @ [64, 17]
     @ PutUint16 csum @ copy_into (replicate 4 0) src @ copy_into (replicate 4 0) dst"

definition buildDNSQuery :: "bytes \<Rightarrow> bytes \<Rightarrow> string \<Rightarrow> bytes" where
  "buildDNSQuery src dst name =
     (let dns = buildDNSMessage name; udpLen = 8 + length dns; totalLen = 20 + udpLen;
          csum = ipChecksum (ipv4_header totalLen 0 src dst)
      in ipv4_header totalLen csum src dst
         @ PutUint16 40000 @ PutUint16 53 @ PutUint16 (of_nat udpLen) @ [0, 0] @ dns)"

section \<open>The reply\<close>

definition subslice :: "bytes \<Rightarrow> nat \<Rightarrow> nat \<Rightarrow> bytes option" where
  "subslice b i j = (if i \<le> j \<and> j \<le> length b then Some (take (j - i) (drop i b)) else None)"

definition is_reply :: "bytes \<Rightarrow> bytes \<Rightarrow> bool" where
  "is_reply dst p \<longleftrightarrow> 20 \<le> length p \<and> p ! 9 = 17 \<and> take 4 (drop 12 p) = dst"

function skip_question :: "bytes \<Rightarrow> nat \<Rightarrow> nat" where
  "skip_question dns off =
     (if off < length dns \<and> dns ! off \<noteq> 0 then skip_question dns (off + unat (dns ! off) + 1) else off)"
  by pat_completeness auto

termination by (relation "measure (\<lambda>(dns, off). length dns - off)") auto

declare skip_question.simps [simp del]

text \<open>The loop over the answers: those still announced, the offset and the addresses so far.\<close>

fun read_answers :: "bytes \<Rightarrow> nat \<Rightarrow> nat \<Rightarrow> bytes list \<Rightarrow> bytes list option" where
  "read_answers dns 0 off out = Some out"
| "read_answers dns (Suc n) off out =
     (if off + 12 \<le> length dns then
        Option.bind (subslice dns (off + 2) (off + 4)) (\<lambda>ty.
        Option.bind (subslice dns (off + 10) (off + 12)) (\<lambda>rl.
          let rdlen = unat (Uint16 rl); off = off + 12 in
          if off + rdlen > length dns then Some out
          else if Uint16 ty = 1 \<and> rdlen = 4 then
            Option.bind (subslice dns off (off + 4)) (\<lambda>a. read_answers dns n (off + rdlen) (out @ [a]))
          else read_answers dns n (off + rdlen) out))
      else Some out)"

definition parseDNSAnswers :: "bytes \<Rightarrow> bytes list option" where
  "parseDNSAnswers ip =
     (if length ip < 28 then Some []
      else let dns = drop 28 ip in
        if length dns < 12 then Some []
        else Option.bind (subslice dns 6 8) (\<lambda>anc.
          read_answers dns (unat (Uint16 anc)) (skip_question dns 12 + 5) []))"

section \<open>The probe\<close>

definition hostOf :: "string \<Rightarrow> string" where
  "hostOf cidr = takeWhile (\<lambda>c. c \<noteq> CHR ''/'') cidr"

datatype probe_error = ProbeConfig config_error | ProbeDial dial_error | ProbeAddr string

definition probe_dst :: bytes where "probe_dst = [1, 1, 1, 1]"

text \<open>Up to the query that is written to the tunnel; a key that does not decode is left zero, but a
  loaded configuration has none.\<close>

definition probe_query ::
  "prims \<Rightarrow> dial_args \<Rightarrow> config_error + client_cfg \<Rightarrow> probe_error + tunnel \<times> bytes" where
  "probe_query P da json =
     try_bind (lift_err ProbeConfig (LoadClient json)) (\<lambda>cfg.
     let psk = (case DecodePSK (c_PSK cfg) of Inl _ \<Rightarrow> [] | Inr k \<Rightarrow> k);
         pub = (case DecodeKey32 (c_ServerPub cfg) of Inl _ \<Rightarrow> replicate 32 0 | Inr k \<Rightarrow> k) in
     try_bind (lift_err ProbeDial (Dial P ((run_dial_config cfg psk pub)\<lparr>cc_Channels := 1\<rparr>)
                 (da_sid da) (da_env da) (da_arrival da))) (\<lambda>(t, assign).
     case Option.bind (ParseIP (hostOf (asg_Addr assign))) To4 of
       None \<Rightarrow> Inl (ProbeAddr (asg_Addr assign))
     | Some srcIP \<Rightarrow> Inr (t, buildDNSQuery srcIP probe_dst ''example.com'')))"

text \<open>The goroutine that waits: the first reply among the packets the tunnel delivers.\<close>

definition probe_await :: "bytes list \<Rightarrow> bytes option" where
  "probe_await ps = List.find (is_reply probe_dst) ps"

section \<open>The checksum verifies\<close>

fun word_sum :: "bytes \<Rightarrow> nat" where
  "word_sum (a # b # h) = unat a * 256 + unat b + word_sum h"
| "word_sum h = 0"

lemma unat_pair: "unat (push_bit 8 (ucast a) OR ucast b :: 32 word) = unat (a :: byte) * 256 + unat (b :: byte)"
proof -
  have or: "(push_bit 8 (ucast a) OR ucast b :: 32 word) = push_bit 8 (ucast a) + ucast b"
    by (rule disjunctive_add [symmetric]) (auto simp: bit_simps dest: bit_imp_le_length)
  have u: "unat (ucast x :: 32 word) = unat x" for x :: byte
  proof -
    have "unat x < 2 ^ 32" using unat_byte_less [of x] by (rule less_trans) simp
    then show ?thesis by (simp add: unsigned_ucast_eq take_bit_nat_eq_self)
  qed
  have l: "unat a * 256 + unat b < 4294967296" using unat_byte_less [of a] unat_byte_less [of b] by linarith
  then have "unat a * 256 < 4294967296" by linarith
  then have "unat (push_bit 8 (ucast a) :: 32 word) = unat a * 256"
    by (simp add: push_bit_eq_mult unat_word_ariths u)
  with l show ?thesis by (simp add: or unat_word_ariths u)
qed

lemma unat_sum_words: "word_sum h < 2 ^ 32 \<Longrightarrow> unat (sum_words h) = word_sum h"
  by (induction h rule: word_sum.induct) (simp_all add: unat_word_ariths unat_pair)

lemma fold_carry_mod:
  "unat (fold_carry s) < 65536 \<and> unat (fold_carry s) mod 65535 = unat s mod 65535
     \<and> (unat (fold_carry s) = 0 \<longleftrightarrow> unat s = 0)"
proof (induction s rule: fold_carry.induct)
  case (1 s)
  show ?case
  proof (cases "drop_bit 16 s \<noteq> 0")
    case True
    let ?s = "(s AND 0xFFFF) + drop_bit 16 s"
    have u: "unat ?s = unat s mod 65536 + unat s div 65536" by (rule unat_carry)
    have s: "unat s = 65535 * (unat s div 65536) + (unat s mod 65536 + unat s div 65536)" by simp
    then have "unat s mod 65535 = (65535 * (unat s div 65536) + (unat s mod 65536 + unat s div 65536)) mod 65535"
      by (rule arg_cong)
    then have "unat ?s mod 65535 = unat s mod 65535" unfolding u by (simp only: mod_mult_self4)
    moreover have "unat ?s = 0 \<longleftrightarrow> unat s = 0" unfolding u using s by linarith
    ultimately show ?thesis using 1 [OF True] True by (subst (1 2 3) fold_carry.simps) simp
  next
    case False
    then have "unat s < 65536" by (simp add: drop_bit16_zero)
    with False show ?thesis by (subst (1 2 3) fold_carry.simps) simp
  qed
qed

lemma unat_ipChecksum:
  assumes "word_sum h < 2 ^ 32"
  shows "unat (ipChecksum h) = 65535 - unat (fold_carry (sum_words h))"
proof -
  let ?x = "ucast (fold_carry (sum_words h)) :: 16 word"
  have "unat ?x = unat (fold_carry (sum_words h))"
    using fold_carry_mod [of "sum_words h"] by (simp add: unsigned_ucast_eq take_bit_nat_eq_self)
  moreover have "NOT ?x = - 1 - ?x" by (simp add: not_eq_complement)
  moreover have "unat (- 1 - ?x) = unat (- 1 :: 16 word) - unat ?x" by (rule unat_sub) simp
  moreover have "unat (- 1 :: 16 word) = 65535" by (simp add: unsigned_minus_1_eq_mask mask_eq_exp_minus_1)
  ultimately show ?thesis by (simp add: ipChecksum_def)
qed

text \<open>Adding the complement of the folded sum to a sum makes it fold to all ones.\<close>

lemma checksum_of_completed:
  assumes "0 < word_sum h0" and "word_sum h0 < 2 ^ 31" and "word_sum h1 = word_sum h0 + unat (ipChecksum h0)"
  shows "ipChecksum h1 = 0"
proof -
  let ?f = "unat (fold_carry (sum_words h0))"
  have u: "unat (sum_words h0) = word_sum h0" using assms(2) by (intro unat_sum_words) simp
  have f: "?f < 65536" "?f mod 65535 = word_sum h0 mod 65535" "0 < ?f"
    using fold_carry_mod [of "sum_words h0"] assms(1) u by auto
  have c: "unat (ipChecksum h0) = 65535 - ?f" using assms(2) by (intro unat_ipChecksum) simp
  have "word_sum h1 mod 65535 = (?f + (65535 - ?f)) mod 65535"
    unfolding assms(3) c by (metis f(2) mod_add_left_eq)
  also have "\<dots> = 0" using f(1) by simp
  finally have m: "word_sum h1 mod 65535 = 0" .
  have b: "word_sum h1 < 2 ^ 32" "0 < word_sum h1" using assms c by simp_all
  let ?g = "unat (fold_carry (sum_words h1))"
  have "?g < 65536" "?g mod 65535 = 0" "0 < ?g"
    using fold_carry_mod [of "sum_words h1"] unat_sum_words [OF b(1)] b(2) m by auto
  moreover from this(2) obtain k where "?g = 65535 * k" by (auto simp: mod_eq_0_iff_dvd elim!: dvdE)
  ultimately have "k < 2" "0 < k" "?g = 65535 * k" by auto
  then have "?g = 65535" by simp
  with unat_ipChecksum [OF b(1)] show ?thesis by (simp add: unat_eq_0 [symmetric])
qed

lemma word_sum_append: "even (length a) \<Longrightarrow> word_sum (a @ b) = word_sum a + word_sum b"
  by (induction a rule: word_sum.induct) auto

lemma word_sum_PutUint16: "word_sum (PutUint16 v) = unat v"
proof -
  have "unat (ucast (drop_bit 8 v) :: byte) = unat v div 256"
  proof -
    have "unat v < 2 ^ LENGTH(16)" by (rule unsigned_less)
    then show ?thesis
      by (simp add: unsigned_ucast_eq drop_bit_eq_div unat_div_distrib take_bit_eq_mod less_mult_imp_div_less)
  qed
  moreover have "unat (ucast v :: byte) = unat v mod 256"
    by (simp add: unsigned_ucast_eq take_bit_eq_mod)
  ultimately show ?thesis by (simp add: PutUint16_def)
qed

lemma word_sum_bound: "word_sum h \<le> 65535 * length h"
proof (induction h rule: word_sum.induct)
  case (1 a b h)
  have "unat a * 256 + unat b \<le> 65535" using unat_byte_less [of a] unat_byte_less [of b] by linarith
  with 1 show ?case by simp
qed auto

lemma word_sum_header: "word_sum (ipv4_header n v src dst) = word_sum (ipv4_header n 0 src dst) + unat v"
  by (simp add: ipv4_header_def word_sum_append word_sum_PutUint16)

lemma length_header [simp]: "length (ipv4_header n v src dst) = 20"
  by (simp add: ipv4_header_def)

lemma header_verifies: "ipChecksum (ipv4_header n (ipChecksum (ipv4_header n 0 src dst)) src dst) = 0"
proof (rule checksum_of_completed [OF _ _ word_sum_header])
  show "0 < word_sum (ipv4_header n 0 src dst)" by (simp add: ipv4_header_def PutUint16_def)
  show "word_sum (ipv4_header n 0 src dst) < 2 ^ 31"
    using word_sum_bound [of "ipv4_header n 0 src dst"] by simp
qed

section \<open>The answers are read back\<close>

text \<open>The labels of a name, as the loop over it sees them.\<close>

fun labels :: "string \<Rightarrow> string \<Rightarrow> string list" where
  "labels label [] = [label]"
| "labels label (c # name) = (if c = CHR ''.'' then label # labels [] name else labels (label @ [c]) name)"

definition label_bytes :: "string \<Rightarrow> bytes" where
  "label_bytes l = of_nat (length l) # bytes_of l"

lemma qname_labels: "qname label name = concat (map label_bytes (labels label name))"
  by (induction label name rule: qname.induct) (simp_all add: label_bytes_def)

definition good_labels :: "string list \<Rightarrow> bool" where
  "good_labels ls \<longleftrightarrow> list_all (\<lambda>l. 0 < length l \<and> length l < 256) ls"

lemma skip_question_labels:
  "good_labels ls \<Longrightarrow> skip_question (pre @ concat (map label_bytes ls) @ 0 # rest) (length pre)
     = length pre + length (concat (map label_bytes ls))"
proof (induction ls arbitrary: pre)
  case Nil
  then show ?case by (subst skip_question.simps) simp
next
  case (Cons l ls)
  let ?dns = "pre @ concat (map label_bytes (l # ls)) @ 0 # rest"
  from Cons.prems have l: "0 < length l" "length l < 256" "good_labels ls" by (simp_all add: good_labels_def)
  from l(1,2) have u: "unat (of_nat (length l) :: byte) = length l" by (simp add: unat_of_nat)
  have at: "?dns ! length pre = of_nat (length l)" "length pre < length ?dns"
    by (simp_all add: label_bytes_def nth_append)
  have "(of_nat (length l) :: byte) \<noteq> 0" using u l(1) by (metis neq0_conv unat_0)
  then have step: "skip_question ?dns (length pre) = skip_question ?dns (length pre + length l + 1)"
    by (subst skip_question.simps) (simp only: at u if_True simp_thms)
  have next_off: "length pre + length l + 1 = length (pre @ label_bytes l)" by (simp add: label_bytes_def)
  have "?dns = (pre @ label_bytes l) @ concat (map label_bytes ls) @ 0 # rest" by simp
  then show ?case unfolding step next_off
    using Cons.IH [OF l(3), of "pre @ label_bytes l"] by simp
qed

text \<open>One answer: a pointer to the name, the type, class and time to live, the data.\<close>

type_synonym answer = "bytes \<times> 16 word \<times> bytes \<times> bytes"

fun answer_ok :: "answer \<Rightarrow> bool" where
  "answer_ok (ptr, ty, mid, rd) \<longleftrightarrow> length ptr = 2 \<and> length mid = 6 \<and> length rd < 65536"

fun answer_bytes :: "answer \<Rightarrow> bytes" where
  "answer_bytes (ptr, ty, mid, rd) = ptr @ PutUint16 ty @ mid @ PutUint16 (of_nat (length rd)) @ rd"

definition addresses_in :: "answer list \<Rightarrow> bytes list" where
  "addresses_in ans = map (\<lambda>(ptr, ty, mid, rd). rd) (filter (\<lambda>(ptr, ty, mid, rd). ty = 1 \<and> length rd = 4) ans)"

lemma slice_middle: "i = length a \<Longrightarrow> j = length a + length b \<Longrightarrow> subslice (a @ b @ c) i j = Some b"
  by (simp add: subslice_def)

lemma read_answers_step:
  assumes "off + 12 \<le> length dns"
    and "subslice dns (off + 2) (off + 4) = Some t" and "subslice dns (off + 10) (off + 12) = Some r"
    and "unat (Uint16 r) = rdlen" and "off + 12 + rdlen \<le> length dns"
    and "rdlen = 4 \<Longrightarrow> subslice dns (off + 12) (off + 16) = Some a"
  shows "read_answers dns (Suc n) off out
     = read_answers dns n (off + 12 + rdlen) (if Uint16 t = 1 \<and> rdlen = 4 then out @ [a] else out)"
  using assms by (simp add: Let_def add.assoc del: add_2_eq_Suc')

lemma read_answers_bytes:
  "list_all answer_ok ans \<Longrightarrow>
     read_answers (pre @ concat (map answer_bytes ans) @ rest) (length ans) (length pre) out
       = Some (out @ addresses_in ans)"
proof (induction ans arbitrary: pre out)
  case Nil
  then show ?case by (simp add: addresses_in_def)
next
  case (Cons x ans)
  obtain ptr ty mid rd where x: "x = (ptr, ty, mid, rd)" by (cases x)
  let ?more = "concat (map answer_bytes ans) @ rest" and ?len = "PutUint16 (of_nat (length rd))"
  define dns where "dns = pre @ concat (map answer_bytes (x # ans)) @ rest"
  from Cons.prems x have ok: "length ptr = 2" "length mid = 6" "length rd < 65536" "list_all answer_ok ans" by simp_all
  have u: "unat (Uint16 ?len) = length rd" using ok(3) by (simp add: Uint16_of_nat)
  have t: "subslice dns (length pre + 2) (length pre + 4) = Some (PutUint16 ty)"
    using slice_middle [of "length pre + 2" "pre @ ptr" "length pre + 4" "PutUint16 ty" "mid @ ?len @ rd @ ?more"] ok
    by (simp add: dns_def x)
  have r: "subslice dns (length pre + 10) (length pre + 12) = Some ?len"
    using slice_middle [of "length pre + 10" "pre @ ptr @ PutUint16 ty @ mid" "length pre + 12" ?len "rd @ ?more"] ok
    by (simp add: dns_def x)
  have a: "subslice dns (length pre + 12) (length pre + 16) = Some rd" if "length rd = 4"
    using slice_middle [of "length pre + 12" "pre @ ptr @ PutUint16 ty @ mid @ ?len" "length pre + 16" rd ?more] ok that
    by (simp add: dns_def x)
  have len: "length pre + 12 \<le> length dns" "length pre + 12 + length rd \<le> length dns"
    using ok by (simp_all add: dns_def x)
  have n: "read_answers dns (length ans) (length pre + 12 + length rd) out' = Some (out' @ addresses_in ans)" for out'
    using Cons.IH [OF ok(4), of "pre @ answer_bytes x" out'] ok by (simp add: dns_def x add.commute add.left_commute)
  have "read_answers dns (Suc (length ans)) (length pre) out
      = Some ((if ty = 1 \<and> length rd = 4 then out @ [rd] else out) @ addresses_in ans)"
    using read_answers_step [OF len(1) t r u len(2) a, of "length ans" out] n by simp
  also have "(if ty = 1 \<and> length rd = 4 then out @ [rd] else out) @ addresses_in ans = out @ addresses_in (x # ans)"
    by (simp add: addresses_in_def x)
  finally show ?case unfolding dns_def by (simp only: list.size add_0_right add_Suc_right One_nat_def)
qed

lemma read_answers_total: "\<exists>r. read_answers dns n off out = Some r"
  by (induction n arbitrary: off out) (auto simp: subslice_def Let_def)

text \<open>A reply as a resolver sends it: 28 bytes of IP and UDP, the DNS header with the number of
  answers, the question, the answers and whatever follows.\<close>

lemma parseDNSAnswers_total: "\<exists>r. parseDNSAnswers p = Some r"
  by (auto simp: parseDNSAnswers_def Let_def subslice_def read_answers_total)

definition reply_bytes :: "bytes \<Rightarrow> bytes \<Rightarrow> bytes \<Rightarrow> string \<Rightarrow> bytes \<Rightarrow> answer list \<Rightarrow> bytes \<Rightarrow> bytes" where
  "reply_bytes ipudp h1 h2 name q ans rest =
     ipudp @ h1 @ PutUint16 (of_nat (length ans)) @ h2 @ qname [] name @ [0] @ q
     @ concat (map answer_bytes ans) @ rest"

text \<open>C40. The probe reads replies right and never out of bounds: on every packet, whatever it holds,
  parseDNSAnswers returns; and from a reply to a query for a name with proper labels, whose
  answers point to the name with two bytes, it reads exactly the addresses of its A records, in
  order, skipping records of other types and lengths.\<close>

theorem answers_read_back:
  assumes "length ipudp = 28" and "length h1 = 6" and "length h2 = 4" and "length q = 4"
    and "good_labels (labels [] name)" and "list_all answer_ok ans" and "length ans < 65536"
  shows "parseDNSAnswers (reply_bytes ipudp h1 h2 name q ans rest) = Some (addresses_in ans)
    \<and> (\<forall>p. parseDNSAnswers p \<noteq> None)"
proof
  let ?hdr = "h1 @ PutUint16 (of_nat (length ans)) @ h2" and ?ls = "concat (map label_bytes (labels [] name))"
  let ?dns = "?hdr @ ?ls @ 0 # q @ concat (map answer_bytes ans) @ rest"
  have dns: "drop 28 (reply_bytes ipudp h1 h2 name q ans rest) = ?dns" "28 \<le> length (reply_bytes ipudp h1 h2 name q ans rest)"
    using assms(1) by (simp_all add: reply_bytes_def qname_labels)
  have h: "length ?hdr = 12" using assms(2,3) by simp
  have anc: "subslice ?dns 6 8 = Some (PutUint16 (of_nat (length ans)))"
    using slice_middle [of 6 h1 8] assms(2) by simp
  have "skip_question ?dns 12 = 12 + length ?ls"
    using skip_question_labels [OF assms(5), of ?hdr] h by simp
  moreover have "read_answers ?dns (length ans) (12 + length ?ls + 5) [] = Some (addresses_in ans)"
    using read_answers_bytes [OF assms(6), of "?hdr @ ?ls @ 0 # q" rest "[]"] assms(2-4) by (simp add: add.commute add.left_commute)
  ultimately show "parseDNSAnswers (reply_bytes ipudp h1 h2 name q ans rest) = Some (addresses_in ans)"
    using dns anc h Uint16_of_nat [OF assms(7)] by (simp add: parseDNSAnswers_def Let_def)
  show "\<forall>p. parseDNSAnswers p \<noteq> None" using parseDNSAnswers_total by auto
qed

theorem answers_read_back_witness:
  "parseDNSAnswers (reply_bytes (replicate 28 0) (replicate 6 0) (replicate 4 0) ''example.com'' [0, 1, 0, 1]
     [([0xC0, 12], 5, replicate 6 0, [1, 97, 0]), ([0xC0, 12], 1, replicate 6 0, [93, 184, 216, 34])] [])
   = Some [[93, 184, 216, 34]]"
proof -
  let ?ans = "[([0xC0, 12], 5, replicate 6 0, [1, 97, 0]), ([0xC0, 12], 1, replicate 6 0, [93, 184, 216, 34])] :: answer list"
  have "good_labels (labels [] ''example.com'')" by (simp add: good_labels_def)
  moreover have "list_all answer_ok ?ans" "length ?ans < 65536" by simp_all
  ultimately have "parseDNSAnswers (reply_bytes (replicate 28 0) (replicate 6 0) (replicate 4 0) ''example.com'' [0, 1, 0, 1] ?ans [])
      = Some (addresses_in ?ans)"
    using answers_read_back [of "replicate 28 0" "replicate 6 0" "replicate 4 0" "[0, 1, 0, 1]" "''example.com''" ?ans] by simp
  then show ?thesis by (simp add: addresses_in_def)
qed

text \<open>C39. The query the probe sends is a proper packet: its header verifies (the checksum over it is zero),
  its length fields are its lengths, source and destination are the ones given, so that the
  server routes the reply to the probe's own address, and behind the headers stands the question.\<close>

theorem query_is_proper:
  assumes "length src = 4" and "length dst = 4" and "p = buildDNSQuery src dst name" and "length p < 65536"
  shows "ipChecksum (take 20 p) = 0 \<and> ipv4Dst p = Some (Uint32 dst) \<and> take 4 (drop 12 p) = src \<and> p ! 9 = 17
    \<and> unat (Uint16 (drop 2 p)) = length p \<and> unat (Uint16 (drop 24 p)) = length p - 20
    \<and> drop 28 p = buildDNSMessage name"
proof -
  let ?n = "length p"
  define cs where "cs = ipChecksum (ipv4_header ?n 0 src dst)"
  have n: "?n = 20 + (8 + length (buildDNSMessage name))"
    by (simp add: assms(3) buildDNSQuery_def Let_def)
  have p: "p = ipv4_header ?n cs src dst @ PutUint16 40000 @ PutUint16 53 @ PutUint16 (of_nat (?n - 20)) @ [0, 0] @ buildDNSMessage name"
    unfolding cs_def n by (simp add: assms(3) buildDNSQuery_def Let_def)
  obtain a b c d where src: "src = [a, b, c, d]" using assms(1) by (auto simp: length_Suc_conv numeral_eq_Suc)
  obtain e f g h where dst: "dst = [e, f, g, h]" using assms(2) by (auto simp: length_Suc_conv numeral_eq_Suc)
  have u: "unat (of_nat ?n :: 16 word) = ?n" "unat (of_nat (?n - 20) :: 16 word) = ?n - 20"
    using assms(4) by (simp_all add: Uint16_of_nat)
  have "\<exists>x y. PutUint16 v = [x, y]" for v by (simp add: PutUint16_def)
  then obtain n1 n2 c1 c2 l1 l2 p1 p2 q1 q2 where put: "PutUint16 (of_nat ?n) = [n1, n2]" "PutUint16 cs = [c1, c2]"
    "PutUint16 (of_nat (?n - 20)) = [l1, l2]" "PutUint16 40000 = [p1, p2]" "PutUint16 53 = [q1, q2]" by metis
  have pl: "p = [0x45, 0, n1, n2, 0x12, 0x34, 0x40, 0, 64, 17, c1, c2, a, b, c, d, e, f, g, h,
      p1, p2, q1, q2, l1, l2, 0, 0] @ buildDNSMessage name"
  proof -
    have lit: "PutUint16 0x1234 = [0x12, 0x34]" "PutUint16 0x4000 = [0x40, 0]" by (simp_all add: PutUint16_def)
    have four: "copy_into (replicate 4 0) src = src" "copy_into (replicate 4 0) dst = dst" using assms(1,2) by simp_all
    have hdr: "ipv4_header ?n cs src dst = [0x45, 0, n1, n2, 0x12, 0x34, 0x40, 0, 64, 17, c1, c2] @ src @ dst"
      unfolding ipv4_header_def put lit four by simp
    show ?thesis by (subst p, unfold hdr put) (simp add: src dst)
  qed
  have "take 20 p = ipv4_header ?n cs src dst" by (subst p) simp
  then have "ipChecksum (take 20 p) = 0" using header_verifies by (simp add: cs_def)
  moreover have "Uint16 (drop 2 p) = of_nat ?n" "Uint16 (drop 24 p) = of_nat (?n - 20)"
    using Uint16_PutUint16 [of "of_nat ?n"] Uint16_PutUint16 [of "of_nat (?n - 20)"]
    unfolding put by (subst pl, simp add: Uint16_def)+
  moreover have "ipv4Dst p = Some (Uint32 dst)" by (subst pl) (simp add: ipv4Dst_def dst drop_bit_eq_div)
  moreover have "take 4 (drop 12 p) = src" "p ! 9 = 17" "drop 28 p = buildDNSMessage name"
    by (subst pl, simp add: src)+
  ultimately show ?thesis using u by simp
qed

theorem query_is_proper_witness:
  "ipChecksum (take 20 (buildDNSQuery [10, 8, 0, 2] probe_dst ''example.com'')) = 0
   \<and> ipv4Dst (buildDNSQuery [10, 8, 0, 2] probe_dst ''example.com'') = Some (Uint32 probe_dst)"
proof -
  have l: "length (buildDNSQuery [10, 8, 0, 2] probe_dst ''example.com'') < 65536" "length probe_dst = 4"
    by (simp_all add: buildDNSQuery_def buildDNSMessage_def probe_dst_def Let_def)
  have "length [10, 8, 0, 2 :: byte] = 4" by simp
  from query_is_proper [OF this l(2) refl l(1)] show ?thesis by blast
qed

text \<open>A loaded client configuration that dials an address like the server's assignments leads to such
  a query, with the assigned address as its source.\<close>

lemma probe_query_source:
  assumes "probe_query P da json = Inr (t, p)"
  shows "\<exists>src. length src = 4 \<and> p = buildDNSQuery src probe_dst ''example.com''"
  using assms by (auto simp: probe_query_def try_bind_Inr_iff Let_def bind_eq_Some_conv dest: To4_length
      split: option.splits)

end
