(* ===== verification/Go_Flag.thy ===== *)
theory Go_Flag
  imports Go_Text "HOL-Library.AList"
begin

text \<open>
  What krotctl uses of Go's package flag: a set of typed flags with their values, and Parse,
  which reads \<open>-name value\<close>, \<open>-name=value\<close> and, for booleans, \<open>-name\<close> until the first argument that
  is no flag. With ExitOnError an error ends the process. Numbers are read as strconv's
  ParseInt with base 0 reads them: prefixes for the base, underscores between digits.
\<close>

section \<open>Values\<close>

definition ParseBool :: "string \<Rightarrow> bool option" where
  "ParseBool s =
     (if s \<in> {''1'', ''t'', ''T'', ''TRUE'', ''true'', ''True''} then Some True
      else if s \<in> {''0'', ''f'', ''F'', ''FALSE'', ''false'', ''False''} then Some False
      else None)"

definition lower :: "char \<Rightarrow> nat" where
  "lower c = (let n = (of_char c :: nat) in if 65 \<le> n \<and> n \<le> 90 then n + 32 else n)"

definition digit0 :: "char \<Rightarrow> nat option" where
  "digit0 c =
     (let n = lower c in
      if 48 \<le> n \<and> n \<le> 57 then Some (n - 48)
      else if 97 \<le> n \<and> n \<le> 122 then Some (n - 87) else None)"

fun digits_in :: "nat \<Rightarrow> nat \<Rightarrow> string \<Rightarrow> nat option" where
  "digits_in base acc [] = Some acc"
| "digits_in base acc (c # cs) =
     (if c = CHR ''_'' then digits_in base acc cs
      else case digit0 c of
             None \<Rightarrow> None
           | Some d \<Rightarrow> if d < base then digits_in base (base * acc + d) cs else None)"

text \<open>The base and the digits behind its prefix.\<close>

definition base_prefix :: "string \<Rightarrow> nat \<times> string" where
  "base_prefix s =
     (if s \<noteq> [] \<and> hd s = CHR ''0'' then
        (if 3 \<le> length s \<and> lower (s ! 1) = 98 then (2, drop 2 s)
         else if 3 \<le> length s \<and> lower (s ! 1) = 111 then (8, drop 2 s)
         else if 3 \<le> length s \<and> lower (s ! 1) = 120 then (16, drop 2 s)
         else (8, drop 1 s))
      else (10, s))"

text \<open>
  Underscores are allowed only between digits and after a prefix. The state is the class of
  the last character: \<open>Start\<close>, \<open>Digit\<close>, \<open>Under\<close> or \<open>Other\<close>.
\<close>

datatype last_class = Start | Digit | Under | Other

fun underscores :: "bool \<Rightarrow> last_class \<Rightarrow> string \<Rightarrow> bool" where
  "underscores hex l [] = (l \<noteq> Under)"
| "underscores hex l (c # cs) =
     (if 48 \<le> (of_char c :: nat) \<and> (of_char c :: nat) \<le> 57 \<or> hex \<and> 97 \<le> lower c \<and> lower c \<le> 102
      then underscores hex Digit cs
      else if c = CHR ''_'' then (if l \<noteq> Digit then False else underscores hex Under cs)
      else if l = Under then False
      else underscores hex Other cs)"

definition underscoreOK :: "string \<Rightarrow> bool" where
  "underscoreOK s =
     (if 2 \<le> length s \<and> hd s = CHR ''0'' \<and> lower (s ! 1) \<in> {98, 111, 120}
      then underscores (lower (s ! 1) = 120) Digit (drop 2 s)
      else underscores False Start s)"

definition parse_uint0 :: "string \<Rightarrow> nat option" where
  "parse_uint0 s =
     (if s = [] then None
      else let (base, ds) = base_prefix s in
        case digits_in base 0 ds of
          None \<Rightarrow> None
        | Some n \<Rightarrow> if CHR ''_'' \<in> set ds \<and> \<not> underscoreOK s then None else Some n)"

definition ParseInt0 :: "string \<Rightarrow> int option" where
  "ParseInt0 s =
     (case s of
        [] \<Rightarrow> None
      | c # cs \<Rightarrow>
          if c = CHR ''-'' then
            (case parse_uint0 cs of None \<Rightarrow> None | Some n \<Rightarrow> signed_range (- int n))
          else
            (case parse_uint0 (if c = CHR ''+'' then cs else s) of
               None \<Rightarrow> None | Some n \<Rightarrow> signed_range (int n)))"

section \<open>Flags\<close>

datatype flag_value = FStr string | FInt int | FBool bool

type_synonym flags = "(string \<times> flag_value) list"

datatype flag_error = BadSyntax | HelpRequested | NotDefined string | NeedsArgument string | BadValue string

fun flag_set :: "flag_value \<Rightarrow> string \<Rightarrow> flag_value option" where
  "flag_set (FStr _) s = Some (FStr s)"
| "flag_set (FInt _) s = map_option FInt (ParseInt0 s)"
| "flag_set (FBool _) s = map_option FBool (ParseBool s)"

definition set_flag :: "flags \<Rightarrow> string \<Rightarrow> flag_value \<Rightarrow> string \<Rightarrow> flag_error + flags" where
  "set_flag fs nm old s =
     (case flag_set old s of None \<Rightarrow> Inl (BadValue nm) | Some v \<Rightarrow> Inr (AList.update nm v fs))"

fun is_bool :: "flag_value \<Rightarrow> bool" where
  "is_bool (FBool _) = True"
| "is_bool _ = False"

text \<open>The name in an argument that starts with a minus.\<close>

definition flag_name :: "string \<Rightarrow> string" where
  "flag_name s = (if s ! 1 = CHR ''-'' then drop 2 s else drop 1 s)"

fun flag_parse :: "flags \<Rightarrow> string list \<Rightarrow> flag_error + flags" where
  "flag_parse fs [] = Inr fs"
| "flag_parse fs (s # args) =
     (if length s < 2 \<or> hd s \<noteq> CHR ''-'' \<or> s = ''--'' then Inr fs
      else if flag_name s = [] \<or> hd (flag_name s) = CHR ''-'' \<or> hd (flag_name s) = CHR ''='' then Inl BadSyntax
      else
        let (nm, val, has) = cut CHR ''='' (flag_name s) in
        case map_of fs nm of
          None \<Rightarrow> Inl (if nm = ''help'' \<or> nm = ''h'' then HelpRequested else NotDefined nm)
        | Some old \<Rightarrow>
            if has then
              (case set_flag fs nm old val of Inl e \<Rightarrow> Inl e | Inr fs' \<Rightarrow> flag_parse fs' args)
            else if is_bool old then flag_parse (AList.update nm (FBool True) fs) args
            else
              (case args of
                 [] \<Rightarrow> Inl (NeedsArgument nm)
               | v # rest \<Rightarrow>
                   (case set_flag fs nm old v of Inl e \<Rightarrow> Inl e | Inr fs' \<Rightarrow> flag_parse fs' rest)))"

text \<open>The value of a flag after Parse, and the three typed reads.\<close>

definition flag_str :: "flags \<Rightarrow> string \<Rightarrow> string" where
  "flag_str fs nm = (case map_of fs nm of Some (FStr s) \<Rightarrow> s | _ \<Rightarrow> [])"

definition flag_int :: "flags \<Rightarrow> string \<Rightarrow> int" where
  "flag_int fs nm = (case map_of fs nm of Some (FInt i) \<Rightarrow> i | _ \<Rightarrow> 0)"

definition flag_bool :: "flags \<Rightarrow> string \<Rightarrow> bool" where
  "flag_bool fs nm = (case map_of fs nm of Some (FBool b) \<Rightarrow> b | _ \<Rightarrow> False)"

section \<open>Reading well-formed arguments\<close>

definition plain_name :: "string \<Rightarrow> bool" where
  "plain_name nm \<longleftrightarrow> nm \<noteq> [] \<and> hd nm \<noteq> CHR ''-'' \<and> CHR ''='' \<notin> set nm"

lemma flag_name_minus [simp]: "hd nm \<noteq> CHR ''-'' \<Longrightarrow> nm \<noteq> [] \<Longrightarrow> flag_name (CHR ''-'' # nm) = nm"
  by (cases nm) (simp_all add: flag_name_def)

lemma minus_not_end: "plain_name nm \<Longrightarrow> CHR ''-'' # nm \<noteq> ''--'' \<and> \<not> length (CHR ''-'' # nm) < 2"
  by (cases nm) (auto simp: plain_name_def)

lemma hd_not_eq: "plain_name nm \<Longrightarrow> hd nm \<noteq> CHR ''=''"
  by (cases nm) (auto simp: plain_name_def)

lemma flag_parse_string:
  assumes "plain_name nm" and "map_of fs nm = Some (FStr d)"
  shows "flag_parse fs ((CHR ''-'' # nm) # v # args) = flag_parse (AList.update nm (FStr v) fs) args"
  using assms minus_not_end [OF assms(1)] hd_not_eq [OF assms(1)]
  by (simp add: plain_name_def set_flag_def)

lemma flag_parse_int:
  assumes "plain_name nm" and "map_of fs nm = Some (FInt d)" and "ParseInt0 v = Some i"
  shows "flag_parse fs ((CHR ''-'' # nm) # v # args) = flag_parse (AList.update nm (FInt i) fs) args"
  using assms minus_not_end [OF assms(1)] hd_not_eq [OF assms(1)]
  by (simp add: plain_name_def set_flag_def)

lemma flag_parse_bool:
  assumes "plain_name nm" and "map_of fs nm = Some (FBool d)"
  shows "flag_parse fs ((CHR ''-'' # nm) # args) = flag_parse (AList.update nm (FBool True) fs) args"
  using assms minus_not_end [OF assms(1)] hd_not_eq [OF assms(1)]
  by (simp add: plain_name_def)

lemma flag_parse_bool_value:
  assumes "plain_name nm" and "map_of fs nm = Some (FBool d)" and "ParseBool v = Some b"
  shows "flag_parse fs ((CHR ''-'' # nm @ ''='' @ v) # args) = flag_parse (AList.update nm (FBool b) fs) args"
proof -
  have n: "hd (nm @ ''='' @ v) \<noteq> CHR ''-''" "nm @ ''='' @ v \<noteq> []" "hd (nm @ ''='' @ v) \<noteq> CHR ''=''"
    "nm \<noteq> []" "CHR ''='' \<notin> set nm"
    using assms(1) hd_not_eq [OF assms(1)] by (auto simp: plain_name_def)
  have "CHR ''-'' # nm @ ''='' @ v \<noteq> ''--''" using n(1) by (cases "nm @ ''='' @ v") auto
  moreover have "\<not> length (CHR ''-'' # nm @ ''='' @ v) < 2" by simp
  moreover have "cut CHR ''='' (nm @ ''='' @ v) = (nm, v, True)" using n(5) by simp
  ultimately show ?thesis
    using assms(2,3) n by (simp add: flag_name_minus [OF n(1,2)] set_flag_def del: append_Cons append.simps)
qed

declare flag_parse.simps(2) [simp del]

section \<open>Reading flags that were set\<close>

fun kind :: "flag_value \<Rightarrow> nat" where
  "kind (FStr _) = 0"
| "kind (FInt _) = 1"
| "kind (FBool _) = 2"

definition flag_kind :: "flags \<Rightarrow> string \<Rightarrow> nat option" where
  "flag_kind fs nm = map_option kind (map_of fs nm)"

lemma flag_kind_update [simp]:
  "flag_kind (AList.update nm v fs) k = (if k = nm then Some (kind v) else flag_kind fs k)"
  by (simp add: flag_kind_def AList.update_conv')

lemma flag_update [simp]:
  "flag_str (AList.update nm (FStr s) fs) k = (if k = nm then s else flag_str fs k)"
  "k \<noteq> nm \<Longrightarrow> flag_str (AList.update nm v fs) k = flag_str fs k"
  "flag_int (AList.update nm (FInt i) fs) k = (if k = nm then i else flag_int fs k)"
  "k \<noteq> nm \<Longrightarrow> flag_int (AList.update nm v fs) k = flag_int fs k"
  "flag_bool (AList.update nm (FBool b) fs) k = (if k = nm then b else flag_bool fs k)"
  "k \<noteq> nm \<Longrightarrow> flag_bool (AList.update nm v fs) k = flag_bool fs k"
  by (simp_all add: flag_str_def flag_int_def flag_bool_def AList.update_conv')

lemma flag_kind_cases:
  "flag_kind fs nm = Some 0 \<Longrightarrow> \<exists>d. map_of fs nm = Some (FStr d)"
  "flag_kind fs nm = Some 1 \<Longrightarrow> \<exists>d. map_of fs nm = Some (FInt d)"
  "flag_kind fs nm = Some 2 \<Longrightarrow> \<exists>d. map_of fs nm = Some (FBool d)"
  by (auto simp: flag_kind_def elim!: kind.elims)

text \<open>Parse reads one flag and its value: rewrite rules for arguments that are written out.\<close>

lemma parse_str_flag:
  "plain_name nm \<Longrightarrow> flag_kind fs nm = Some 0 \<Longrightarrow>
     flag_parse fs ((CHR ''-'' # nm) # v # args) = flag_parse (AList.update nm (FStr v) fs) args"
  using flag_parse_string flag_kind_cases(1) by metis

lemma parse_int_flag:
  assumes "plain_name nm" and "flag_kind fs nm = Some 1"
  shows "flag_parse fs ((CHR ''-'' # nm) # v # args)
       = (case ParseInt0 v of None \<Rightarrow> Inl (BadValue nm) | Some i \<Rightarrow> flag_parse (AList.update nm (FInt i) fs) args)"
proof (cases "ParseInt0 v")
  case None
  obtain d where "map_of fs nm = Some (FInt d)" using flag_kind_cases(2) [OF assms(2)] by blast
  with assms(1) None minus_not_end [OF assms(1)] hd_not_eq [OF assms(1)] show ?thesis
    by (simp add: plain_name_def set_flag_def flag_parse.simps(2))
next
  case (Some i)
  with flag_parse_int [OF assms(1)] flag_kind_cases(2) [OF assms(2)] show ?thesis by auto
qed

lemma parse_bool_flag:
  "plain_name nm \<Longrightarrow> flag_kind fs nm = Some 2 \<Longrightarrow>
     flag_parse fs ((CHR ''-'' # nm) # args) = flag_parse (AList.update nm (FBool True) fs) args"
  using flag_parse_bool flag_kind_cases(3) by metis

lemmas flag_reads = parse_str_flag parse_int_flag parse_bool_flag plain_name_def

end
