(* ===== verification/Go_Path.thy ===== *)
theory Go_Path
  imports Go_Net
begin

text \<open>
  What krotctl uses of path/filepath on Unix, and of the prefix and suffix functions of strings:
  Clean with its stack of path elements, Join, Dir and Base.
\<close>

section \<open>Prefixes and suffixes\<close>

definition TrimPrefix :: "string \<Rightarrow> string \<Rightarrow> string" where
  "TrimPrefix s p = (if take (length p) s = p then drop (length p) s else s)"

definition TrimSuffix :: "string \<Rightarrow> string \<Rightarrow> string" where
  "TrimSuffix s p =
     (if length p \<le> length s \<and> drop (length s - length p) s = p then take (length s - length p) s else s)"

lemma TrimPrefix_append [simp]: "TrimPrefix (p @ s) p = s"
  by (simp add: TrimPrefix_def)

lemma TrimSuffix_append [simp]: "TrimSuffix (s @ p) p = s"
  by (simp add: TrimSuffix_def)

section \<open>Paths\<close>

fun elements :: "string \<Rightarrow> string list" where
  "elements [] = [[]]"
| "elements (c # s) =
     (if c = CHR ''/'' then [] # elements s
      else case elements s of [] \<Rightarrow> [[c]] | e # es \<Rightarrow> (c # e) # es)"

fun join_slash :: "string list \<Rightarrow> string" where
  "join_slash [] = []"
| "join_slash [e] = e"
| "join_slash (e # es) = e @ CHR ''/'' # join_slash es"

text \<open>The elements so far, last one first.\<close>

definition clean_step :: "bool \<Rightarrow> string \<Rightarrow> string list \<Rightarrow> string list" where
  "clean_step rooted e st =
     (if e = [] \<or> e = ''.'' then st
      else if e = ''..'' then
        (if st \<noteq> [] \<and> hd st \<noteq> ''..'' then tl st else if rooted then st else ''..'' # st)
      else e # st)"

definition Clean :: "string \<Rightarrow> string" where
  "Clean p =
     (let rooted = (p \<noteq> [] \<and> hd p = CHR ''/'');
          body = join_slash (rev (fold (clean_step rooted) (elements p) []))
      in if rooted then CHR ''/'' # body else if body = [] then ''.'' else body)"

definition path_Join :: "string list \<Rightarrow> string" where
  "path_Join es = (case dropWhile (\<lambda>e. e = []) es of [] \<Rightarrow> [] | es' \<Rightarrow> Clean (join_slash es'))"

definition path_Dir :: "string \<Rightarrow> string" where
  "path_Dir p = Clean (case cut_last CHR ''/'' p of None \<Rightarrow> [] | Some (d, _) \<Rightarrow> d @ ''/'')"

definition path_Base :: "string \<Rightarrow> string" where
  "path_Base p =
     (if p = [] then ''.''
      else
        let q = rev (dropWhile (\<lambda>c. c = CHR ''/'') (rev p));
            b = (case cut_last CHR ''/'' q of None \<Rightarrow> q | Some (_, b) \<Rightarrow> b)
        in if b = [] then ''/'' else b)"

lemma path_Base_slash:
  assumes "CHR ''/'' \<notin> set b" and "b \<noteq> []"
  shows "path_Base (a @ CHR ''/'' # b) = b"
proof -
  have "last b \<noteq> CHR ''/''" using assms last_in_set by metis
  then have "dropWhile (\<lambda>c. c = CHR ''/'') (rev b @ CHR ''/'' # rev a) = rev b @ CHR ''/'' # rev a"
    using assms(2) by (cases b rule: rev_cases) auto
  then show ?thesis using assms by (simp add: path_Base_def cut_last_append Let_def)
qed

lemma path_Clean_examples:
  "Clean ''/etc//krot/./x/../client-a.json'' = ''/etc/krot/client-a.json''"
  "Clean ''../../a/..'' = ''../..''" "Clean ''/..'' = ''/''" "path_Dir ''/etc/krot/server.json'' = ''/etc/krot''"
  by code_simp+

end
