(* ===== verification/Krot_Prompt.thy ===== *)
theory Krot_Prompt
  imports Go_Os "HOL-Library.Monad_Syntax"
begin

text \<open>
  The prompts of cmd/krotctl/wizard.go: ask, askRequired, yesNo and choice over a bufio.Reader
  on standard input. What they print is left out.

  Standard input is the list of what the read calls to come deliver: a terminal delivers a line
  at a time, a pipe whatever is in it. An empty read is an end of file, and behind the list is
  the end of the input for good. The reader keeps what it has read and not yet used.
\<close>

section \<open>Reading lines\<close>

record input =
  buffered :: string
  reads :: "string list"

abbreviation newline :: char where "newline \<equiv> CHR 0x0A"

text \<open>ReadString up to the newline: the line, with it unless the input ended, and the input left.\<close>

primrec read_string :: "string \<Rightarrow> string list \<Rightarrow> string \<times> input" where
  "read_string b [] =
     (if newline \<in> set b
      then (takeWhile (\<lambda>c. c \<noteq> newline) b @ [newline],
            \<lparr>buffered = tl (dropWhile (\<lambda>c. c \<noteq> newline) b), reads = []\<rparr>)
      else (b, \<lparr>buffered = [], reads = []\<rparr>))"
| "read_string b (c # cs) =
     (if newline \<in> set b
      then (takeWhile (\<lambda>c. c \<noteq> newline) b @ [newline],
            \<lparr>buffered = tl (dropWhile (\<lambda>c. c \<noteq> newline) b), reads = c # cs\<rparr>)
      else if c = [] then (b, \<lparr>buffered = [], reads = cs\<rparr>)
      else case read_string c cs of (l, i) \<Rightarrow> (b @ l, i))"

definition ReadString :: "input \<Rightarrow> string \<times> input" where
  "ReadString i = read_string (buffered i) (reads i)"

section \<open>Prompts\<close>

definition ask :: "string \<Rightarrow> input \<Rightarrow> string \<times> input" where
  "ask def i =
     (let (line, i') = ReadString i; v = TrimSpace line
      in (if v = [] then def else v, i'))"

text \<open>It asks again until there is a value: at the end of the input, for ever.\<close>

partial_function (option) askRequired :: "input \<Rightarrow> (string \<times> input) option" where
  "askRequired i = (let (v, i') = ask [] i in if v \<noteq> [] then Some (v, i') else askRequired i')"

definition ToLower :: "string \<Rightarrow> string" where
  "ToLower s = map (\<lambda>c. if 65 \<le> (of_char c :: nat) \<and> (of_char c :: nat) \<le> 90
                         then char_of ((of_char c :: nat) + 32) else c) s"

definition input_size :: "input \<Rightarrow> nat" where
  "input_size i = length (buffered i) + length (concat (reads i)) + length (reads i)"

lemma newline_split:
  "newline \<in> set b \<Longrightarrow> takeWhile (\<lambda>c. c \<noteq> newline) b @ newline # tl (dropWhile (\<lambda>c. c \<noteq> newline) b) = b"
  by (induction b) auto

lemma newline_split_length:
  assumes "newline \<in> set b"
  shows "length (takeWhile (\<lambda>c. c \<noteq> newline) b) + (length (dropWhile (\<lambda>c. c \<noteq> newline) b) - Suc 0) + 1 = length b"
  using arg_cong [OF newline_split [OF assms], of length] by simp

lemma read_string_size:
  "read_string b cs = (l, i) \<Longrightarrow>
     input_size i + length l \<le> length b + length (concat cs) + length cs"
proof (induction cs arbitrary: b l i)
  case Nil
  then show ?case
    using newline_split_length [of b] by (cases "newline \<in> set b") (auto simp: input_size_def)
next
  case (Cons c cs)
  show ?case
  proof (cases "newline \<in> set b \<or> c = []")
    case True
    with Cons.prems newline_split_length [of b] show ?thesis by (auto simp: input_size_def split: if_splits)
  next
    case False
    with Cons.prems obtain l' where "read_string c cs = (l', i)" "l = b @ l'" by (auto split: prod.splits)
    with Cons.IH [of c l' i] show ?thesis by simp
  qed
qed

text \<open>Nothing is lost or made up: the line and what is left are the input.\<close>

definition content :: "input \<Rightarrow> string" where
  "content i = buffered i @ concat (reads i)"

lemma read_string_content: "read_string b cs = (l, i) \<Longrightarrow> l @ content i = b @ concat cs"
proof (induction cs arbitrary: b l i)
  case Nil
  then show ?case using newline_split [of b] by (auto simp: content_def split: if_splits)
next
  case (Cons c cs)
  show ?case
  proof (cases "newline \<in> set b \<or> c = []")
    case True
    with Cons.prems newline_split [of b] show ?thesis by (auto simp: content_def split: if_splits)
  next
    case False
    with Cons.prems obtain l' where "read_string c cs = (l', i)" "l = b @ l'" by (auto split: prod.splits)
    with Cons.IH [of c l' i] show ?thesis by simp
  qed
qed

text \<open>Every line makes the input smaller, until it has ended for good.\<close>

lemma read_string_ended:
  "read_string b cs = ([], i) \<Longrightarrow> b = [] \<and> (cs = [] \<or> hd cs = [] \<and> i = \<lparr>buffered = [], reads = tl cs\<rparr>)"
proof (induction cs arbitrary: b)
  case Nil
  then show ?case by (auto split: if_splits)
next
  case (Cons c cs)
  then show ?case by (fastforce split: if_splits prod.splits)
qed

lemma ReadString_size:
  "ReadString i = (l, i') \<Longrightarrow> input_size i' + length l \<le> input_size i"
  using read_string_size by (fastforce simp: ReadString_def input_size_def)

lemma ReadString_content: "ReadString i = (l, i') \<Longrightarrow> l @ content i' = content i"
  using read_string_content by (fastforce simp: ReadString_def content_def)

lemma ReadString_progress:
  assumes "ReadString i = (l, i')" and "content i \<noteq> []"
  shows "input_size i' < input_size i"
proof (cases "l = []")
  case True
  with assms read_string_ended [of "buffered i" "reads i" i'] have "buffered i = []"
    "hd (reads i) = []" "i' = \<lparr>buffered = [], reads = tl (reads i)\<rparr>" "reads i \<noteq> []"
    by (auto simp: ReadString_def content_def)
  then show ?thesis by (cases "reads i") (auto simp: input_size_def)
next
  case False
  with ReadString_size [OF assms(1)] show ?thesis by (cases l) auto
qed

lemma TrimSpace_Nil [simp]: "TrimSpace [] = []"
  by (simp add: TrimSpace_def)

function yesNo :: "bool \<Rightarrow> input \<Rightarrow> bool \<times> input" where
  "yesNo def i =
     (let (line, i') = ReadString i; a = ToLower (TrimSpace line) in
      if a = [] then (def, i')
      else if a \<in> {''y'', ''yes''} then (True, i')
      else if a \<in> {''n'', ''no''} then (False, i')
      else yesNo def i')"
  by pat_completeness auto

termination
proof (relation "measure (\<lambda>(def, i). input_size i)")
  fix def i x line i' a
  assume x: "x = ReadString i" "(line, i') = x" "a = ToLower (TrimSpace line)" "a \<noteq> []"
  then have "line \<noteq> []" by (auto simp: ToLower_def)
  with ReadString_size [of i line i'] x(1,2) show "((def, i'), def, i) \<in> measure (\<lambda>(def, i). input_size i)"
    by (cases line) auto
qed simp

partial_function (option) choice :: "string list \<Rightarrow> string \<Rightarrow> input \<Rightarrow> (string \<times> input) option" where
  "choice opts def i =
     (let (v, i') = ask def i in if v \<in> set opts then Some (v, i') else choice opts def i')"

declare askRequired.simps [code] choice.simps [code]
declare yesNo.simps [simp del]
section \<open>Which prompts return\<close>

lemma TrimSpace_Nil_iff: "TrimSpace s = [] \<longleftrightarrow> (\<forall>c\<in>set s. white c)"
proof -
  have "dropWhile white t = [] \<longleftrightarrow> (\<forall>c\<in>set t. white c)" for t by (simp add: dropWhile_eq_Nil_conv)
  moreover have "(\<forall>c\<in>set (dropWhile white s). white c) \<longleftrightarrow> (\<forall>c\<in>set s. white c)" by (induction s) auto
  ultimately show ?thesis by (simp add: TrimSpace_def)
qed

lemma askRequired_returns:
  assumes "askRequired i = Some y"
  shows "fst y \<noteq> [] \<and> \<not> (\<forall>c\<in>set (content i). white c)"
proof (rule askRequired.raw_induct [OF _ assms])
  fix again i y
  assume ih: "\<And>i y. again i = Some y \<Longrightarrow> fst y \<noteq> [] \<and> \<not> (\<forall>c\<in>set (content i). white c)"
    and y: "(let (v, i') = ask [] i in if v \<noteq> [] then Some (v, i') else again i') = Some y"
  obtain l i1 where l: "ReadString i = (l, i1)" by fastforce
  note c = ReadString_content [OF l, symmetric]
  show "fst y \<noteq> [] \<and> \<not> (\<forall>c\<in>set (content i). white c)"
  proof (cases "TrimSpace l = []")
    case True
    with y l have "again i1 = Some y" by (simp add: ask_def Let_def)
    from ih [OF this] c show ?thesis by auto
  next
    case False
    with y l TrimSpace_Nil_iff [of l] c show ?thesis by (auto simp: ask_def Let_def)
  qed
qed

lemma askRequired_ends:
  "\<not> (\<forall>c\<in>set (content i). white c) \<Longrightarrow> askRequired i \<noteq> None"
proof (induction "input_size i" arbitrary: i rule: less_induct)
  case less
  obtain l i1 where l: "ReadString i = (l, i1)" by fastforce
  note c = ReadString_content [OF l, symmetric]
  show ?case
  proof (cases "TrimSpace l = []")
    case True
    from less(2) have "content i \<noteq> []" by auto
    from ReadString_progress [OF l this] less(1) [of i1] less(2) c True TrimSpace_Nil_iff [of l]
    have "askRequired i1 \<noteq> None" by auto
    with True l show ?thesis by (subst askRequired.simps) (simp add: ask_def Let_def)
  next
    case False
    with l show ?thesis by (subst askRequired.simps) (simp add: ask_def Let_def)
  qed
qed

lemma choice_returns:
  assumes "choice opts def i = Some y"
  shows "fst y \<in> set opts"
proof (rule choice.raw_induct [OF _ assms])
  fix again opts def i y
  assume ih: "\<And>opts def i y. again opts def i = Some y \<Longrightarrow> fst y \<in> set opts"
    and y: "(let (v, i') = ask def i in if v \<in> set opts then Some (v, i') else again opts def i') = Some y"
  obtain v i1 where a: "ask def i = (v, i1)" by fastforce
  show "fst y \<in> set opts"
  proof (cases "v \<in> set opts")
    case True
    with y have "y = (v, i1)" by (simp add: a)
    with True show ?thesis by simp
  next
    case False
    with y show ?thesis by (intro ih [of opts def i1]) (simp add: a)
  qed
qed

lemma choice_ends: "def \<in> set opts \<Longrightarrow> choice opts def i \<noteq> None"
proof (induction "input_size i" arbitrary: i rule: less_induct)
  case less
  obtain l i1 where l: "ReadString i = (l, i1)" by fastforce
  show ?case
  proof (cases "TrimSpace l = [] \<or> TrimSpace l \<in> set opts")
    case True
    with l less(2) show ?thesis by (subst choice.simps) (auto simp: ask_def Let_def)
  next
    case False
    then have "l \<noteq> []" by auto
    with ReadString_size [OF l] have "input_size i1 < input_size i" by (cases l) auto
    with less(1) [of i1] less(2) l False show ?thesis by (subst choice.simps) (auto simp: ask_def Let_def)
  qed
qed

text \<open>C36. Which prompts return. A required value is asked for until a line holds one: the prompt returns
  exactly when something that is no white space is left of the input, and else asks for ever,
  so a script that leaves a required answer out never ends. A choice and a yes-or-no question
  end on every input, the choice with one of the options, and at the end of the input both give
  their default.\<close>

theorem prompts_return:
  "(askRequired i \<noteq> None \<longleftrightarrow> (\<exists>c\<in>set (content i). \<not> white c))
   \<and> (def \<in> set opts \<longrightarrow> (\<exists>v i'. choice opts def i = Some (v, i') \<and> v \<in> set opts))
   \<and> (content i = [] \<longrightarrow> fst (yesNo b i) = b \<and> (def \<in> set opts \<longrightarrow> map_option fst (choice opts def i) = Some def))"
proof (intro conjI impI)
  show "askRequired i \<noteq> None \<longleftrightarrow> (\<exists>c\<in>set (content i). \<not> white c)"
    using askRequired_returns [of i] askRequired_ends [of i] by fastforce
  show "\<exists>v i'. choice opts def i = Some (v, i') \<and> v \<in> set opts" if "def \<in> set opts"
    using choice_ends [OF that, of i] choice_returns [of opts def i] by fastforce
  assume "content i = []"
  moreover obtain l i1 where l: "ReadString i = (l, i1)" by fastforce
  ultimately have l0: "l = []" using ReadString_content [OF l] by simp
  show "fst (yesNo b i) = b" by (subst yesNo.simps) (simp add: l l0 ToLower_def)
  assume "def \<in> set opts"
  then show "map_option fst (choice opts def i) = Some def"
    by (subst choice.simps) (simp add: l l0 ask_def)
qed

theorem prompts_return_witness:
  "askRequired \<lparr>buffered = [], reads = [''  '', [newline], [], ''ab'']\<rparr> \<noteq> None
   \<and> askRequired \<lparr>buffered = [newline], reads = []\<rparr> = None"
proof -
  have "\<exists>c\<in>set (content \<lparr>buffered = [], reads = [''  '', [newline], [], ''ab'']\<rparr>). \<not> white c"
    by (simp add: content_def white_def)
  moreover have "\<not> (\<exists>c\<in>set (content \<lparr>buffered = [newline], reads = []\<rparr>). \<not> white c)"
    by (simp add: content_def white_def)
  ultimately show ?thesis
    using prompts_return [of "\<lparr>buffered = [], reads = [''  '', [newline], [], ''ab'']\<rparr>"]
      prompts_return [of "\<lparr>buffered = [newline], reads = []\<rparr>"] by blast
qed

end
