(* ===== verification/Krot_Ctl.thy ===== *)
theory Krot_Ctl
  imports Krot_Client Krot_Server Go_Flag Go_Path Krot_Prompt
begin

text \<open>
  cmd/krotctl: the names of an instance's files, unit, device and table (client.go), the
  generated secrets (keygen.go), writing configurations and units (helpers.go), the commands
  that bring a server or a client up (server.go, client.go), and the removal of everything
  (uninstall.go). What is printed is left out; each command is a function of the arguments,
  the system and its state.
\<close>

section \<open>The system\<close>

text \<open>Besides what \<open>Go_Os\<close> has: os.Stat succeeding, directories, the user, the program's own path.\<close>

record 'w ctl_system = "'w system" +
  Stat :: "string \<Rightarrow> 'w \<Rightarrow> bool"
  MkdirAll :: "string \<Rightarrow> 'w \<Rightarrow> bool \<times> 'w"
  RemoveAll :: "string \<Rightarrow> 'w \<Rightarrow> bool \<times> 'w"
  Glob :: "string \<Rightarrow> 'w \<Rightarrow> string list"
  Geteuid :: int
  Executable :: "string option"
  EvalSymlinks :: "string \<Rightarrow> string option"

text \<open>encoding/json on the two configurations.\<close>

record json_codec =
  marshal_client :: "client_cfg \<Rightarrow> string"
  unmarshal_client :: "string \<Rightarrow> client_cfg option"
  marshal_server :: "server_cfg \<Rightarrow> string"
  unmarshal_server :: "string \<Rightarrow> server_cfg option"

datatype ctl_error =
    FlagExit flag_error | NotRoot | BadMode string | RequiredFlag | AlreadyExists string
  | NeedCertAndKey | CtlCrypto crypto_error | BadPriv config_error
  | ConfigNotWritten | ConfigRejected config_error | UnitNotWritten
  | CtlCommand "string list"
  | ConfigFlagRequired | ConfigError config_error | RunFailed run_error | TemplateNotWritten
  | NoSubcommand | UnknownSubcommand string

definition sh :: "'w ctl_system \<Rightarrow> string list \<Rightarrow> 'w \<Rightarrow> (ctl_error + unit) \<times> 'w" where
  "sh C args w =
     (case exec C args w of (Inl m, w') \<Rightarrow> (Inl (CtlCommand args), w') | (Inr out, w') \<Rightarrow> (Inr (), w'))"

text \<open>The answer of svcActive is only printed; what stays is that the command has run.\<close>

definition svcActive :: "'w ctl_system \<Rightarrow> string \<Rightarrow> 'w \<Rightarrow> 'w" where
  "svcActive C unit w = snd (exec C [''systemctl'', ''is-active'', unit] w)"

section \<open>Names\<close>

definition krotConfigDir :: string where "krotConfigDir = ''/etc/krot''"
definition serverCfgPath :: string where "serverCfgPath = ''/etc/krot/server.json''"
definition serverUnit :: string where "serverUnit = ''krot-server''"
definition serverUnitPath :: string where "serverUnitPath = ''/etc/systemd/system/krot-server.service''"
definition clientUnitTemplatePath :: string where
  "clientUnitTemplatePath = ''/etc/systemd/system/krot-client@.service''"

definition clientCfgPath :: "string \<Rightarrow> string" where
  "clientCfgPath nm = ''/etc/krot/client-'' @ nm @ ''.json''"

definition clientUnit :: "string \<Rightarrow> string" where
  "clientUnit nm = ''krot-client@'' @ nm"

definition tunDevName :: "string \<Rightarrow> string" where
  "tunDevName nm = (let n = ''mir-'' @ nm in if length n > 15 then take 15 n else n)"

definition tableFor :: "string \<Rightarrow> string" where
  "tableFor nm = dec_int (100 + int (unat (fnv1a (bytes_of nm) mod 256)))"

definition subnetMatch :: "string \<Rightarrow> string" where
  "subnetMatch cidr =
     (if cidr = [] then []
      else case ParseCIDR cidr of None \<Rightarrow> [] | Some (_, net) \<Rightarrow> IPNet_String net)"

section \<open>Secrets\<close>

record secrets =
  sec_PSK :: string
  sec_Priv :: string
  sec_Pub :: string
  sec_Path :: string

text \<open>\<open>psk\<close> and \<open>pr\<close> are what crypto.Random put into the two buffers, \<open>rnd\<close> what GenerateKeypair reads.\<close>

definition genSecrets :: "prims \<Rightarrow> bytes \<Rightarrow> bytes option \<Rightarrow> bytes \<Rightarrow> crypto_error + secrets" where
  "genSecrets P psk rnd pr =
     try_bind (GenerateKeypair P rnd) (\<lambda>kp.
     Inr \<lparr>sec_PSK = StdEncodeToString psk, sec_Priv = StdEncodeToString (Private kp),
          sec_Pub = StdEncodeToString (Public kp), sec_Path = ''/api/v2/'' @ RawURLEncodeToString pr\<rparr>)"

definition derivePub :: "prims \<Rightarrow> bytes \<Rightarrow> crypto_error + string" where
  "derivePub P priv = try_bind (PublicFromPrivate P priv) (\<lambda>pub. Inr (StdEncodeToString pub))"

section \<open>Files\<close>

abbreviation nl :: string where "nl \<equiv> [CHR 0x0A]"

definition write_config :: "'w ctl_system \<Rightarrow> string \<Rightarrow> string \<Rightarrow> 'w \<Rightarrow> (ctl_error + unit) \<times> 'w" where
  "write_config C path text w =
     (case MkdirAll C (path_Dir path) w of
        (False, w1) \<Rightarrow> (Inl ConfigNotWritten, w1)
      | (True, w1) \<Rightarrow>
          (case WriteFile C path (text @ nl) w1 of
             (ok, w2) \<Rightarrow> (if ok then Inr () else Inl ConfigNotWritten, w2)))"

definition writeServerConfig :: "json_codec \<Rightarrow> 'w ctl_system \<Rightarrow> server_cfg \<Rightarrow> 'w \<Rightarrow> (ctl_error + unit) \<times> 'w" where
  "writeServerConfig J C cfg w = write_config C serverCfgPath (marshal_server J cfg) w"

definition writeClientConfig ::
  "json_codec \<Rightarrow> 'w ctl_system \<Rightarrow> string \<Rightarrow> client_cfg \<Rightarrow> 'w \<Rightarrow> (ctl_error + unit) \<times> 'w" where
  "writeClientConfig J C path cfg w = write_config C path (marshal_client J cfg) w"

text \<open>loadJSON, and the loaders on a path.\<close>

definition loadJSON :: "(string \<Rightarrow> 'c option) \<Rightarrow> 'w ctl_system \<Rightarrow> string \<Rightarrow> 'w \<Rightarrow> config_error + 'c" where
  "loadJSON unmarshal C path w =
     (case ReadFile C path w of
        None \<Rightarrow> Inl ReadConfig
      | Some d \<Rightarrow> (case unmarshal d of None \<Rightarrow> Inl ParseConfig | Some c \<Rightarrow> Inr c))"

definition LoadClientFile :: "json_codec \<Rightarrow> 'w ctl_system \<Rightarrow> string \<Rightarrow> 'w \<Rightarrow> config_error + client_cfg" where
  "LoadClientFile J C path w = LoadClient (loadJSON (unmarshal_client J) C path w)"

definition LoadServerFile :: "json_codec \<Rightarrow> 'w ctl_system \<Rightarrow> string \<Rightarrow> 'w \<Rightarrow> config_error + server_cfg" where
  "LoadServerFile J C path w = LoadServer (loadJSON (unmarshal_server J) C path w)"

definition client_unit_text :: "string \<Rightarrow> string" where
  "client_unit_text self =
     ''[Unit]'' @ nl @ ''Description=Krot VPN client (instance %i)'' @ nl
     @ ''After=network-online.target'' @ nl @ ''Wants=network-online.target'' @ nl @ nl
     @ ''[Service]'' @ nl @ ''ExecStart='' @ self @ '' client run -config /etc/krot/client-%i.json'' @ nl
     @ ''Restart=always'' @ nl @ ''RestartSec=3'' @ nl @ nl
     @ ''[Install]'' @ nl @ ''WantedBy=multi-user.target'' @ nl"

definition server_unit_text :: "string \<Rightarrow> string" where
  "server_unit_text self =
     ''[Unit]'' @ nl @ ''Description=Krot VPN server'' @ nl
     @ ''After=network-online.target'' @ nl @ ''Wants=network-online.target'' @ nl @ nl
     @ ''[Service]'' @ nl @ ''ExecStart='' @ self @ '' server run -config '' @ serverCfgPath @ nl
     @ ''Restart=on-failure'' @ nl @ ''RestartSec=3'' @ nl @ ''LimitNOFILE=1048576'' @ nl @ nl
     @ ''[Install]'' @ nl @ ''WantedBy=multi-user.target'' @ nl"

definition install_unit ::
  "'w ctl_system \<Rightarrow> string \<Rightarrow> (string \<Rightarrow> string) \<Rightarrow> 'w \<Rightarrow> (ctl_error + unit) \<times> 'w" where
  "install_unit C path text w =
     (case Executable C of
        None \<Rightarrow> (Inl UnitNotWritten, w)
      | Some self \<Rightarrow>
          (case WriteFile C path (text self) w of (ok, w') \<Rightarrow> (if ok then Inr () else Inl UnitNotWritten, w')))"

definition installClientUnitTemplate :: "'w ctl_system \<Rightarrow> 'w \<Rightarrow> (ctl_error + unit) \<times> 'w" where
  "installClientUnitTemplate C w = install_unit C clientUnitTemplatePath client_unit_text w"

definition installServerUnit :: "'w ctl_system \<Rightarrow> 'w \<Rightarrow> (ctl_error + unit) \<times> 'w" where
  "installServerUnit C w = install_unit C serverUnitPath server_unit_text w"

text \<open>The end of both up commands: reload, enable, restart, and the question whether it is active.\<close>

definition start_unit :: "'w ctl_system \<Rightarrow> string \<Rightarrow> 'w \<Rightarrow> (ctl_error + unit) \<times> 'w" where
  "start_unit C unit w =
     os_then (sh C [''systemctl'', ''daemon-reload''] w) (\<lambda>_ w.
     let w1 = snd (sh C [''systemctl'', ''enable'', unit] w) in
     os_then (sh C [''systemctl'', ''restart'', unit] w1) (\<lambda>_ w.
     (Inr (), svcActive C unit w)))"

section \<open>Bringing a client up\<close>

definition client_flags :: flags where
  "client_flags =
     [(''name'', FStr ''default''), (''mode'', FStr ''full''), (''server'', FStr []), (''port'', FInt 443),
      (''sni'', FStr []), (''path'', FStr []), (''psk'', FStr []), (''server-pub'', FStr []),
      (''insecure'', FBool True), (''pin-sha256'', FStr []), (''tun-name'', FStr []), (''mtu'', FInt 1320),
      (''channels'', FInt 4), (''dns'', FStr []), (''socks'', FStr ''127.0.0.1:1080''),
      (''socks-table'', FStr []), (''force'', FBool False), (''no-start'', FBool False)]"

definition client_up_cfg :: "flags \<Rightarrow> client_cfg" where
  "client_up_cfg fs =
     (let tn = (if flag_str fs ''tun-name'' = [] then tunDevName (flag_str fs ''name'') else flag_str fs ''tun-name'');
          tbl = (if flag_str fs ''socks-table'' = [] then tableFor (flag_str fs ''name'')
                 else flag_str fs ''socks-table'');
          cfg = \<lparr>c_ServerIP = flag_str fs ''server'', c_ServerPort = flag_int fs ''port'',
             c_SNI = flag_str fs ''sni'', c_Path = flag_str fs ''path'', c_PSK = flag_str fs ''psk'',
             c_ServerPub = flag_str fs ''server-pub'', c_Insecure = flag_bool fs ''insecure'',
             c_PinSHA256 = flag_str fs ''pin-sha256'', c_TunName = tn, c_MTU = flag_int fs ''mtu'',
             c_DNS = flag_str fs ''dns'', c_Channels = flag_int fs ''channels'', c_RouteMode = [],
             c_SocksListen = [], c_SocksTable = []\<rparr>
      in if flag_str fs ''mode'' = ''manual'' then cfg\<lparr>c_RouteMode := ''manual''\<rparr>
         else if flag_str fs ''mode'' = ''socks''
           then cfg\<lparr>c_SocksListen := flag_str fs ''socks'', c_SocksTable := tbl\<rparr>
         else cfg)"

text \<open>The checks before anything is written.\<close>

definition client_up_checks :: "'w ctl_system \<Rightarrow> flags \<Rightarrow> 'w \<Rightarrow> ctl_error option" where
  "client_up_checks C fs w =
     (if Geteuid C \<noteq> 0 then Some NotRoot
      else if flag_str fs ''mode'' \<notin> {''full'', ''socks'', ''manual''} then Some (BadMode (flag_str fs ''mode''))
      else if list_ex (\<lambda>k. flag_str fs k = []) [''server'', ''sni'', ''path'', ''psk'', ''server-pub'']
        then Some RequiredFlag
      else if Stat C (clientCfgPath (flag_str fs ''name'')) w \<and> \<not> flag_bool fs ''force''
        then Some (AlreadyExists (clientCfgPath (flag_str fs ''name'')))
      else None)"

definition clientUp :: "json_codec \<Rightarrow> 'w ctl_system \<Rightarrow> string list \<Rightarrow> 'w \<Rightarrow> (ctl_error + unit) \<times> 'w" where
  "clientUp J C args w =
     (case flag_parse client_flags args of
        Inl e \<Rightarrow> (Inl (FlagExit e), w)
      | Inr fs \<Rightarrow>
     (case client_up_checks C fs w of
        Some e \<Rightarrow> (Inl e, w)
      | None \<Rightarrow>
          let cfgPath = clientCfgPath (flag_str fs ''name'') in
          os_then (writeClientConfig J C cfgPath (client_up_cfg fs) w) (\<lambda>_ w1.
          case LoadClientFile J C cfgPath w1 of
            Inl e \<Rightarrow> (Inl (ConfigRejected e), snd (Remove C cfgPath w1))
          | Inr _ \<Rightarrow>
              os_then (installClientUnitTemplate C w1) (\<lambda>_ w2.
              if flag_bool fs ''no-start'' then (Inr (), w2)
              else start_unit C (clientUnit (flag_str fs ''name'')) w2))))"

section \<open>Bringing a server up\<close>

definition server_flags :: flags where
  "server_flags =
     [(''sni'', FStr ''en.wikipedia.org''), (''listen'', FStr '':443''), (''decoy'', FStr []),
      (''tun-cidr'', FStr ''10.8.0.1/24''), (''tun-name'', FStr ''krot0''), (''dns'', FStr ''1.1.1.1''),
      (''wan'', FStr []), (''mtu'', FInt 1320), (''self-signed'', FBool True), (''cert'', FStr []),
      (''key'', FStr []), (''psk'', FStr []), (''priv'', FStr []), (''force'', FBool False),
      (''no-start'', FBool False)]"

definition server_up_cfg :: "flags \<Rightarrow> secrets \<Rightarrow> server_cfg" where
  "server_up_cfg fs gen =
     \<lparr>s_Listen = flag_str fs ''listen'', s_SNI = flag_str fs ''sni'', s_Path = sec_Path gen,
      s_PSK = (if flag_str fs ''psk'' = [] then sec_PSK gen else flag_str fs ''psk''),
      s_ServerPriv = (if flag_str fs ''priv'' = [] then sec_Priv gen else flag_str fs ''priv''),
      s_CertFile = flag_str fs ''cert'', s_KeyFile = flag_str fs ''key'',
      s_SelfSigned = (flag_bool fs ''self-signed'' \<and> flag_str fs ''cert'' = [] \<and> flag_str fs ''key'' = []),
      s_Decoy = flag_str fs ''decoy'', s_TunName = flag_str fs ''tun-name'',
      s_TunCIDR = flag_str fs ''tun-cidr'', s_DNS = flag_str fs ''dns'', s_WANIface = flag_str fs ''wan'',
      s_MTU = flag_int fs ''mtu''\<rparr>"

text \<open>With the credentials it prints for the client when it has started: path, PSK and public key.\<close>

definition serverUp ::
  "prims \<Rightarrow> json_codec \<Rightarrow> 'w ctl_system \<Rightarrow> bytes \<Rightarrow> bytes option \<Rightarrow> bytes \<Rightarrow> string list \<Rightarrow> 'w
     \<Rightarrow> (ctl_error + string \<times> string \<times> string) \<times> 'w" where
  "serverUp P J C psk rnd pr args w =
     (case flag_parse server_flags args of
        Inl e \<Rightarrow> (Inl (FlagExit e), w)
      | Inr fs \<Rightarrow>
      if Geteuid C \<noteq> 0 then (Inl NotRoot, w)
      else if Stat C serverCfgPath w \<and> \<not> flag_bool fs ''force'' then (Inl (AlreadyExists serverCfgPath), w)
      else if (flag_str fs ''cert'' = []) \<noteq> (flag_str fs ''key'' = []) then (Inl NeedCertAndKey, w)
      else
     (case genSecrets P psk rnd pr of
        Inl e \<Rightarrow> (Inl (CtlCrypto e), w)
      | Inr gen \<Rightarrow>
          let cfg = server_up_cfg fs gen in
          (case DecodeKey32 (s_ServerPriv cfg) of
             Inl e \<Rightarrow> (Inl (BadPriv e), w)
           | Inr priv \<Rightarrow>
          (case derivePub P priv of
             Inl e \<Rightarrow> (Inl (CtlCrypto e), w)
           | Inr pub \<Rightarrow>
               os_then (writeServerConfig J C cfg w) (\<lambda>_ w1.
               os_then (installServerUnit C w1) (\<lambda>_ w2.
               let creds = (s_Path cfg, s_PSK cfg, pub) in
               if flag_bool fs ''no-start'' then (Inr creds, w2)
               else os_then (start_unit C serverUnit w2) (\<lambda>_ w3. (Inr creds, w3))))))))"

section \<open>Removing everything\<close>

definition instance_name :: "string \<Rightarrow> string" where
  "instance_name m = TrimSuffix (TrimPrefix (path_Base m) ''client-'') ''.json''"

definition discoverClientInstances :: "'w ctl_system \<Rightarrow> 'w \<Rightarrow> string list" where
  "discoverClientInstances C w =
     filter (\<lambda>nm. nm \<noteq> []) (map instance_name (Glob C (path_Join [krotConfigDir, ''client-*.json'']) w))"

definition installDir :: "'w ctl_system \<Rightarrow> string" where
  "installDir C =
     (case Executable C of
        None \<Rightarrow> ''/usr/local/bin''
      | Some self \<Rightarrow> path_Dir (case EvalSymlinks C self of None \<Rightarrow> self | Some r \<Rightarrow> r))"

definition stopDisable :: "'w ctl_system \<Rightarrow> string \<Rightarrow> 'w \<Rightarrow> 'w" where
  "stopDisable C unit w =
     snd (sh C [''systemctl'', ''disable'', unit] (snd (sh C [''systemctl'', ''stop'', unit] w)))"

definition uninstall_flags :: flags where
  "uninstall_flags = [(''yes'', FBool False), (''keep-binaries'', FBool False), (''keep-config'', FBool False)]"

definition krot_binaries :: "string list" where
  "krot_binaries = [''krot-server'', ''krot-client'', ''krot-keygen'', ''krotctl'']"

text \<open>Of the standard input a new reader reads; the result tells whether anything was removed.\<close>

definition newWiz :: "string list \<Rightarrow> input" where
  "newWiz stdin = \<lparr>buffered = [], reads = stdin\<rparr>"

definition cmdUninstall ::
  "'w ctl_system \<Rightarrow> string list \<Rightarrow> string list \<Rightarrow> 'w \<Rightarrow> (ctl_error + bool) \<times> 'w" where
  "cmdUninstall C args stdin w =
     (case flag_parse uninstall_flags args of
        Inl e \<Rightarrow> (Inl (FlagExit e), w)
      | Inr fs \<Rightarrow>
      if Geteuid C \<noteq> 0 then (Inl NotRoot, w)
      else if \<not> flag_bool fs ''yes'' \<and> \<not> fst (yesNo False (newWiz stdin)) then (Inr False, w)
      else
        let w1 = fold (stopDisable C) (serverUnit # map clientUnit (discoverClientInstances C w)) w;
            w2 = snd (Remove C clientUnitTemplatePath (snd (Remove C serverUnitPath w1)));
            w3 = snd (sh C [''systemctl'', ''reset-failed''] (snd (sh C [''systemctl'', ''daemon-reload''] w2)));
            w4 = (if flag_bool fs ''keep-config'' then w3 else snd (RemoveAll C krotConfigDir w3));
            w5 = (if flag_bool fs ''keep-binaries'' then w4
                  else fold (\<lambda>b v. snd (Remove C (path_Join [installDir C, b]) v)) krot_binaries w4)
        in (Inr True, w5))"

section \<open>Running and stopping\<close>

text \<open>client run, which the unit executes: \<open>go\<close> is what happens until Run ends (see \<open>Krot_Client\<close>).\<close>

definition clientRun ::
  "prims \<Rightarrow> json_codec \<Rightarrow> 'w ctl_system \<Rightarrow> 'w client_env \<Rightarrow> dial_args \<Rightarrow> 'w between \<Rightarrow> string list \<Rightarrow> 'w
     \<Rightarrow> (ctl_error + unit) \<times> 'w" where
  "clientRun P J C E da go args w =
     (case flag_parse [(''config'', FStr [])] args of
        Inl e \<Rightarrow> (Inl (FlagExit e), w)
      | Inr fs \<Rightarrow>
      if flag_str fs ''config'' = [] then (Inl ConfigFlagRequired, w)
      else
     (case LoadClientFile J C (flag_str fs ''config'') w of
        Inl e \<Rightarrow> (Inl (ConfigError e), w)
      | Inr cfg \<Rightarrow>
          (case Run P E da go cfg w of
             (Inl e, s) \<Rightarrow> (Inl (RunFailed e), rn_host s)
           | (Inr _, s) \<Rightarrow> (Inr (), rn_host s))))"

definition clientDown :: "'w ctl_system \<Rightarrow> string list \<Rightarrow> 'w \<Rightarrow> (ctl_error + unit) \<times> 'w" where
  "clientDown C args w =
     (case flag_parse [(''name'', FStr ''default'')] args of
        Inl e \<Rightarrow> (Inl (FlagExit e), w)
      | Inr fs \<Rightarrow>
      if Geteuid C \<noteq> 0 then (Inl NotRoot, w)
      else (Inr (), snd (sh C [''systemctl'', ''stop'', clientUnit (flag_str fs ''name'')] w)))"

definition serverDown :: "'w ctl_system \<Rightarrow> 'w \<Rightarrow> (ctl_error + unit) \<times> 'w" where
  "serverDown C w =
     (if Geteuid C \<noteq> 0 then (Inl NotRoot, w)
      else (Inr (), snd (sh C [''systemctl'', ''stop'', serverUnit] w)))"

text \<open>The subcommands; \<open>status\<close>, which only prints, is an argument.\<close>

definition cmdClient ::
  "prims \<Rightarrow> json_codec \<Rightarrow> 'w ctl_system \<Rightarrow> 'w client_env \<Rightarrow> dial_args \<Rightarrow> 'w between
     \<Rightarrow> (string list \<Rightarrow> 'w \<Rightarrow> (ctl_error + unit) \<times> 'w) \<Rightarrow> string list \<Rightarrow> 'w \<Rightarrow> (ctl_error + unit) \<times> 'w" where
  "cmdClient P J C E da go status args w =
     (case args of
        [] \<Rightarrow> (Inl NoSubcommand, w)
      | sub # rest \<Rightarrow>
          if sub = ''up'' then clientUp J C rest w
          else if sub = ''run'' then clientRun P J C E da go rest w
          else if sub = ''status'' then status rest w
          else if sub = ''down'' then clientDown C rest w
          else (Inl (UnknownSubcommand sub), w))"

section \<open>Generating credentials\<close>

abbreviation qt :: string where "qt \<equiv> [CHR 0x22]"

definition json_field :: "string \<Rightarrow> string \<Rightarrow> string" where
  "json_field k v = ''  '' @ qt @ k @ qt @ '': '' @ v"

definition keygen_template :: "secrets \<Rightarrow> string" where
  "keygen_template s =
     ''{'' @ nl
     @ json_field ''server_ip'' (qt @ ''YOUR.SERVER.IP'' @ qt) @ '','' @ nl
     @ json_field ''server_port'' ''443'' @ '','' @ nl
     @ json_field ''sni'' (qt @ ''en.wikipedia.org'' @ qt) @ '','' @ nl
     @ json_field ''path'' (qt @ sec_Path s @ qt) @ '','' @ nl
     @ json_field ''psk'' (qt @ sec_PSK s @ qt) @ '','' @ nl
     @ json_field ''server_pub'' (qt @ sec_Pub s @ qt) @ '','' @ nl
     @ json_field ''insecure'' ''true'' @ '','' @ nl
     @ json_field ''tun_name'' (qt @ ''krot0'' @ qt) @ '','' @ nl
     @ json_field ''mtu'' ''1320'' @ '','' @ nl
     @ json_field ''channels'' ''4'' @ nl @ ''}'' @ nl"

text \<open>The credentials are what keygen prints, with the command that brings the server up.\<close>

definition cmdKeygen ::
  "prims \<Rightarrow> 'w ctl_system \<Rightarrow> bytes \<Rightarrow> bytes option \<Rightarrow> bytes \<Rightarrow> string list \<Rightarrow> 'w \<Rightarrow> (ctl_error + secrets) \<times> 'w" where
  "cmdKeygen P C psk rnd pr args w =
     (case flag_parse [(''o'', FStr [])] args of
        Inl e \<Rightarrow> (Inl (FlagExit e), w)
      | Inr fs \<Rightarrow>
     (case genSecrets P psk rnd pr of
        Inl e \<Rightarrow> (Inl (CtlCrypto e), w)
      | Inr s \<Rightarrow>
          let outDir = flag_str fs ''o'' in
          if outDir = [] then (Inr s, w)
          else
            (case MkdirAll C outDir w of
               (False, w1) \<Rightarrow> (Inl TemplateNotWritten, w1)
             | (True, w1) \<Rightarrow>
                 (case WriteFile C (path_Join [outDir, ''client.json'']) (keygen_template s) w1 of
                    (ok, w2) \<Rightarrow> (if ok then Inr s else Inl TemplateNotWritten, w2)))))"

definition keygen_server_args :: "secrets \<Rightarrow> string list" where
  "keygen_server_args s = [''-psk'', sec_PSK s, ''-priv'', sec_Priv s]"

section \<open>Properties of names\<close>

lemma clientCfgPath_inj [simp]: "clientCfgPath a = clientCfgPath b \<longleftrightarrow> a = b"
  by (simp add: clientCfgPath_def)

lemma instance_name_path:
  assumes "CHR ''/'' \<notin> set nm"
  shows "instance_name (clientCfgPath nm) = nm"
proof -
  have "clientCfgPath nm = ''/etc/krot'' @ CHR ''/'' # (''client-'' @ nm @ ''.json'')" by (simp add: clientCfgPath_def)
  moreover have "CHR ''/'' \<notin> set (''client-'' @ nm @ ''.json'')" "''client-'' @ nm @ ''.json'' \<noteq> []" using assms by simp_all
  note path_Base_slash [OF this, of "''/etc/krot''"]
  ultimately have "path_Base (clientCfgPath nm) = ''client-'' @ nm @ ''.json''" by (simp only:)
  then show ?thesis unfolding instance_name_def by (simp only: TrimPrefix_append TrimSuffix_append)
qed

text \<open>Uninstall finds the clients: when the configuration directory holds the files of the instances
  \<open>ns\<close>, whatever characters but a slash their names have, the names discovered are \<open>ns\<close>, but for
  an instance with the empty name, which is never found.\<close>

theorem discovered_instances:
  assumes "Glob C ''/etc/krot/client-*.json'' w = map clientCfgPath ns"
    and "list_all (\<lambda>nm. CHR ''/'' \<notin> set nm) ns"
  shows "discoverClientInstances C w = filter (\<lambda>nm. nm \<noteq> []) ns"
proof -
  have "map (instance_name \<circ> clientCfgPath) ns = ns"
    using assms(2) by (intro map_idI) (auto simp: list_all_iff instance_name_path)
  moreover have "path_Join [krotConfigDir, ''client-*.json''] = ''/etc/krot/client-*.json''" by code_simp
  ultimately show ?thesis by (simp add: discoverClientInstances_def assms(1))
qed

lemma mod256: "unat (h mod 256 :: 32 word) < 256"
  by (simp add: unat_mod)

lemma tableFor_nat: "tableFor nm = dec_nat (100 + unat (fnv1a (bytes_of nm) mod 256))"
proof -
  have "dec_int (int k) = dec_nat k" for k by (simp add: dec_int_def)
  from this [of "100 + unat (fnv1a (bytes_of nm) mod 256)"] show ?thesis by (simp add: tableFor_def)
qed

lemma tableFor_range: "\<exists>k. 100 \<le> k \<and> k \<le> 355 \<and> tableFor nm = dec_nat k"
proof -
  let ?k = "100 + unat (fnv1a (bytes_of nm) mod 256)"
  have "?k \<le> 355" using mod256 [of "fnv1a (bytes_of nm)"] by arith
  moreover have "100 \<le> ?k" by simp
  ultimately show ?thesis using tableFor_nat [of nm] by blast
qed

lemma dec_254: "dec_nat 254 = ''254''"
  by code_simp

lemma table_node3: "tableFor ''node3'' = ''254''"
proof -
  have "unat (fnv1a (bytes_of ''node3'') mod 256) = 154"
    by (simp add: fnv1a_def fnv_offset_def fnv_prime_def mix_def bytes_of_def byte_of_def)
  then show ?thesis unfolding tableFor_nat by (simp add: dec_254)
qed

lemma table_clash: "tableFor ''default'' = tableFor ''germany''"
  by (simp add: tableFor_def fnv1a_def fnv_offset_def fnv_prime_def mix_def bytes_of_def byte_of_def)

text \<open>The names derived for an instance: the device name has at most fifteen characters and the table
  is a number from 100 to 355. They do not separate instances: two names get the same table,
  names that agree in eleven characters get the same device, and a name can get 254, the
  number of the host's main table.\<close>

theorem derived_names:
  "length (tunDevName nm) \<le> 15 \<and> (\<exists>k. 100 \<le> k \<and> k \<le> 355 \<and> tableFor nm = dec_nat k)
    \<and> (length a = 11 \<longrightarrow> tunDevName (a @ x) = tunDevName (a @ y))
    \<and> tableFor ''default'' = tableFor ''germany'' \<and> tableFor ''node3'' = ''254''"
proof -
  have t: "tunDevName nm = take 15 (''mir-'' @ nm)" for nm
    unfolding tunDevName_def Let_def by (auto simp: not_less simp del: append_Cons take_append)
  have "length (tunDevName nm) \<le> 15" by (simp only: t length_take min_le_iff_disj)  simp
  moreover have "tunDevName (a @ x) = tunDevName (a @ y)" if "length a = 11"
    using that by (simp only: t append_assoc [symmetric] take_append) simp
  ultimately show ?thesis using tableFor_range table_node3 table_clash by blast
qed

theorem derived_names_witness: "tunDevName ''production-1'' = tunDevName ''production-2''"
  using derived_names [of "''x''" "''production-''" "''1''" "''2''"] by simp

section \<open>What the commands do to the files\<close>

text \<open>
  What is assumed of the host: reading and Stat see the contents of files, a write that works
  leaves what was written and touches no other file, removing removes, making a directory changes
  no file, and systemctl changes no file below the configuration directory.
\<close>

definition under_krot :: "string \<Rightarrow> bool" where
  "under_krot f \<longleftrightarrow> take 10 f = ''/etc/krot/''"

definition writes_file :: "'w ctl_system \<Rightarrow> ('w \<Rightarrow> files) \<Rightarrow> bool" where
  "writes_file C F \<longleftrightarrow>
     (\<forall>f d w. let (ok, w') = WriteFile C f d w in
        (ok \<longrightarrow> F w' f = Some d) \<and> (\<forall>g. g \<noteq> f \<longrightarrow> F w' g = F w g))"

definition config_ok :: "'w ctl_system \<Rightarrow> ('w \<Rightarrow> files) \<Rightarrow> bool" where
  "config_ok C F \<longleftrightarrow>
     (\<forall>f w. ReadFile C f w = F w f) \<and> (\<forall>f w. Stat C f w = (F w f \<noteq> None))
   \<and> writes_file C F
   \<and> (\<forall>f w. F (snd (Remove C f w)) = (F w)(f := None))
   \<and> (\<forall>d w. F (snd (MkdirAll C d w)) = F w)
   \<and> (\<forall>u w g. under_krot g \<longrightarrow> F (snd (exec C (''systemctl'' # u) w)) g = F w g)"

lemma under_krot_simps [simp]:
  "under_krot (clientCfgPath nm)" "under_krot serverCfgPath"
  "\<not> under_krot clientUnitTemplatePath" "\<not> under_krot serverUnitPath"
  by (simp_all add: under_krot_def clientCfgPath_def serverCfgPath_def clientUnitTemplatePath_def serverUnitPath_def)

lemma config_write:
  assumes "config_ok C F" and "WriteFile C f d w = (ok, w')"
  shows "ok \<Longrightarrow> F w' f = Some d" and "g \<noteq> f \<Longrightarrow> F w' g = F w g"
proof -
  from assms(1) have "writes_file C F" unfolding config_ok_def by blast
  from this [unfolded writes_file_def, THEN spec, THEN spec, THEN spec, of f d w] assms(2)
  have *: "(ok \<longrightarrow> F w' f = Some d) \<and> (\<forall>g. g \<noteq> f \<longrightarrow> F w' g = F w g)" by (simp add: Let_def)
  from * show "ok \<Longrightarrow> F w' f = Some d" by blast
  from * show "g \<noteq> f \<Longrightarrow> F w' g = F w g" by blast
qed

lemma config_systemctl:
  assumes "config_ok C F" and "under_krot g"
  shows "F (snd (sh C (''systemctl'' # u) w)) g = F w g" and "F (svcActive C unit w) g = F w g"
proof -
  from assms(1) have "\<forall>u w g. under_krot g \<longrightarrow> F (snd (exec C (''systemctl'' # u) w)) g = F w g"
    unfolding config_ok_def by blast
  then have e: "F (snd (exec C (''systemctl'' # u) w)) g = F w g" for u w using assms(2) by blast
  have "snd (sh C args w) = snd (exec C args w)" for args by (simp add: sh_def split: prod.split sum.split)
  then show "F (snd (sh C (''systemctl'' # u) w)) g = F w g" by (simp add: e)
  show "F (svcActive C unit w) g = F w g" unfolding svcActive_def by (rule e)
qed

lemma write_config_view:
  assumes "config_ok C F" and "write_config C path text w = (r, w')"
  shows "r = Inl ConfigNotWritten \<or> r = Inr () \<and> F w' path = Some (text @ nl)" and "g \<noteq> path \<Longrightarrow> F w' g = F w g"
proof -
  obtain ok1 w1 where m: "MkdirAll C (path_Dir path) w = (ok1, w1)" by fastforce
  obtain ok2 w2 where w2: "WriteFile C path (text @ nl) w1 = (ok2, w2)" by fastforce
  from assms(1) have "\<forall>d w. F (snd (MkdirAll C d w)) = F w" unfolding config_ok_def by blast
  from this [THEN spec, THEN spec, of "path_Dir path" w] have "F w1 = F w" by (simp add: m)
  with assms(2) m w2 config_write [OF assms(1) w2]
  show "r = Inl ConfigNotWritten \<or> r = Inr () \<and> F w' path = Some (text @ nl)" "g \<noteq> path \<Longrightarrow> F w' g = F w g"
    by (auto simp: write_config_def split: if_splits bool.splits)
qed

lemma install_unit_view:
  assumes "config_ok C F" and "install_unit C path text w = (r, w')"
  shows "r = Inl UnitNotWritten \<or> r = Inr ()" and "g \<noteq> path \<Longrightarrow> F w' g = F w g"
proof -
  from assms(2) show "r = Inl UnitNotWritten \<or> r = Inr ()"
    by (auto simp: install_unit_def split: option.splits prod.splits if_splits)
  assume "g \<noteq> path"
  with assms(2) config_write(2) [OF assms(1)] show "F w' g = F w g"
    by (auto simp: install_unit_def split: option.splits prod.splits if_splits)
qed

lemma start_unit_view:
  assumes "config_ok C F" and "start_unit C unit w = (r, w')"
  shows "r = Inr () \<or> (\<exists>c. r = Inl (CtlCommand c))" and "under_krot g \<Longrightarrow> F w' g = F w g"
proof -
  obtain r1 w1 where s1: "sh C [''systemctl'', ''daemon-reload''] w = (r1, w1)" by fastforce
  obtain r2 w2 where s2: "sh C [''systemctl'', ''enable'', unit] w1 = (r2, w2)" by fastforce
  obtain r3 w3 where s3: "sh C [''systemctl'', ''restart'', unit] w2 = (r3, w3)" by fastforce
  note def = start_unit_def os_then_def Let_def s1 s2 s3
  have err: "r' = Inr () \<or> (\<exists>c. r' = Inl (CtlCommand c))" if "sh C args v = (r', v')" for args v r' v'
    using that by (auto simp: sh_def split: prod.splits sum.splits)
  from assms(2) err [OF s1] err [OF s3] show "r = Inr () \<or> (\<exists>c. r = Inl (CtlCommand c))"
    by (auto simp: def)
  assume g: "under_krot g"
  note v = config_systemctl [OF assms(1) g]
  have "F w1 g = F w g" "F w2 g = F w1 g" "F w3 g = F w2 g"
    using v(1) [of "[''daemon-reload'']" w] v(1) [of "[''enable'', unit]" w1] v(1) [of "[''restart'', unit]" w2]
    by (simp_all add: s1 s2 s3)
  with assms(2) v(2) err [OF s1] err [OF s3] show "F w' g = F w g" by (auto simp: def)
qed

section \<open>Bringing up is all or nothing in the configuration\<close>

lemma LoadClientFile_written:
  assumes "config_ok C F" and "F w path = Some text" and "unmarshal_client J text = Some cfg"
  shows "LoadClientFile J C path w = LoadClient (Inr cfg)"
  using assms unfolding config_ok_def by (simp add: LoadClientFile_def loadJSON_def)

lemma LoadClient_Inr: "LoadClient (Inr cfg) = Inr c \<Longrightarrow> c = Client_applyDefaults cfg"
  by (auto simp: LoadClient_def try_bind_Inr_iff Let_def split: if_splits)

lemma LoadClientFile_same:
  assumes "config_ok C F" and "F w path = F w' path"
  shows "LoadClientFile J C path w = LoadClientFile J C path w'"
  using assms unfolding config_ok_def by (simp add: LoadClientFile_def loadJSON_def)

lemma clientUp_cases:
  assumes "config_ok C F" and "flag_parse client_flags args = Inr fs" and "client_up_checks C fs w = None"
    and "unmarshal_client J (marshal_client J (client_up_cfg fs) @ nl) = Some (client_up_cfg fs)"
    and "clientUp J C args w = (r, w')"
  defines "path \<equiv> clientCfgPath (flag_str fs ''name'')"
  shows "(r = Inl ConfigNotWritten
          \<or> (\<exists>e. LoadClient (Inr (client_up_cfg fs)) = Inl e \<and> r = Inl (ConfigRejected e) \<and> F w' path = None)
          \<or> (\<exists>c. LoadClient (Inr (client_up_cfg fs)) = Inr c \<and> LoadClientFile J C path w' = Inr c
               \<and> (r = Inr () \<or> r = Inl UnitNotWritten \<or> (\<exists>a. r = Inl (CtlCommand a)))))
      \<and> (\<forall>g. under_krot g \<and> g \<noteq> path \<longrightarrow> F w' g = F w g)"
proof -
  let ?cfg = "client_up_cfg fs"
  obtain r1 w1 where w1: "writeClientConfig J C path ?cfg w = (r1, w1)" by fastforce
  have up: "clientUp J C args w =
      os_then (r1, w1) (\<lambda>_ w1.
        case LoadClientFile J C path w1 of
          Inl e \<Rightarrow> (Inl (ConfigRejected e), snd (Remove C path w1))
        | Inr _ \<Rightarrow> os_then (installClientUnitTemplate C w1) (\<lambda>_ w2.
            if flag_bool fs ''no-start'' then (Inr (), w2)
            else start_unit C (clientUnit (flag_str fs ''name'')) w2))"
    by (simp add: clientUp_def assms(2,3) path_def [symmetric] w1 Let_def)
  note v1 = write_config_view [OF assms(1) w1 [unfolded writeClientConfig_def]]
  have p: "under_krot path" by (simp add: path_def)
  from v1(1) show ?thesis
  proof (elim disjE conjE)
    assume "r1 = Inl ConfigNotWritten"
    with up assms(5) v1(2) show ?thesis by auto
  next
    assume r1: "r1 = Inr ()" and "F w1 path = Some (marshal_client J ?cfg @ nl)"
    then have ld: "LoadClientFile J C path w1 = LoadClient (Inr ?cfg)"
      using LoadClientFile_written [OF assms(1)] assms(4) by blast
    show ?thesis
    proof (cases "LoadClient (Inr ?cfg)")
      case (Inl e)
      with up assms(5) r1 ld have "r = Inl (ConfigRejected e)" "w' = snd (Remove C path w1)" by auto
      moreover from assms(1) have "F (snd (Remove C path w1)) = (F w1)(path := None)"
        unfolding config_ok_def by blast
      ultimately show ?thesis using v1(2) Inl by simp
    next
      case (Inr c)
      obtain r2 w2 where w2: "installClientUnitTemplate C w1 = (r2, w2)" by fastforce
      obtain r3 w3 where w3: "start_unit C (clientUnit (flag_str fs ''name'')) w2 = (r3, w3)" by fastforce
      note v2 = install_unit_view [OF assms(1) w2 [unfolded installClientUnitTemplate_def]]
      note v3 = start_unit_view [OF assms(1) w3]
      from up assms(5) r1 ld Inr w2 w3 v2(1)
      have r: "r = Inl UnitNotWritten \<and> w' = w2 \<or> r = Inr () \<and> w' = w2 \<or> r = r3 \<and> w' = w3"
        by (auto split: if_splits)
      have same: "F w' g = F w1 g" if "under_krot g" for g
      proof -
        from that have "g \<noteq> clientUnitTemplatePath" by auto
        with r v2(2) v3(2) that show ?thesis by auto
      qed
      then have "LoadClientFile J C path w' = Inr c"
        using LoadClientFile_same [OF assms(1)] ld Inr p by metis
      with r v3(1) same v1(2) Inr show ?thesis by auto
    qed
  qed
qed

text \<open>C33. What client up leaves behind. A failed check changes nothing. Otherwise, whatever happens, no
  file of another instance changes, and one of three things is true: the configuration could not
  be written; the loader refuses it and the instance has no file at all, also when -force
  replaced a file that worked; or the file loads as the flags with the defaults filled in. In
  particular, when the command reports success, client run on that file runs the client with
  exactly this configuration.\<close>

theorem client_up_outcome:
  assumes "config_ok C F" and "flag_parse client_flags args = Inr fs"
    and "unmarshal_client J (marshal_client J (client_up_cfg fs) @ nl) = Some (client_up_cfg fs)"
    and "clientUp J C args w = (r, w')" and "path = clientCfgPath (flag_str fs ''name'')"
  shows "(\<forall>e. client_up_checks C fs w = Some e \<longrightarrow> r = Inl e \<and> w' = w)
    \<and> (\<forall>g. under_krot g \<and> g \<noteq> path \<longrightarrow> F w' g = F w g)
    \<and> (client_up_checks C fs w = None \<longrightarrow>
         r = Inl ConfigNotWritten
         \<or> (\<exists>e. r = Inl (ConfigRejected e) \<and> F w' path = None)
         \<or> LoadClientFile J C path w' = Inr (Client_applyDefaults (client_up_cfg fs)))
    \<and> (r = Inr () \<longrightarrow>
         fst (clientRun P J C E da go [''-config'', path] w')
           = (case fst (Run P E da go (Client_applyDefaults (client_up_cfg fs)) w') of
                Inl e \<Rightarrow> Inl (RunFailed e) | Inr _ \<Rightarrow> Inr ()))"
proof (cases "client_up_checks C fs w")
  case (Some e)
  with assms(2,4) show ?thesis by (auto simp: clientUp_def)
next
  case None
  note c = clientUp_cases [OF assms(1,2) None assms(3,4), folded assms(5)]
  have ne: "path \<noteq> []" by (simp add: assms(5) clientCfgPath_def)
  have "flag_parse [(''config'', FStr [])] [''-config'', path] = Inr [(''config'', FStr path)]"
    using flag_parse_string [of "''config''" "[(''config'', FStr [])]" "[]" path "[]"] by (simp add: plain_name_def)
  then have run: "fst (clientRun P J C E da go [''-config'', path] w')
      = (case fst (Run P E da go cfg w') of Inl e \<Rightarrow> Inl (RunFailed e) | Inr _ \<Rightarrow> Inr ())"
    if "LoadClientFile J C path w' = Inr cfg" for cfg
    using that ne by (simp add: clientRun_def flag_str_def split: prod.split sum.split)
  from c run LoadClient_Inr [of "client_up_cfg fs"] None show ?thesis by (auto 0 4)
qed

section \<open>The printed credentials open the server\<close>

lemma genSecrets_Inr:
  assumes "genSecrets P psk rnd pr = Inr gen"
  obtains kp where "GenerateKeypair P rnd = Inr kp" "sec_PSK gen = StdEncodeToString psk"
    "sec_Priv gen = StdEncodeToString (Private kp)" "sec_Pub gen = StdEncodeToString (Public kp)"
    "sec_Path gen = ''/api/v2/'' @ RawURLEncodeToString pr"
  using assms by (auto simp: genSecrets_def try_bind_Inr_iff)

lemma derivePub_Inr: "derivePub P priv = Inr s \<longleftrightarrow> (\<exists>pub. PublicFromPrivate P priv = Inr pub \<and> s = StdEncodeToString pub)"
  by (auto simp: derivePub_def try_bind_Inr_iff)

text \<open>What a serverUp that reports credentials has gone through.\<close>

lemma serverUp_Inr:
  assumes "config_ok C F" and "flag_parse server_flags args = Inr fs"
    and "serverUp P J C psk rnd pr args w = (Inr (path, pskv, pubv), w')"
  obtains gen priv pub where "genSecrets P psk rnd pr = Inr gen"
    "path = sec_Path gen" "pskv = s_PSK (server_up_cfg fs gen)"
    "DecodeKey32 (s_ServerPriv (server_up_cfg fs gen)) = Inr priv"
    "PublicFromPrivate P priv = Inr pub" "pubv = StdEncodeToString pub"
    "(flag_str fs ''cert'' = []) = (flag_str fs ''key'' = [])"
    "F w' serverCfgPath = Some (marshal_server J (server_up_cfg fs gen) @ nl)"
proof -
  note up = assms(3)
  from up assms(2) have c: "(flag_str fs ''cert'' = []) = (flag_str fs ''key'' = [])"
    by (auto simp: serverUp_def split: if_splits)
  from up assms(2) obtain gen where gen: "genSecrets P psk rnd pr = Inr gen"
    by (auto simp: serverUp_def split: if_splits sum.splits)
  let ?cfg = "server_up_cfg fs gen"
  from up assms(2) gen obtain priv where priv: "DecodeKey32 (s_ServerPriv ?cfg) = Inr priv"
    by (auto simp: serverUp_def Let_def split: if_splits sum.splits)
  from up assms(2) gen priv obtain s where s: "derivePub P priv = Inr s"
    by (auto simp: serverUp_def Let_def split: if_splits sum.splits)
  obtain r1 w1 where w1: "writeServerConfig J C ?cfg w = (r1, w1)" by fastforce
  obtain r2 w2 where w2: "installServerUnit C w1 = (r2, w2)" by fastforce
  obtain r3 w3 where w3: "start_unit C serverUnit w2 = (r3, w3)" by fastforce
  from up assms(2) gen priv s w1 w2 w3
  have "os_then (r1, w1) (\<lambda>_ w1. os_then (r2, w2) (\<lambda>_ w2.
      if flag_bool fs ''no-start'' then (Inr (s_Path ?cfg, s_PSK ?cfg, s), w2)
      else os_then (r3, w3) (\<lambda>_ w3. (Inr (s_Path ?cfg, s_PSK ?cfg, s), w3))))
      = (Inr (path, pskv, pubv), w')"
    by (cases r1; cases r2) (auto simp: serverUp_def Let_def split: if_splits)
  then have r: "r1 = Inr ()" "r2 = Inr ()" "path = s_Path ?cfg" "pskv = s_PSK ?cfg" "pubv = s" "w' = w2 \<or> w' = w3"
    by (cases r1; cases r2; cases r3; auto split: if_splits)+
  note v1 = write_config_view(1) [OF assms(1) w1 [unfolded writeServerConfig_def]]
  note v2 = install_unit_view(2) [OF assms(1) w2 [unfolded installServerUnit_def]]
  note v3 = start_unit_view(2) [OF assms(1) w3]
  have paths: "serverCfgPath \<noteq> serverUnitPath" by (simp add: serverCfgPath_def serverUnitPath_def)
  have "F w' serverCfgPath = F w1 serverCfgPath"
    using r(6) v2 [OF paths] v3 [OF under_krot_simps(2)] by auto
  with v1 r(1) have F: "F w' serverCfgPath = Some (marshal_server J ?cfg @ nl)" by simp
  from s obtain pub where "PublicFromPrivate P priv = Inr pub" "s = StdEncodeToString pub"
    by (auto simp: derivePub_Inr)
  with gen r priv c F show thesis by (intro that [of gen priv pub]) (simp_all add: server_up_cfg_def)
qed

lemma LoadServer_Inr:
  "LoadServer (Inr cfg) = Inr c \<longleftrightarrow> c = Server_applyDefaults cfg
     \<and> (\<exists>k. DecodePSK (s_PSK c) = Inr k) \<and> (\<exists>k. DecodeKey32 (s_ServerPriv c) = Inr k)
     \<and> (s_SelfSigned c \<or> s_CertFile c \<noteq> [] \<and> s_KeyFile c \<noteq> [])"
  by (auto simp: LoadServer_def try_bind_Inr_iff Let_def split: if_splits)

lemma Server_applyDefaults_keeps [simp]:
  "s_PSK (Server_applyDefaults c) = s_PSK c" "s_ServerPriv (Server_applyDefaults c) = s_ServerPriv c"
  "s_SelfSigned (Server_applyDefaults c) = s_SelfSigned c" "s_CertFile (Server_applyDefaults c) = s_CertFile c"
  "s_KeyFile (Server_applyDefaults c) = s_KeyFile c"
  "s_Path c \<noteq> [] \<Longrightarrow> s_Path (Server_applyDefaults c) = s_Path c"
  by (simp_all add: Server_applyDefaults_def Let_def)

lemma server_New_keys:
  assumes "server_New P cfg os = (Inr sv, eff)"
  shows "DecodePSK (s_PSK cfg) = Inr (sv_psk sv)" "DecodeKey32 (s_ServerPriv cfg) = Inr (Private (sv_static sv))"
    "PublicFromPrivate P (Private (sv_static sv)) = Inr (Public (sv_static sv))"
  using assms by (auto simp: server_New_def split: sum.splits option.splits if_splits)

text \<open>C34. The credentials that server up prints fit the server it has set up. The file it wrote loads,
  unless the operator passed a PSK that is none or switched the self-signed certificate off
  without giving one, which the command does not check; and when the server starts from it, a
  client with the printed path, PSK and public key belongs to its handler, whether the
  secrets were generated or given.\<close>

theorem server_up_credentials:
  assumes "config_ok C F" and "flag_parse server_flags args = Inr fs"
    and "\<And>gen. genSecrets P psk rnd pr = Inr gen \<Longrightarrow>
      unmarshal_server J (marshal_server J (server_up_cfg fs gen) @ nl) = Some (server_up_cfg fs gen)"
    and "serverUp P J C psk rnd pr args w = (Inr (path, pskv, pubv), w')"
  shows "((\<exists>cfg. LoadServerFile J C serverCfgPath w' = Inr cfg) \<longleftrightarrow>
            (\<exists>k. DecodePSK pskv = Inr k) \<and> (flag_bool fs ''self-signed'' \<or> flag_str fs ''cert'' \<noteq> []))
    \<and> (\<forall>cfg sv eff h ccfg k p.
         LoadServerFile J C serverCfgPath w' = Inr cfg \<longrightarrow> server_New P cfg os = (Inr sv, eff)
         \<longrightarrow> server_handler url_Parse cfg sv = Inr h
         \<longrightarrow> c_Path ccfg = path \<longrightarrow> DecodePSK pskv = Inr k \<longrightarrow> DecodeKey32 pubv = Inr p
         \<longrightarrow> belongs P (run_dial_config ccfg k p) (h_cfg h))"
proof -
  obtain gen priv pub where g: "genSecrets P psk rnd pr = Inr gen" "path = sec_Path gen"
    "pskv = s_PSK (server_up_cfg fs gen)" "DecodeKey32 (s_ServerPriv (server_up_cfg fs gen)) = Inr priv"
    "PublicFromPrivate P priv = Inr pub" "pubv = StdEncodeToString pub"
    "(flag_str fs ''cert'' = []) = (flag_str fs ''key'' = [])"
    "F w' serverCfgPath = Some (marshal_server J (server_up_cfg fs gen) @ nl)"
    using serverUp_Inr [OF assms(1,2,4)] by blast
  let ?cfg = "server_up_cfg fs gen"
  have path: "path = ''/api/v2/'' @ RawURLEncodeToString pr" using genSecrets_Inr [OF g(1)] g(2) by metis
  have ld: "LoadServerFile J C serverCfgPath w' = LoadServer (Inr ?cfg)"
    using assms(1) g(8) assms(3) [OF g(1)] unfolding config_ok_def by (simp add: LoadServerFile_def loadJSON_def)
  have sel: "s_PSK ?cfg = pskv" "s_Path ?cfg = path" "s_CertFile ?cfg = flag_str fs ''cert''"
    "s_KeyFile ?cfg = flag_str fs ''key''"
    "s_SelfSigned ?cfg = (flag_bool fs ''self-signed'' \<and> flag_str fs ''cert'' = [] \<and> flag_str fs ''key'' = [])"
    using g(2,3) by (simp_all add: server_up_cfg_def)
  have "(\<exists>cfg. LoadServerFile J C serverCfgPath w' = Inr cfg) \<longleftrightarrow>
      (\<exists>k. DecodePSK pskv = Inr k) \<and> (flag_bool fs ''self-signed'' \<or> flag_str fs ''cert'' \<noteq> [])"
    using g(4,7) by (auto simp: ld LoadServer_Inr sel)
  moreover have "belongs P (run_dial_config ccfg k p) (h_cfg h)"
    if a: "LoadServerFile J C serverCfgPath w' = Inr cfg" "server_New P cfg os = (Inr sv, eff)"
      "server_handler url_Parse cfg sv = Inr h" "c_Path ccfg = path" "DecodePSK pskv = Inr k" "DecodeKey32 pubv = Inr p"
    for cfg sv eff h ccfg k p
  proof -
    from a(1) have c: "cfg = Server_applyDefaults ?cfg" by (simp add: ld LoadServer_Inr)
    have ne: "path \<noteq> []" "hd path = CHR ''/''" by (simp_all add: path)
    note n = server_New_keys [OF a(2)]
    note h = NewHandler_Inr [OF a(3) [unfolded server_handler_def]]
    from n(1) c sel(1) a(5) have k: "sv_psk sv = k" by simp
    from n(2) c g(4) have "Private (sv_static sv) = priv" by simp
    with n(3) g(5) have pub: "Public (sv_static sv) = pub" "PublicFromPrivate P (Private (sv_static sv)) = Inr pub" by auto
    from a(6) g(6) have p: "p = pub" by (simp add: DecodeKey32_Inr)
    have "s_Path cfg = path" using c sel(2) ne by simp
    with a(4) h(5-7) k pub p ne show ?thesis
      by (simp add: belongs_def run_dial_config_def wire_path_def)
  qed
  ultimately show ?thesis by blast
qed

lemma Std_Nil_iff [simp]: "StdEncodeToString b = [] \<longleftrightarrow> b = []"
  by (cases "(std_alphabet, True, b)" rule: b64_encode.cases) (auto simp: StdEncodeToString_def)

lemma RawURL_inj: "RawURLEncodeToString a = RawURLEncodeToString b \<longleftrightarrow> a = b"
  by (metis RawURL_round_trip option.inject)

text \<open>C35. The credentials that keygen prints do not fit the server that the command it prints brings
  up: that server has the PSK and the key pair, but a path of its own, and a client with
  the path of keygen (the one in its client template) belongs to it only if two draws of
  random bytes agree.\<close>

theorem keygen_path_is_lost:
  assumes "config_ok C F" and "genSecrets P psk rnd pr = Inr s" and "length psk = KeySize"
    and "serverUp P J C psk' rnd' pr' (keygen_server_args s) w = (Inr (path, pskv, pubv), w')"
  shows "pskv = sec_PSK s \<and> pubv = sec_Pub s \<and> (path = sec_Path s \<longleftrightarrow> pr' = pr)"
proof -
  have pl: "plain_name ''psk''" "plain_name ''priv''" by (simp_all add: plain_name_def)
  have d: "map_of server_flags ''psk'' = Some (FStr [])"
    "map_of (AList.update ''psk'' (FStr (sec_PSK s)) server_flags) ''priv'' = Some (FStr [])"
    by (simp_all add: server_flags_def)
  define fs where "fs = AList.update ''priv'' (FStr (sec_Priv s)) (AList.update ''psk'' (FStr (sec_PSK s)) server_flags)"
  have parse: "flag_parse server_flags (keygen_server_args s) = Inr fs"
    unfolding keygen_server_args_def
    using flag_parse_string [OF pl(1) d(1), of "sec_PSK s" "[''-priv'', sec_Priv s]"]
      flag_parse_string [OF pl(2) d(2), of "sec_Priv s" "[]"]
    by (simp add: fs_def)
  obtain kp where kp: "GenerateKeypair P rnd = Inr kp" "sec_PSK s = StdEncodeToString psk"
    "sec_Priv s = StdEncodeToString (Private kp)" "sec_Pub s = StdEncodeToString (Public kp)"
    "sec_Path s = ''/api/v2/'' @ RawURLEncodeToString pr"
    using genSecrets_Inr [OF assms(2)] by blast
  obtain gen priv pub where g: "genSecrets P psk' rnd' pr' = Inr gen" "path = sec_Path gen"
    "pskv = s_PSK (server_up_cfg fs gen)" "DecodeKey32 (s_ServerPriv (server_up_cfg fs gen)) = Inr priv"
    "PublicFromPrivate P priv = Inr pub" "pubv = StdEncodeToString pub"
    using serverUp_Inr [OF assms(1) parse assms(4)] by blast
  have path: "path = ''/api/v2/'' @ RawURLEncodeToString pr'" using genSecrets_Inr [OF g(1)] g(2) by metis
  have fl: "flag_str fs ''psk'' = sec_PSK s" "flag_str fs ''priv'' = sec_Priv s"
    by (simp_all add: fs_def flag_str_def AList.update_conv')
  have dec: "DecodeKey32 (sec_Priv s) = Inr (Private kp)" "sec_Priv s \<noteq> []"
    using kp(3) GenerateKeypair_lengths [OF kp(1)] by (auto simp: DecodeKey32_Inr KeySize_def)
  have "pskv = (if sec_PSK s = [] then sec_PSK gen else sec_PSK s)" "priv = Private kp"
    using g(3,4) dec by (simp_all add: server_up_cfg_def fl)
  moreover have "sec_PSK s \<noteq> []"
    using assms(3) kp(2) by (auto simp: KeySize_def)
  moreover have "pubv = sec_Pub s"
    using g(5,6) GenerateKeypair_public [OF kp(1)] kp(4) \<open>priv = Private kp\<close> by simp
  moreover have "path = sec_Path s \<longleftrightarrow> pr' = pr" by (simp add: path kp(5) RawURL_inj)
  ultimately show ?thesis by simp
qed

section \<open>The main table\<close>

text \<open>The number derived for an instance can be that of a table the system uses: a SOCKS client named
  node3 gets 254, the main table. Its setup replaces the default route of the host, and its
  teardown empties the main table, so the host is left without any route.\<close>

theorem main_table_flushed:
  assumes "policy_ok S T U" and "c_SocksTable cfg = tableFor ''node3''"
    and "SetupSourceRoute S src tun (c_SocksTable cfg) w = (Inr rs, w')"
  shows "T w' ''254'' ''default'' = Some [''dev'', tun, ''src'', src]
    \<and> T (snd (SrcRouteState_Teardown S rs w')) ''254'' = Map.empty"
proof -
  have t: "c_SocksTable cfg = ''254''" "src_table ''254'' = ''254''"
    by (simp_all add: assms(2) table_node3 src_table_def)
  from source_route_view [OF assms(1) t(2), where src = src and tun = tun and w = w] assms(3) [unfolded t(1)]
  show ?thesis by (simp add: case_prod_beta Let_def)
qed

section \<open>A host for krotctl\<close>

definition sample_ctl :: "host ctl_system" where
  "sample_ctl = \<lparr>exec = host_exec, ReadFile = (\<lambda>f h. h_files h f),
     WriteFile = (\<lambda>f d h. (True, h\<lparr>h_files := (h_files h)(f \<mapsto> d)\<rparr>)),
     Remove = (\<lambda>f h. (h_files h f \<noteq> None, h\<lparr>h_files := (h_files h)(f := None)\<rparr>)),
     Stat = (\<lambda>f h. h_files h f \<noteq> None), MkdirAll = (\<lambda>_ h. (True, h)), RemoveAll = (\<lambda>_ h. (True, h)),
     Glob = (\<lambda>_ _. [clientCfgPath ''default'', clientCfgPath [], clientCfgPath ''office'']), Geteuid = 0,
     Executable = Some ''/usr/local/bin/krotctl'', EvalSymlinks = (\<lambda>_. None)\<rparr>"

lemma sample_ctl_simps [simp]:
  "exec sample_ctl = host_exec" "ReadFile sample_ctl f h = h_files h f"
  "WriteFile sample_ctl f d h = (True, h\<lparr>h_files := (h_files h)(f \<mapsto> d)\<rparr>)"
  "Remove sample_ctl f h = (h_files h f \<noteq> None, h\<lparr>h_files := (h_files h)(f := None)\<rparr>)"
  "Stat sample_ctl f h = (h_files h f \<noteq> None)" "MkdirAll sample_ctl f h = (True, h)" "Geteuid sample_ctl = 0"
  "Executable sample_ctl = Some ''/usr/local/bin/krotctl''"
  "Glob sample_ctl g h = [clientCfgPath ''default'', clientCfgPath [], clientCfgPath ''office'']"
  by (simp_all add: sample_ctl_def)

lemma systemctl_host [simp]: "host_exec (''systemctl'' # u) h = (Inr [], h)"
  by (simp add: host_exec_def Let_def take_Cons' drop_Cons')

lemma sample_config_ok: "config_ok sample_ctl h_files"
  by (simp add: config_ok_def writes_file_def)

theorem discovered_instances_witness:
  "discoverClientInstances sample_ctl fresh_host = [''default'', ''office'']"
proof -
  have "Glob sample_ctl ''/etc/krot/client-*.json'' fresh_host = map clientCfgPath [''default'', [], ''office'']" by simp
  from discovered_instances [OF this] show ?thesis by (simp add: numeral_eq_Suc)
qed

theorem main_table_flushed_witness:
  "case SetupSourceRoute sample_system ''10.8.0.2'' ''krot0'' (tableFor ''node3'') fresh_host of
     (Inl e, h) \<Rightarrow> False
   | (Inr rs, h) \<Rightarrow> h_tables (snd (SrcRouteState_Teardown sample_system rs h)) ''254'' = Map.empty"
proof -
  define cfg where "cfg = sample_client_cfg\<lparr>c_SocksTable := tableFor ''node3''\<rparr>"
  have c: "c_SocksTable cfg = tableFor ''node3''" by (simp add: cfg_def)
  obtain r h where r: "SetupSourceRoute sample_system ''10.8.0.2'' ''krot0'' (c_SocksTable cfg) fresh_host = (r, h)"
    by fastforce
  then have "\<not> isl r"
    by (auto simp: c table_node3 SetupSourceRoute_def loose_rp_def run_def host_exec_def src_table_def Let_def)
  then obtain rs where "r = Inr rs" by (cases r) auto
  with main_table_flushed [OF sample_policy_ok c] r c show ?thesis by simp
qed

section \<open>A server and a client set up with it\<close>

definition sample_gen :: secrets where
  "sample_gen = \<lparr>sec_PSK = StdEncodeToString (sample_key 5), sec_Priv = StdEncodeToString (sample_key 3),
     sec_Pub = StdEncodeToString (sample_key 12), sec_Path = ''/api/v2/'' @ RawURLEncodeToString (replicate 6 1)\<rparr>"

lemma sample_genSecrets: "genSecrets sample_prims (sample_key 5) (Some (sample_key 3)) (replicate 6 1) = Inr sample_gen"
  using sample_keypair [of 3] by (simp add: genSecrets_def sample_gen_def)

definition sample_up_args :: "string list" where
  "sample_up_args = [''-server'', ''5.5.5.5'', ''-sni'', ''a.example'', ''-path'', ''/ws'',
     ''-psk'', StdEncodeToString (sample_key 5), ''-server-pub'', StdEncodeToString (sample_key 12)]"

definition sample_up_flags :: flags where
  "sample_up_flags =
     AList.update ''server-pub'' (FStr (StdEncodeToString (sample_key 12)))
     (AList.update ''psk'' (FStr (StdEncodeToString (sample_key 5)))
     (AList.update ''path'' (FStr ''/ws'') (AList.update ''sni'' (FStr ''a.example'')
     (AList.update ''server'' (FStr ''5.5.5.5'') client_flags))))"

definition sample_json :: json_codec where
  "sample_json = \<lparr>marshal_client = (\<lambda>_. ''{}''), unmarshal_client = (\<lambda>_. Some (client_up_cfg sample_up_flags)),
     marshal_server = (\<lambda>_. ''{}''), unmarshal_server = (\<lambda>_. Some (server_up_cfg server_flags sample_gen))\<rparr>"

lemma client_flags_kinds [simp]:
  "flag_kind client_flags ''name'' = Some 0" "flag_kind client_flags ''mode'' = Some 0"
  "flag_kind client_flags ''server'' = Some 0" "flag_kind client_flags ''port'' = Some 1"
  "flag_kind client_flags ''sni'' = Some 0" "flag_kind client_flags ''path'' = Some 0"
  "flag_kind client_flags ''psk'' = Some 0" "flag_kind client_flags ''server-pub'' = Some 0"
  "flag_kind client_flags ''insecure'' = Some 2" "flag_kind client_flags ''mtu'' = Some 1"
  "flag_kind client_flags ''channels'' = Some 1" "flag_kind client_flags ''socks'' = Some 0"
  "flag_kind client_flags ''force'' = Some 2"
  by (simp_all add: flag_kind_def client_flags_def)

lemma sample_up_parse: "flag_parse client_flags sample_up_args = Inr sample_up_flags"
  by (simp add: sample_up_args_def sample_up_flags_def flag_reads)

lemma sample_up_checks: "client_up_checks sample_ctl sample_up_flags fresh_host = None"
  by (simp add: client_up_checks_def sample_up_flags_def client_flags_def flag_str_def flag_bool_def
      AList.update_conv' fresh_host_def clientCfgPath_def resolv_def sample_key_def)

theorem client_up_outcome_witness:
  "\<exists>w'. clientUp sample_json sample_ctl sample_up_args fresh_host = (Inr (), w')
     \<and> LoadClientFile sample_json sample_ctl (clientCfgPath ''default'') w'
         = Inr (Client_applyDefaults (client_up_cfg sample_up_flags))"
proof -
  define fs where "fs = sample_up_flags"
  have j: "unmarshal_client sample_json (marshal_client sample_json (client_up_cfg fs) @ nl) = Some (client_up_cfg fs)"
    by (simp add: sample_json_def fs_def)
  note p = sample_up_parse [folded fs_def] and k = sample_up_checks [folded fs_def]
  obtain r w' where up: "clientUp sample_json sample_ctl sample_up_args fresh_host = (r, w')" by fastforce
  have "DecodePSK (StdEncodeToString (sample_key 5)) = Inr (sample_key 5)"
    "DecodeKey32 (StdEncodeToString (sample_key 12)) = Inr (sample_key 12)"
    by (simp_all add: DecodePSK_Inr DecodeKey32_Inr sample_key_def KeySize_def)
  moreover have "c_PSK (client_up_cfg fs) = StdEncodeToString (sample_key 5)"
    "c_ServerPub (client_up_cfg fs) = StdEncodeToString (sample_key 12)"
    "c_ServerIP (client_up_cfg fs) = ''5.5.5.5''" "c_SNI (client_up_cfg fs) = ''a.example''"
    by (simp_all add: fs_def client_up_cfg_def Let_def sample_up_flags_def client_flags_def flag_str_def
        AList.update_conv')
  moreover have "c_PSK (Client_applyDefaults c) = c_PSK c" "c_ServerPub (Client_applyDefaults c) = c_ServerPub c"
    "c_ServerIP (Client_applyDefaults c) = c_ServerIP c" "c_SNI (Client_applyDefaults c) = c_SNI c" for c
    by (simp_all add: Client_applyDefaults_def Let_def)
  ultimately have ld: "LoadClient (Inr (client_up_cfg fs)) = Inr (Client_applyDefaults (client_up_cfg fs))"
    by (simp add: LoadClient_def Let_def)
  have "r = Inr ()"
    using up p k ld j by (auto simp: clientUp_def writeClientConfig_def write_config_def LoadClientFile_def loadJSON_def
        installClientUnitTemplate_def install_unit_def start_unit_def sh_def Let_def split: if_splits)
  moreover have "flag_str fs ''name'' = ''default''"
    by (simp add: fs_def sample_up_flags_def client_flags_def flag_str_def AList.update_conv')
  ultimately show ?thesis
    using client_up_outcome [OF sample_config_ok p j up refl] k up by (auto simp: fs_def)
qed

lemma sample_serverUp:
  assumes "flag_parse server_flags args = Inr fs" and "flag_str fs ''cert'' = []" and "flag_str fs ''key'' = []"
    and "genSecrets sample_prims psk rnd pr = Inr gen" and "s_ServerPriv (server_up_cfg fs gen) = StdEncodeToString (sample_key 3)"
  shows "\<exists>pubv w'. serverUp sample_prims J sample_ctl psk rnd pr args fresh_host
      = (Inr (sec_Path gen, s_PSK (server_up_cfg fs gen), pubv), w')"
proof -
  have "DecodeKey32 (StdEncodeToString (sample_key 3)) = Inr (sample_key 3)"
    by (simp add: DecodeKey32_Inr sample_key_def)
  moreover have "derivePub sample_prims (sample_key 3) = Inr (StdEncodeToString (sample_key 12))"
    using sample_public [of 3] by (simp add: derivePub_Inr)
  moreover have "h_files fresh_host serverCfgPath = None"
    by (simp add: fresh_host_def serverCfgPath_def resolv_def)
  moreover have "s_Path (server_up_cfg fs gen) = sec_Path gen" by (simp add: server_up_cfg_def)
  ultimately show ?thesis
    using assms by (simp add: serverUp_def writeServerConfig_def write_config_def
        installServerUnit_def install_unit_def start_unit_def sh_def Let_def)
qed

theorem server_up_credentials_witness:
  "\<exists>cfg w' v. serverUp sample_prims sample_json sample_ctl (sample_key 5) (Some (sample_key 3)) (replicate 6 1) [] fresh_host
       = (Inr v, w') \<and> LoadServerFile sample_json sample_ctl serverCfgPath w' = Inr cfg"
proof -
  have p: "flag_parse server_flags [] = Inr server_flags" by simp
  have fl: "flag_str server_flags ''cert'' = []" "flag_str server_flags ''key'' = []" "flag_str server_flags ''priv'' = []"
    "flag_str server_flags ''psk'' = []" "flag_bool server_flags ''self-signed''"
    by (simp_all add: flag_str_def flag_bool_def server_flags_def)
  have "s_ServerPriv (server_up_cfg server_flags sample_gen) = StdEncodeToString (sample_key 3)"
    "s_PSK (server_up_cfg server_flags sample_gen) = StdEncodeToString (sample_key 5)"
    by (simp_all add: server_up_cfg_def fl sample_gen_def)
  with sample_serverUp [OF p fl(1,2) sample_genSecrets, where J = sample_json] obtain pubv w' where
    up: "serverUp sample_prims sample_json sample_ctl (sample_key 5) (Some (sample_key 3)) (replicate 6 1) [] fresh_host
       = (Inr (sec_Path sample_gen, StdEncodeToString (sample_key 5), pubv), w')" by auto
  have j: "genSecrets sample_prims (sample_key 5) (Some (sample_key 3)) (replicate 6 1) = Inr gen \<Longrightarrow>
      unmarshal_server sample_json (marshal_server sample_json (server_up_cfg server_flags gen) @ nl)
        = Some (server_up_cfg server_flags gen)" for gen
    using sample_genSecrets by (simp add: sample_json_def)
  have "\<exists>k. DecodePSK (StdEncodeToString (sample_key 5)) = Inr k" by (simp add: DecodePSK_Inr sample_key_def KeySize_def)
  with server_up_credentials [OF sample_config_ok p j up] fl(5) up show ?thesis by blast
qed

theorem keygen_path_is_lost_witness:
  "\<exists>path pskv pubv w'. serverUp sample_prims sample_json sample_ctl (sample_key 5) (Some (sample_key 3)) (replicate 6 2)
       (keygen_server_args sample_gen) fresh_host = (Inr (path, pskv, pubv), w')
     \<and> pskv = sec_PSK sample_gen \<and> path \<noteq> sec_Path sample_gen"
proof -
  define fs where "fs = AList.update ''priv'' (FStr (sec_Priv sample_gen)) (AList.update ''psk'' (FStr (sec_PSK sample_gen)) server_flags)"
  have "flag_kind server_flags ''psk'' = Some 0" "flag_kind server_flags ''priv'' = Some 0"
    by (simp_all add: flag_kind_def server_flags_def)
  then have p: "flag_parse server_flags (keygen_server_args sample_gen) = Inr fs"
    by (simp add: keygen_server_args_def fs_def flag_reads)
  have fl: "flag_str fs ''cert'' = []" "flag_str fs ''key'' = []"
    by (simp_all add: fs_def flag_str_def AList.update_conv' server_flags_def)
  obtain gen where gen: "genSecrets sample_prims (sample_key 5) (Some (sample_key 3)) (replicate 6 2) = Inr gen"
    using sample_keypair [of 3] by (simp add: genSecrets_def)
  have "sec_Priv sample_gen = StdEncodeToString (sample_key 3)" "StdEncodeToString (sample_key 3) \<noteq> []"
    by (simp_all add: sample_gen_def sample_key_def)
  then have "s_ServerPriv (server_up_cfg fs gen) = StdEncodeToString (sample_key 3)"
    by (simp add: server_up_cfg_def fs_def)
  from sample_serverUp [OF p fl gen this, where J = sample_json] obtain path pskv pubv w' where
    up: "serverUp sample_prims sample_json sample_ctl (sample_key 5) (Some (sample_key 3)) (replicate 6 2)
       (keygen_server_args sample_gen) fresh_host = (Inr (path, pskv, pubv), w')" by auto
  have l: "length (sample_key 5) = KeySize" by (simp add: sample_key_def KeySize_def)
  have "replicate 6 (2 :: byte) \<noteq> replicate 6 1" by (simp add: numeral_eq_Suc)
  with keygen_path_is_lost [OF sample_config_ok sample_genSecrets l up] up show ?thesis by blast
qed

end
