(* ===== verification/Krot_Daemon.thy ===== *)
theory Krot_Daemon
  imports Krot_Ctl Krot_Serving
begin

text \<open>
  The server as a process on a host: server.New with the commands it runs, Run up to the
  listener, Close, and what runs them, \<open>krotctl server run\<close> and cmd/krot-server. \<open>server_New\<close> of
  \<open>Krot_Server\<close> records the device effects; here they happen, and \<open>New_refines\<close> ties the two.
  The device is that of \<open>Krot_Client\<close>, a parameter on the host's state.
\<close>

section \<open>New\<close>

type_synonym running = "server_core \<times> string \<times> nat_state"

text \<open>A server that is up: its core, the name of its device and its rules.\<close>

definition server_New_host ::
  "prims \<Rightarrow> 'w client_env \<Rightarrow> server_cfg \<Rightarrow> 'w \<Rightarrow> (new_error + running) \<times> 'w" where
  "server_New_host P E cfg w =
     (case DecodePSK (s_PSK cfg) of Inl e \<Rightarrow> (Inl (NewConfig e), w)
      | Inr psk \<Rightarrow>
     (case DecodeKey32 (s_ServerPriv cfg) of Inl e \<Rightarrow> (Inl (NewConfig e), w)
      | Inr priv \<Rightarrow>
     (case PublicFromPrivate P priv of Inl e \<Rightarrow> (Inl (NewStatic e), w)
      | Inr pub \<Rightarrow>
     (case newIPPool (s_TunCIDR cfg) of Inl e \<Rightarrow> (Inl (NewPool e), w)
      | Inr pool \<Rightarrow>
     (case ParseCIDR (s_TunCIDR cfg) of None \<Rightarrow> (Inl NewCIDR, w)
      | Some (gwIP, _) \<Rightarrow>
     (case ce_tunOpen E (s_TunName cfg) w of
        (Inl _, w1) \<Rightarrow> (Inl NewTun, w1)
      | (Inr nm, w1) \<Rightarrow>
          os_else (Krot_Netif.IfUp (ce_sys E) nm (s_TunCIDR cfg) (s_MTU cfg) w1)
            (\<lambda>e w. (Inl NewIfUp, ce_devClose E nm w)) (\<lambda>_ w.
          os_else (SetupServerNAT (ce_sys E) nm (s_TunCIDR cfg) (s_WANIface cfg) w)
            (\<lambda>e w. (Inl NewNAT, ce_devClose E nm w)) (\<lambda>rules w.
          (Inr (\<lparr>sv_psk = psk, sv_static = \<lparr>Private = priv, Public = pub\<rparr>, sv_pool = pool,
                 sv_gw = IP_String gwIP\<rparr>, nm, rules), w)))))))))"

definition Server_Close :: "'w client_env \<Rightarrow> string \<Rightarrow> nat_state \<Rightarrow> 'w \<Rightarrow> 'w" where
  "Server_Close E nm rules w = ce_devClose E nm (snd (NATState_Teardown (ce_sys E) rules w))"

section \<open>Run\<close>

text \<open>Making or loading the certificate is a parameter: None when it fails.\<close>

record 'c certs =
  selfSignedCert :: "string \<Rightarrow> 'c option"
  LoadX509KeyPair :: "string \<Rightarrow> string \<Rightarrow> 'c option"

definition tlsConfig :: "'c certs \<Rightarrow> server_cfg \<Rightarrow> 'c option" where
  "tlsConfig T cfg =
     (if s_SelfSigned cfg then selfSignedCert T (s_SNI cfg) else LoadX509KeyPair T (s_CertFile cfg) (s_KeyFile cfg))"

datatype run_end = RunHandler handler_error | RunCertificate | RunListen | RunServed

text \<open>Run always ends with an error; \<open>serve\<close> is what happens while the listener is served.\<close>

definition server_Run ::
  "(string \<Rightarrow> 'u option) \<Rightarrow> 'c certs \<Rightarrow> (string \<Rightarrow> bool)
     \<Rightarrow> ('c \<Rightarrow> (ip_pool, 32 word, 'u) handler \<Rightarrow> 'w \<Rightarrow> 'w) \<Rightarrow> server_cfg \<Rightarrow> server_core \<Rightarrow> 'w \<Rightarrow> run_end \<times> 'w" where
  "server_Run url_Parse T listens serve cfg sv w =
     (case server_handler url_Parse cfg sv of
        Inl e \<Rightarrow> (RunHandler e, w)
      | Inr h \<Rightarrow>
     (case tlsConfig T cfg of
        None \<Rightarrow> (RunCertificate, w)
      | Some cert \<Rightarrow> if \<not> listens (s_Listen cfg) then (RunListen, w) else (RunServed, serve cert h w)))"

section \<open>The process\<close>

datatype serve_error = ServeFlags flag_error | ServeConfig config_error | ServeStartup new_error | ServeEnded run_end

text \<open>\<open>until\<close> is the wait for Run or a signal: how Run ended, or None for a signal, and the host then.\<close>

definition server_daemon ::
  "prims \<Rightarrow> 'w client_env \<Rightarrow> (server_cfg \<Rightarrow> server_core \<Rightarrow> 'w \<Rightarrow> run_end option \<times> 'w) \<Rightarrow> server_cfg \<Rightarrow> 'w
     \<Rightarrow> (serve_error + unit) \<times> 'w" where
  "server_daemon P E until cfg w =
     (case server_New_host P E cfg w of
        (Inl e, w1) \<Rightarrow> (Inl (ServeStartup e), w1)
      | (Inr (sv, nm, rules), w1) \<Rightarrow>
          (case until cfg sv w1 of
             (r, w2) \<Rightarrow> (case r of None \<Rightarrow> Inr () | Some e \<Rightarrow> Inl (ServeEnded e), Server_Close E nm rules w2)))"

definition serverRun ::
  "prims \<Rightarrow> json_codec \<Rightarrow> 'w ctl_system \<Rightarrow> 'w client_env
     \<Rightarrow> (server_cfg \<Rightarrow> server_core \<Rightarrow> 'w \<Rightarrow> run_end option \<times> 'w) \<Rightarrow> string list \<Rightarrow> 'w
     \<Rightarrow> (serve_error + unit) \<times> 'w" where
  "serverRun P J C E until args w =
     (case flag_parse [(''config'', FStr serverCfgPath)] args of
        Inl e \<Rightarrow> (Inl (ServeFlags e), w)
      | Inr fs \<Rightarrow>
     (case LoadServerFile J C (flag_str fs ''config'') w of
        Inl e \<Rightarrow> (Inl (ServeConfig e), w)
      | Inr cfg \<Rightarrow> server_daemon P E until cfg w))"

text \<open>The subcommands of krotctl server; \<open>status\<close>, which only prints, is an argument.\<close>

datatype server_cmd_error = ServerCtl ctl_error | ServerServe serve_error

definition cmdServer ::
  "prims \<Rightarrow> json_codec \<Rightarrow> 'w ctl_system \<Rightarrow> 'w client_env
     \<Rightarrow> (server_cfg \<Rightarrow> server_core \<Rightarrow> 'w \<Rightarrow> run_end option \<times> 'w)
     \<Rightarrow> bytes \<Rightarrow> bytes option \<Rightarrow> bytes \<Rightarrow> ('w \<Rightarrow> 'w) \<Rightarrow> string list \<Rightarrow> 'w \<Rightarrow> (server_cmd_error + unit) \<times> 'w" where
  "cmdServer P J C E until psk rnd pr status args w =
     (case args of
        [] \<Rightarrow> (Inl (ServerCtl NoSubcommand), w)
      | sub # rest \<Rightarrow>
          if sub = ''up'' then
            os_else (serverUp P J C psk rnd pr rest w) (\<lambda>e w. (Inl (ServerCtl e), w)) (\<lambda>_ w. (Inr (), w))
          else if sub = ''run'' then
            os_else (serverRun P J C E until rest w) (\<lambda>e w. (Inl (ServerServe e), w)) (\<lambda>_ w. (Inr (), w))
          else if sub = ''status'' then (Inr (), status w)
          else if sub = ''down'' then
            os_else (serverDown C w) (\<lambda>e w. (Inl (ServerCtl e), w)) (\<lambda>_ w. (Inr (), w))
          else (Inl (ServerCtl (UnknownSubcommand sub)), w))"

section \<open>The recorded effects are those of the host\<close>

lemma New_refines:
  "\<exists>os effs. server_New P cfg os = (map_sum id fst (fst (server_New_host P E cfg w)), effs)"
proof -
  obtain o1 w1 where o1: "ce_tunOpen E (s_TunName cfg) w = (o1, w1)" by fastforce
  obtain o2 w2 where o2: "Krot_Netif.IfUp (ce_sys E) (projr o1) (s_TunCIDR cfg) (s_MTU cfg) w1 = (o2, w2)" by fastforce
  obtain o3 w3 where o3: "SetupServerNAT (ce_sys E) (projr o1) (s_TunCIDR cfg) (s_WANIface cfg) w2 = (o3, w3)" by fastforce
  let ?os = "\<lparr>os_open = \<not> isl o1, os_ifup = \<not> isl o2, os_nat = \<not> isl o3\<rparr>"
  have "fst (server_New P cfg ?os) = map_sum id fst (fst (server_New_host P E cfg w))"
    using o1 o2 o3 by (cases o1; cases o2; cases o3)
      (simp_all add: server_New_def server_New_host_def split: sum.split option.split)
  then show ?thesis by (metis prod.collapse)
qed

section \<open>What is left of the server on the host\<close>

text \<open>
  \<open>R\<close> is the main routing table, \<open>M\<close> the iptables rules and \<open>I\<close> whether the host forwards IPv4.
  The device brings routes through itself only; the commands of the NAT set-up touch rules or
  forwarding and no route; no device is named -A.
\<close>

definition leaves_view :: "'w system \<Rightarrow> ('w \<Rightarrow> 'v) \<Rightarrow> bool" where
  "leaves_view S V \<longleftrightarrow>
     only_reads S V [''ip'', ''route'', ''show'', ''default''] \<and> (\<forall>args. only_reads S V (''iptables'' # args))"

abbreviation forward_on :: "string list" where
  "forward_on \<equiv> [''sysctl'', ''-w'', ''net.ipv4.ip_forward=1'']"

definition server_host_ok ::
  "'w client_env \<Rightarrow> ('w \<Rightarrow> routes) \<Rightarrow> ('w \<Rightarrow> ipt_rules) \<Rightarrow> ('w \<Rightarrow> bool) \<Rightarrow> string set \<Rightarrow> bool" where
  "server_host_ok E R M I A \<longleftrightarrow>
     device_ok E R {} A
   \<and> (\<forall>m w. M (snd (ce_tunOpen E m w)) = M w \<and> fst (ce_tunOpen E m w) \<noteq> Inr ''-A'')
   \<and> (\<forall>nm w. M (ce_devClose E nm w) = M w \<and> I (ce_devClose E nm w) = I w)
   \<and> (\<forall>nm. \<forall>args \<in> device_words A nm. only_reads (ce_sys E) M args)
   \<and> iptables_ok (ce_sys E) M \<and> (\<forall>w. fst (defaultWAN (ce_sys E) w) \<noteq> Inr ''-A'')
   \<and> leaves_view (ce_sys E) R \<and> leaves_view (ce_sys E) I
   \<and> only_reads (ce_sys E) R forward_on
   \<and> (\<forall>w out w'. exec (ce_sys E) forward_on w = (Inr out, w') \<longrightarrow> I w')"

lemma leaves_iptables:
  assumes "leaves_view S V"
  shows "V (try_run S (''iptables'' # args) w) = V w"
  unfolding try_run using assms unfolding leaves_view_def only_reads_def by blast

lemma Teardown_leaves:
  assumes "leaves_view S V"
  shows "V (snd (NATState_Teardown S rules w)) = V w"
  unfolding NATState_Teardown_def by (induction rules arbitrary: w) (simp_all add: leaves_iptables [OF assms])

lemma install_rules_leaves:
  assumes "leaves_view S V"
  shows "V (snd (install_rules S rs ds w)) = V w"
proof (induction rs arbitrary: ds w)
  case (Cons r rs)
  obtain q w1 where q: "run S (''iptables'' # r) w = (q, w1)" by fastforce
  with leaves_iptables [OF assms, of r w] have "V w1 = V w" by simp
  then show ?case by (cases q) (simp_all add: q Cons.IH Teardown_leaves [OF assms])
qed simp

lemma SetupServerNAT_leaves:
  assumes "leaves_view S V"
  shows "V (snd (SetupServerNAT S tun cidr wan w)) = V (try_run S forward_on w)"
    and "\<not> isl (fst (SetupServerNAT S tun cidr wan w)) \<Longrightarrow> \<not> isl (fst (run S forward_on w))"
proof -
  have d: "V (snd (defaultWAN S v)) = V v" for v
    unfolding defaultWAN_def using assms by (subst os_then_snd) (simp_all add: leaves_view_def only_reads_def)
  have "V (snd (os_then (if wan = [] then defaultWAN S v else (Inr wan, v)) (\<lambda>wan w. install_rules S (f wan) [] w))) = V v"
    for v f using install_rules_leaves [OF assms] d by (subst os_then_snd) simp_all
  then show "V (snd (SetupServerNAT S tun cidr wan w)) = V (try_run S forward_on w)"
    unfolding SetupServerNAT_def by (subst os_then_snd) (auto split: option.split)
  show "\<not> isl (fst (SetupServerNAT S tun cidr wan w)) \<Longrightarrow> \<not> isl (fst (run S forward_on w))"
    unfolding SetupServerNAT_def by (cases "run S forward_on w"; cases "fst (run S forward_on w)") simp_all
qed

lemma IfUp_leaves:
  assumes "\<forall>args \<in> device_words A nm. only_reads S V args" and "cidr \<in> A"
  shows "V (snd (Krot_Netif.IfUp S nm cidr mtu w)) = V w"
proof -
  have "V (try_run S args v) = V v" if "args \<in> device_words A nm" for args v
    unfolding try_run using assms(1) that unfolding only_reads_def by blast
  moreover have "[''ip'', ''addr'', ''add'', cidr, ''dev'', nm] \<in> device_words A nm"
    "[''ip'', ''link'', ''set'', ''dev'', nm, ''mtu'', k] \<in> device_words A nm"
    "[''ip'', ''link'', ''set'', ''dev'', nm, ''up''] \<in> device_words A nm" for k
    using assms(2) unfolding device_words_def by blast+
  ultimately show ?thesis unfolding Krot_Netif.IfUp_def by (simp add: os_then_snd)
qed

lemma devClose_view:
  assumes "server_host_ok E R M I A"
  shows "R (ce_devClose E nm w) = drop_dev nm (R w)" "M (ce_devClose E nm w) = M w" "I (ce_devClose E nm w) = I w"
  using assms by (simp_all add: server_host_ok_def device_ok_def)

lemma device_view:
  assumes ok: "server_host_ok E R M I A" and "cidr \<in> A"
    and o: "ce_tunOpen E m w = (Inr nm, w1)" "Krot_Netif.IfUp (ce_sys E) nm cidr mtu w1 = (r, w2)"
  shows "grows_by_dev {} nm (R w) (R w2)" "no_dev nm (R w)" "M w2 = M w" "nm \<noteq> ''-A''"
proof -
  note ok' = ok [unfolded server_host_ok_def]
  from ok' have dev: "device_ok E R {} A" by blast
  with o(1) have r1: "R w1 = R w" "no_dev nm (R w)" unfolding device_ok_def by (metis fst_conv snd_conv)+
  show "no_dev nm (R w)" by (rule r1)
  from ok' o(1) have m1: "M w1 = M w" "nm \<noteq> ''-A''" by (metis fst_conv snd_conv)+
  show "nm \<noteq> ''-A''" by (rule m1)
  show "grows_by_dev {} nm (R w) (R w2)" using IfUp_grows [OF dev assms(2), of nm w1 mtu] by (simp add: o r1)
  show "M w2 = M w" using IfUp_leaves [of A nm "ce_sys E" M, OF _ assms(2)] ok' o(2) m1(1) by (metis snd_conv)
qed

lemma nat_view:
  assumes ok: "server_host_ok E R M I A" and "nm \<noteq> ''-A''" "wan \<noteq> ''-A''"
    and n: "SetupServerNAT (ce_sys E) nm cidr wan w = (r, w')"
  shows "R w' = R w" "\<not> isl r \<Longrightarrow> I w'"
    and "case r of Inl e \<Rightarrow> M w' = M w
      | Inr st \<Rightarrow> length st = 3 \<and> M w' = M w + mset (map ipt_rule st)
          \<and> (\<forall>v. M v = M w' \<longrightarrow> M (snd (NATState_Teardown (ce_sys E) st v)) = M w)"
proof -
  note ok' = ok [unfolded server_host_ok_def]
  from ok' have lR: "leaves_view (ce_sys E) R" and lI: "leaves_view (ce_sys E) I" and ipt: "iptables_ok (ce_sys E) M"
    and d: "\<And>v. fst (defaultWAN (ce_sys E) v) \<noteq> Inr ''-A''"
    and fI: "\<And>v out v'. exec (ce_sys E) forward_on v = (Inr out, v') \<Longrightarrow> I v'" by blast+
  have "R (try_run (ce_sys E) forward_on v) = R v" for v
    unfolding try_run using ok' unfolding only_reads_def by blast
  with SetupServerNAT_leaves(1) [OF lR, of nm cidr wan w] n show "R w' = R w" by simp
  show "I w'" if "\<not> isl r"
  proof -
    from that n SetupServerNAT_leaves [OF lI, of nm cidr wan w]
    have "I w' = I (try_run (ce_sys E) forward_on w)" "\<not> isl (fst (run (ce_sys E) forward_on w))" by simp_all
    with fI [of w] show ?thesis by (auto simp: run_def split: prod.splits sum.splits)
  qed
  from server_nat_reverted [OF ipt assms(2,3) d, where cidr = cidr and w = w] n
  show "case r of Inl e \<Rightarrow> M w' = M w
      | Inr st \<Rightarrow> length st = 3 \<and> M w' = M w + mset (map ipt_rule st)
          \<and> (\<forall>v. M v = M w' \<longrightarrow> M (snd (NATState_Teardown (ce_sys E) st v)) = M w)"
    by (simp split: sum.splits)
qed

text \<open>When New has the device and its rules, exactly three rules are new, the new routes leave through
  the device and forwarding is on; when it fails nothing of it is left.\<close>

lemma New_host_view:
  assumes ok: "server_host_ok E R M I A" and cidr: "s_TunCIDR cfg \<in> A" and wan: "s_WANIface cfg \<noteq> ''-A''"
  shows "case server_New_host P E cfg w of
      (Inl e, w1) \<Rightarrow> R w1 = R w \<and> M w1 = M w
    | (Inr (sv, nm, rules), w1) \<Rightarrow>
        grows_by_dev {} nm (R w) (R w1) \<and> no_dev nm (R w) \<and> I w1 \<and> length rules = 3
        \<and> M w1 = M w + mset (map ipt_rule rules)
        \<and> (\<forall>v. M v = M w1 \<longrightarrow> M (snd (NATState_Teardown (ce_sys E) rules v)) = M w)"
proof -
  obtain o1 w1 where o1: "ce_tunOpen E (s_TunName cfg) w = (o1, w1)" by fastforce
  show ?thesis
  proof (cases o1)
    case (Inl e)
    have "R w1 = R w" "M w1 = M w"
      using ok [unfolded server_host_ok_def device_ok_def] o1 by (metis snd_conv)+
    then show ?thesis by (simp add: server_New_host_def o1 Inl split: sum.split option.split)
  next
    case (Inr nm)
    obtain o2 w2 where o2: "Krot_Netif.IfUp (ce_sys E) nm (s_TunCIDR cfg) (s_MTU cfg) w1 = (o2, w2)" by fastforce
    note d = device_view [OF ok cidr o1 [unfolded Inr] o2]
    note undo = drop_dev_undoes [OF d(1,2)] and closed = devClose_view [OF ok]
    obtain o3 w3 where o3: "SetupServerNAT (ce_sys E) nm (s_TunCIDR cfg) (s_WANIface cfg) w2 = (o3, w3)" by fastforce
    note n = nat_view [OF ok d(4) wan o3]
    show ?thesis using d undo n
      by (cases o2; cases o3)
        (simp_all add: server_New_host_def o1 Inr o2 o3 closed split: sum.split option.split)
  qed
qed

text \<open>Run itself leaves the host alone: what serving does is its only effect.\<close>

lemma server_Run_view:
  assumes "\<And>c h v. V (serve c h v) = V v"
  shows "V (snd (server_Run url T listens serve cfg sv w)) = V w"
  using assms by (simp add: server_Run_def split: sum.split option.split)

text \<open>C27. However the server process ends, the host's routing table and iptables rules are those from
  before it started: when New fails at any step, when Run fails or ends, and on a signal. While
  it runs exactly three rules are new. (The table and the rules are otherwise left alone
  meanwhile.) What stays is IPv4 forwarding, on once New has succeeded.\<close>

theorem server_leaves_no_trace:
  assumes ok: "server_host_ok E R M I A" and cfg: "s_TunCIDR cfg \<in> A" "s_WANIface cfg \<noteq> ''-A''"
    and quiet: "\<And>sv v. R (snd (until cfg sv v)) = R v \<and> M (snd (until cfg sv v)) = M v \<and> I (snd (until cfg sv v)) = I v"
    and n: "server_New_host P E cfg w = (r, w1)" and d: "server_daemon P E until cfg w = (res, w2)"
  shows "R w2 = R w \<and> M w2 = M w
    \<and> (\<forall>sv nm rules. r = Inr (sv, nm, rules) \<longrightarrow>
          length rules = 3 \<and> M w1 = M w + mset (map ipt_rule rules) \<and> I w2)"
proof (cases r)
  case (Inl e)
  with New_host_view [OF ok cfg, where P = P and w = w] n d show ?thesis by (auto simp: server_daemon_def)
next
  case (Inr t)
  then obtain sv nm rules where t: "r = Inr (sv, nm, rules)" by (cases t) auto
  obtain q v where q: "until cfg sv w1 = (q, v)" by fastforce
  with quiet [of sv w1] have v: "R v = R w1" "M v = M w1" "I v = I w1" by simp_all
  from New_host_view [OF ok cfg, where P = P and w = w] n t have h: "grows_by_dev {} nm (R w) (R w1)" "no_dev nm (R w)"
    "I w1" "length rules = 3" "M w1 = M w + mset (map ipt_rule rules)"
    "M (snd (NATState_Teardown (ce_sys E) rules v)) = M w" using v(2) by simp_all
  from d have w2: "w2 = ce_devClose E nm (snd (NATState_Teardown (ce_sys E) rules v))"
    by (simp add: server_daemon_def n t q Server_Close_def)
  have "leaves_view (ce_sys E) R" "leaves_view (ce_sys E) I" using ok unfolding server_host_ok_def by blast+
  note keep = Teardown_leaves [OF this(1)] Teardown_leaves [OF this(2)]
  show ?thesis using h by (simp add: w2 t devClose_view [OF ok] keep v drop_dev_undoes [OF h(1,2)])
qed

section \<open>A server on the sample host\<close>

lemma sample_defaultWAN: "defaultWAN sample_system v = (Inr ''eth0'', v)"
  by (simp add: defaultWAN_def runOut_def host_exec_def TrimSpace_def white_def)

lemma sample_server_host_ok: "server_host_ok sample_client_env h_main h_ipt h_forward A"
proof -
  have d: "only_reads sample_system h_ipt args" if "args \<in> device_words A nm" for args nm
    using that unfolding device_words_def only_reads_def
    by (elim UnE CollectE exE conjE singletonE) (simp_all add: host_exec_def)
  have l: "leaves_view sample_system h_main" "leaves_view sample_system h_forward"
    by (simp_all add: leaves_view_def only_reads_def host_exec_def Let_def)
  have f: "only_reads sample_system h_main forward_on"
    "\<And>w out w'. exec sample_system forward_on w = (Inr out, w') \<Longrightarrow> h_forward w'"
    by (auto simp: only_reads_def host_exec_def)
  have s: "ce_sys sample_client_env = sample_system" by (simp add: sample_client_env_def)
  show ?thesis unfolding server_host_ok_def s
    using d l f sample_iptables_ok sample_device_ok [of "{}" A]
    by (auto simp: sample_defaultWAN sample_client_env_def)
qed

definition sample_fields :: "server_cfg \<Rightarrow> bool" where
  "sample_fields cfg \<longleftrightarrow> s_PSK cfg = StdEncodeToString (sample_key 5)
     \<and> s_ServerPriv cfg = StdEncodeToString (sample_key 3) \<and> s_TunName cfg = ''krot0''
     \<and> s_TunCIDR cfg = ''10.8.0.1/29'' \<and> s_WANIface cfg = '''' \<and> s_MTU cfg = 1320"

lemma sample_New_host:
  assumes "sample_fields cfg" and "h_main h = Map.empty"
  obtains rules w1 where "server_New_host sample_prims sample_client_env cfg h = (Inr (sample_core, ''krot0'', rules), w1)"
proof -
  have k: "DecodePSK (StdEncodeToString (sample_key 5)) = Inr (sample_key 5)"
    "DecodeKey32 (StdEncodeToString (sample_key 3)) = Inr (sample_key 3)"
    by (simp_all add: DecodePSK_Inr DecodeKey32_Inr sample_key_def KeySize_def)
  have "\<exists>rules w1. SetupServerNAT sample_system ''krot0'' ''10.8.0.1/29'' '''' h = (Inr rules, w1)"
    by (simp add: SetupServerNAT_def sample_cidr sample_defaultWAN nat_rules_def run_def host_exec_def)
  then obtain rules w1 where i: "SetupServerNAT sample_system ''krot0'' ''10.8.0.1/29'' '''' h = (Inr rules, w1)"
    by blast
  have u: "Krot_Netif.IfUp sample_system ''krot0'' ''10.8.0.1/29'' 1320 h = (Inr (), h)"
    by (simp add: Krot_Netif.IfUp_def run_def host_exec_def)
  have n: "no_dev ''krot0'' (h_main h)" by (simp add: no_dev_def assms(2))
  have g: "sv_gw sample_core = IP_String (v4_in_v6 @ [10, 8, 0, 1])"
    using sample_New k sample_public [of 3]
    by (simp add: server_New_def sample_srv_cfg_def sample_pool sample_cidr sample_core_def)
  have "server_New_host sample_prims sample_client_env cfg h = (Inr (sample_core, ''krot0'', rules), w1)"
    using assms(1) k i u n g sample_public [of 3]
    by (simp add: server_New_host_def sample_fields_def sample_pool sample_cidr sample_cfg_fields sample_core_def)
  then show thesis by (rule that)
qed

lemma fresh_main: "h_main fresh_host = Map.empty"
  by (simp add: fresh_host_def)

lemma sample_srv_fields: "sample_fields sample_srv_cfg"
  by (simp add: sample_fields_def sample_srv_cfg_def)

theorem server_leaves_no_trace_witness:
  "\<exists>rules w1 w2. server_New_host sample_prims sample_client_env sample_srv_cfg fresh_host
       = (Inr (sample_core, ''krot0'', rules), w1) \<and> size (h_ipt w1) = 3
     \<and> server_daemon sample_prims sample_client_env (\<lambda>_ _ h. (None, h)) sample_srv_cfg fresh_host = (Inr (), w2)
     \<and> h_ipt w2 = {#} \<and> h_main w2 = Map.empty \<and> \<not> h_forward fresh_host \<and> h_forward w2"
proof -
  obtain rules w1 where n: "server_New_host sample_prims sample_client_env sample_srv_cfg fresh_host
      = (Inr (sample_core, ''krot0'', rules), w1)" by (rule sample_New_host [OF sample_srv_fields fresh_main])
  obtain w2 where d: "server_daemon sample_prims sample_client_env (\<lambda>_ _ h. (None, h)) sample_srv_cfg fresh_host
      = (Inr (), w2)" by (simp add: server_daemon_def n)
  have "s_TunCIDR sample_srv_cfg \<in> UNIV" "s_WANIface sample_srv_cfg \<noteq> ''-A''" by (simp_all add: sample_srv_cfg_def)
  from server_leaves_no_trace [OF sample_server_host_ok this _ n d] have
    "h_main w2 = h_main fresh_host" "h_ipt w2 = h_ipt fresh_host" "h_forward w2" "length rules = 3"
    "h_ipt w1 = h_ipt fresh_host + mset (map ipt_rule rules)" by simp_all
  moreover have "h_main fresh_host = Map.empty" "h_ipt fresh_host = {#}" "\<not> h_forward fresh_host"
    by (simp_all add: fresh_host_def)
  ultimately show ?thesis using n d by auto
qed

end
