(* ===== verification/Krot_Wizard.thy ===== *)
theory Krot_Wizard
  imports Krot_Ctl
begin

text \<open>
  cmd/krotctl/wizard.go: the dialogs that collect the flags of \<open>server up\<close> and \<open>client up\<close>, the
  question whether to apply them, and the dispatch on the role. The prompts are those of
  \<open>Krot_Prompt\<close>; None is a dialog that asks for ever. Which files exist is an argument of the
  dialogs, hints and banners are left out.
\<close>

section \<open>The dialogs\<close>

definition wiz_cert :: "string list \<Rightarrow> input \<Rightarrow> (string list \<times> input) option" where
  "wiz_cert args i =
     (let (real, i) = yesNo False i in
      if real then
        Option.bind (askRequired i) (\<lambda>(cert, i). Option.bind (askRequired i) (\<lambda>(key, i).
          Some (args @ [''-cert'', cert, ''-key'', key], i)))
      else Some (args @ [''-self-signed''], i))"

definition wiz_secrets :: "string list \<Rightarrow> input \<Rightarrow> (string list \<times> input) option" where
  "wiz_secrets args i =
     (let (fresh, i) = yesNo True i in
      if fresh then Some (args, i)
      else
        Option.bind (askRequired i) (\<lambda>(psk, i). Option.bind (askRequired i) (\<lambda>(priv, i).
          Some (args @ [''-psk'', psk, ''-priv'', priv], i))))"

definition wiz_force :: "bool \<Rightarrow> string list \<Rightarrow> input \<Rightarrow> string list \<times> input" where
  "wiz_force exists args i =
     (if exists then
        (let (over, i) = yesNo False i in (if over then args @ [''-force''] else args, i))
      else (args, i))"

definition wizard_server_args :: "bool \<Rightarrow> input \<Rightarrow> (string list \<times> input) option" where
  "wizard_server_args exists i =
     (let (sni, i) = ask ''en.wikipedia.org'' i;
          (listen, i) = ask '':443'' i;
          (decoy, i) = ask ''https://en.wikipedia.org'' i;
          (tunCIDR, i) = ask ''10.8.0.1/24'' i;
          (dns, i) = ask ''1.1.1.1'' i;
          (mtu, i) = ask ''1320'' i
      in Option.bind (wiz_cert [''-sni'', sni, ''-listen'', listen, ''-decoy'', decoy,
             ''-tun-cidr'', tunCIDR, ''-dns'', dns, ''-mtu'', mtu] i) (\<lambda>(args, i).
         Option.bind (wiz_secrets args i) (\<lambda>(args, i). Some (wiz_force exists args i))))"

definition wiz_socks :: "string \<Rightarrow> string list \<Rightarrow> input \<Rightarrow> string list \<times> input" where
  "wiz_socks mode args i =
     (if mode = ''socks'' then
        (let (addr, i) = ask ''127.0.0.1:1080'' i in (args @ [''-socks'', addr], i))
      else (args, i))"

definition wizard_client_args :: "(string \<Rightarrow> bool) \<Rightarrow> input \<Rightarrow> (string list \<times> input) option" where
  "wizard_client_args exists i =
     (let (name, i) = ask ''default'' i in
      Option.bind (choice [''full'', ''socks'', ''manual''] ''full'' i) (\<lambda>(mode, i).
      Option.bind (askRequired i) (\<lambda>(server, i).
      let (port, i) = ask ''443'' i in
      Option.bind (askRequired i) (\<lambda>(sni, i).
      Option.bind (askRequired i) (\<lambda>(path, i).
      Option.bind (askRequired i) (\<lambda>(psk, i).
      Option.bind (askRequired i) (\<lambda>(pub, i).
      let (chans, i) = ask ''4'' i;
          (mtu, i) = ask ''1320'' i;
          (insecure, i) = yesNo True i;
          args = [''-name'', name, ''-mode'', mode, ''-server'', server, ''-port'', port,
                  ''-sni'', sni, ''-path'', path, ''-psk'', psk, ''-server-pub'', pub,
                  ''-channels'', chans, ''-mtu'', mtu];
          (args, i) = wiz_socks mode (args @ [if insecure then ''-insecure'' else ''-insecure=false'']) i
      in Some (wiz_force (exists (clientCfgPath name)) args i))))))))"

section \<open>Applying\<close>

text \<open>It makes a reader of its own: what the dialog's reader has buffered is not in it. The result
  tells whether the command was run.\<close>

definition wizApply ::
  "'w ctl_system \<Rightarrow> ('w \<Rightarrow> (ctl_error + unit) \<times> 'w) \<Rightarrow> input \<Rightarrow> 'w \<Rightarrow> (ctl_error + bool) \<times> 'w" where
  "wizApply C apply_cmd i w =
     (if \<not> fst (yesNo True (newWiz (reads i))) then (Inr False, w)
      else if Geteuid C \<noteq> 0 then (Inl NotRoot, w)
      else os_then (apply_cmd w) (\<lambda>_ w. (Inr True, w)))"

definition wizardServer ::
  "prims \<Rightarrow> json_codec \<Rightarrow> 'w ctl_system \<Rightarrow> bytes \<Rightarrow> bytes option \<Rightarrow> bytes \<Rightarrow> input \<Rightarrow> 'w
     \<Rightarrow> ((ctl_error + bool) \<times> 'w) option" where
  "wizardServer P J C psk rnd pr i w =
     Option.bind (wizard_server_args (Stat C serverCfgPath w) i) (\<lambda>(args, i).
       Some (wizApply C (\<lambda>w. os_then (serverUp P J C psk rnd pr args w) (\<lambda>_ w. (Inr (), w))) i w))"

definition wizardClient ::
  "json_codec \<Rightarrow> 'w ctl_system \<Rightarrow> input \<Rightarrow> 'w \<Rightarrow> ((ctl_error + bool) \<times> 'w) option" where
  "wizardClient J C i w =
     Option.bind (wizard_client_args (\<lambda>p. Stat C p w) i) (\<lambda>(args, i).
       Some (wizApply C (clientUp J C args) i w))"

definition cmdWizard ::
  "prims \<Rightarrow> json_codec \<Rightarrow> 'w ctl_system \<Rightarrow> bytes \<Rightarrow> bytes option \<Rightarrow> bytes \<Rightarrow> string list \<Rightarrow> 'w
     \<Rightarrow> ((ctl_error + bool) \<times> 'w) option" where
  "cmdWizard P J C psk rnd pr stdin w =
     Option.bind (choice [''server'', ''client''] ''server'' (newWiz stdin)) (\<lambda>(role, i).
       if role = ''server'' then wizardServer P J C psk rnd pr i w
       else wizardClient J C i w)"

section \<open>The flags are the ones the commands accept\<close>

lemma plain_name_insecure [simp]: "plain_name ''insecure''" by (simp add: plain_name_def)

lemma parse_insecure_false:
  "flag_kind fs ''insecure'' = Some 2 \<Longrightarrow>
     flag_parse fs (''-insecure=false'' # args) = flag_parse (AList.update ''insecure'' (FBool False) fs) args"
  using flag_parse_bool_value [of "''insecure''" fs _ "''false''" False args] flag_kind_cases(3) [of fs "''insecure''"]
  by (fastforce simp: ParseBool_def)

lemma ask_not_Nil: "ask def i = (v, i') \<Longrightarrow> def \<noteq> [] \<Longrightarrow> v \<noteq> []"
  by (auto simp: ask_def Let_def split: prod.splits if_splits)

lemma askRequired_not_Nil: "askRequired i = Some (v, i') \<Longrightarrow> v \<noteq> []"
  using askRequired_returns [of i "(v, i')"] by simp

text \<open>The arguments of a client dialog, over its answers.\<close>

lemma wizard_client_args_Some:
  assumes "wizard_client_args ex i = Some (args, i')"
  obtains name mode server port sni path psk pub chans mtu insecure addr over where
    "args = [''-name'', name, ''-mode'', mode, ''-server'', server, ''-port'', port,
        ''-sni'', sni, ''-path'', path, ''-psk'', psk, ''-server-pub'', pub, ''-channels'', chans, ''-mtu'', mtu]
      @ [if insecure then ''-insecure'' else ''-insecure=false'']
      @ (if mode = ''socks'' then [''-socks'', addr] else []) @ (if over then [''-force''] else [])"
    "mode \<in> {''full'', ''socks'', ''manual''}" "name \<noteq> []" "server \<noteq> []" "sni \<noteq> []" "path \<noteq> []" "psk \<noteq> []" "pub \<noteq> []"
    "over \<longrightarrow> ex (clientCfgPath name)"
proof -
  obtain name i0 where n: "ask ''default'' i = (name, i0)" by fastforce
  from assms n obtain mode i1 where m: "choice [''full'', ''socks'', ''manual''] ''full'' i0 = Some (mode, i1)"
    by (auto simp: wizard_client_args_def bind_eq_Some_conv)
  from assms n m obtain server i2 where s: "askRequired i1 = Some (server, i2)"
    by (auto simp: wizard_client_args_def bind_eq_Some_conv)
  obtain port i3 where p: "ask ''443'' i2 = (port, i3)" by fastforce
  from assms n m s p obtain sni i4 path i5 psk i6 pub i7 where r: "askRequired i3 = Some (sni, i4)"
    "askRequired i4 = Some (path, i5)" "askRequired i5 = Some (psk, i6)" "askRequired i6 = Some (pub, i7)"
    by (auto simp: wizard_client_args_def bind_eq_Some_conv)
  obtain chans i8 mtu i9 insecure i10 where o: "ask ''4'' i7 = (chans, i8)" "ask ''1320'' i8 = (mtu, i9)"
    "yesNo True i9 = (insecure, i10)" by (metis surj_pair)
  let ?base = "[''-name'', name, ''-mode'', mode, ''-server'', server, ''-port'', port,
        ''-sni'', sni, ''-path'', path, ''-psk'', psk, ''-server-pub'', pub, ''-channels'', chans, ''-mtu'', mtu]
      @ [if insecure then ''-insecure'' else ''-insecure=false'']"
  obtain args1 i11 where a: "wiz_socks mode ?base i10 = (args1, i11)" by fastforce
  from a obtain addr where a1: "args1 = ?base @ (if mode = ''socks'' then [''-socks'', addr] else [])"
    by (cases "ask ''127.0.0.1:1080'' i10") (auto simp: wiz_socks_def split: if_splits)
  from assms n m s p r o a have "wiz_force (ex (clientCfgPath name)) args1 i11 = (args, i')"
    by (simp add: wizard_client_args_def)
  then obtain over where "args = args1 @ (if over then [''-force''] else [])" "over \<longrightarrow> ex (clientCfgPath name)"
    by (auto simp: wiz_force_def split: if_splits prod.splits)
  moreover have "mode \<in> {''full'', ''socks'', ''manual''}" using choice_returns [OF m] by simp
  ultimately show thesis
    using that a1 ask_not_Nil [OF n] askRequired_not_Nil s r by simp
qed

definition client_flags_of ::
  "string \<Rightarrow> string \<Rightarrow> string \<Rightarrow> int \<Rightarrow> string \<Rightarrow> string \<Rightarrow> string \<Rightarrow> string \<Rightarrow> int \<Rightarrow> int \<Rightarrow> bool \<Rightarrow> string \<Rightarrow> bool \<Rightarrow> flags" where
  "client_flags_of name mode server p sni path psk pub c m insecure addr over =
     (let fs = AList.update ''insecure'' (FBool insecure) (AList.update ''mtu'' (FInt m) (AList.update ''channels'' (FInt c)
         (AList.update ''server-pub'' (FStr pub) (AList.update ''psk'' (FStr psk) (AList.update ''path'' (FStr path)
         (AList.update ''sni'' (FStr sni) (AList.update ''port'' (FInt p) (AList.update ''server'' (FStr server)
         (AList.update ''mode'' (FStr mode) (AList.update ''name'' (FStr name) client_flags))))))))));
         fs = (if mode = ''socks'' then AList.update ''socks'' (FStr addr) fs else fs)
      in if over then AList.update ''force'' (FBool True) fs else fs)"

lemma client_dialog_parse:
  "flag_parse client_flags ([''-name'', name, ''-mode'', mode, ''-server'', server, ''-port'', port,
        ''-sni'', sni, ''-path'', path, ''-psk'', psk, ''-server-pub'', pub, ''-channels'', chans, ''-mtu'', mtu]
      @ [if insecure then ''-insecure'' else ''-insecure=false'']
      @ (if mode = ''socks'' then [''-socks'', addr] else []) @ (if over then [''-force''] else []))
   = (case ParseInt0 port of None \<Rightarrow> Inl (BadValue ''port'') | Some p \<Rightarrow>
      case ParseInt0 chans of None \<Rightarrow> Inl (BadValue ''channels'') | Some c \<Rightarrow>
      case ParseInt0 mtu of None \<Rightarrow> Inl (BadValue ''mtu'') | Some m \<Rightarrow>
        Inr (client_flags_of name mode server p sni path psk pub c m insecure addr over))"
  by (cases insecure; cases over; cases "mode = ''socks''")
    (simp_all add: flag_reads parse_insecure_false client_flags_of_def Let_def split: option.split)

lemma client_flags_of_reads:
  assumes "fs = client_flags_of name mode server p sni path psk pub c m insecure addr over"
  shows "flag_str fs ''name'' = name" "flag_str fs ''mode'' = mode" "flag_str fs ''server'' = server"
    "flag_str fs ''sni'' = sni" "flag_str fs ''path'' = path" "flag_str fs ''psk'' = psk"
    "flag_str fs ''server-pub'' = pub" "flag_bool fs ''force'' = over"
  using assms by (simp_all add: client_flags_of_def Let_def, simp add: flag_bool_def client_flags_def)


section \<open>Answers in a pipe\<close>

text \<open>A reader that has read everything there is keeps it; nothing comes back to the reads.\<close>

lemma read_string_used_up: "read_string b cs = (l, i) \<Longrightarrow> length cs \<le> 1 \<Longrightarrow> newline \<notin> set b \<Longrightarrow> reads i = []"
  by (cases cs) (auto split: if_splits prod.splits)

lemma ReadString_used_up: "ReadString i = (l, i') \<Longrightarrow> reads i = [] \<Longrightarrow> reads i' = []"
  by (auto simp: ReadString_def split: if_splits)

lemma ask_used_up: "ask def i = (v, i') \<Longrightarrow> reads i = [] \<Longrightarrow> reads i' = []"
  using ReadString_used_up by (fastforce simp: ask_def Let_def split: prod.splits)

lemma yesNo_used_up: "yesNo def i = (v, i') \<Longrightarrow> reads i = [] \<Longrightarrow> reads i' = []"
proof (induction "input_size i" arbitrary: i rule: less_induct)
  case less
  obtain l i1 where l: "ReadString i = (l, i1)" by fastforce
  let ?a = "ToLower (TrimSpace l)"
  have y: "yesNo def i = (if ?a = [] then (def, i1) else if ?a \<in> {''y'', ''yes''} then (True, i1)
      else if ?a \<in> {''n'', ''no''} then (False, i1) else yesNo def i1)"
    by (subst yesNo.simps) (simp add: l Let_def)
  note r = ReadString_used_up [OF l less(3)]
  show ?case
  proof (cases "?a \<in> {[], ''y'', ''yes'', ''n'', ''no''}")
    case True
    with less(2) have "i' = i1" unfolding y by (auto split: if_splits)
    with r show ?thesis by simp
  next
    case False
    then have "l \<noteq> []" by (auto simp: ToLower_def)
    with ReadString_size [OF l] have "input_size i1 < input_size i" by (cases l) auto
    moreover from False less(2) have "yesNo def i1 = (v, i')" unfolding y by simp
    ultimately show ?thesis using less(1) r by blast
  qed
qed

lemma askRequired_used_up:
  assumes "askRequired i = Some y" and "reads i = []"
  shows "reads (snd y) = []"
proof -
  have "reads i = [] \<longrightarrow> reads (snd y) = []"
  proof (rule askRequired.raw_induct [OF _ assms(1)])
    fix again i y
    assume ih: "\<And>i y. again i = Some y \<Longrightarrow> reads i = [] \<longrightarrow> reads (snd y) = []"
      and y: "(let (v, i') = ask [] i in if v \<noteq> [] then Some (v, i') else again i') = Some y"
    obtain v i1 where a: "ask [] i = (v, i1)" by fastforce
    show "reads i = [] \<longrightarrow> reads (snd y) = []"
      using y ih [of i1 y] ask_used_up [OF a] by (cases "v = []") (auto simp: a)
  qed
  with assms(2) show ?thesis by blast
qed

lemma choice_used_up:
  assumes "choice opts def i = Some y" and "reads i = []"
  shows "reads (snd y) = []"
proof -
  have "reads i = [] \<longrightarrow> reads (snd y) = []"
  proof (rule choice.raw_induct [OF _ assms(1)])
    fix again opts def i y
    assume ih: "\<And>opts def i y. again opts def i = Some y \<Longrightarrow> reads i = [] \<longrightarrow> reads (snd y) = []"
      and y: "(let (v, i') = ask def i in if v \<in> set opts then Some (v, i') else again opts def i') = Some y"
    obtain v i1 where a: "ask def i = (v, i1)" by fastforce
    show "reads i = [] \<longrightarrow> reads (snd y) = []"
      using y ih [of opts def i1 y] ask_used_up [OF a] by (cases "v \<in> set opts") (auto simp: a)
  qed
  with assms(2) show ?thesis by blast
qed

lemma required_used_up: "askRequired i = Some (v, i') \<Longrightarrow> reads i = [] \<Longrightarrow> reads i' = []"
  using askRequired_used_up [of i "(v, i')"] by simp

lemma cert_used_up: "wiz_cert args i = Some (args', i') \<Longrightarrow> reads i = [] \<Longrightarrow> reads i' = []"
  by (cases "yesNo False i")
    (auto simp: wiz_cert_def bind_eq_Some_conv split: if_splits dest!: yesNo_used_up required_used_up)

lemma secrets_used_up: "wiz_secrets args i = Some (args', i') \<Longrightarrow> reads i = [] \<Longrightarrow> reads i' = []"
  by (cases "yesNo True i")
    (auto simp: wiz_secrets_def bind_eq_Some_conv split: if_splits dest!: yesNo_used_up required_used_up)

lemma force_used_up: "wiz_force ex args i = (args', i') \<Longrightarrow> reads i = [] \<Longrightarrow> reads i' = []"
  by (cases "yesNo False i") (auto simp: wiz_force_def split: if_splits dest!: yesNo_used_up)

lemma socks_used_up: "wiz_socks mode args i = (args', i') \<Longrightarrow> reads i = [] \<Longrightarrow> reads i' = []"
  by (cases "ask ''127.0.0.1:1080'' i") (auto simp: wiz_socks_def split: if_splits dest!: ask_used_up)

lemma wizard_server_used_up:
  assumes "wizard_server_args ex i = Some (args, i')" and "reads i = []"
  shows "reads i' = []"
proof -
  obtain a1 i1 where 1: "ask ''en.wikipedia.org'' i = (a1, i1)" by fastforce
  obtain a2 i2 where 2: "ask '':443'' i1 = (a2, i2)" by fastforce
  obtain a3 i3 where 3: "ask ''https://en.wikipedia.org'' i2 = (a3, i3)" by fastforce
  obtain a4 i4 where 4: "ask ''10.8.0.1/24'' i3 = (a4, i4)" by fastforce
  obtain a5 i5 where 5: "ask ''1.1.1.1'' i4 = (a5, i5)" by fastforce
  obtain a6 i6 where 6: "ask ''1320'' i5 = (a6, i6)" by fastforce
  note r = assms(2) [THEN ask_used_up [OF 1], THEN ask_used_up [OF 2], THEN ask_used_up [OF 3],
      THEN ask_used_up [OF 4], THEN ask_used_up [OF 5], THEN ask_used_up [OF 6]]
  from assms(1) obtain b i7 c i8 d where c: "wiz_cert b i6 = Some (c, i7)" "wiz_secrets c i7 = Some (d, i8)"
    "wiz_force ex d i8 = (args, i')"
    by (auto simp: wizard_server_args_def 1 2 3 4 5 6 bind_eq_Some_conv)
  from r [THEN cert_used_up [OF c(1)], THEN secrets_used_up [OF c(2)], THEN force_used_up [OF c(3)]]
  show ?thesis .
qed

lemma wizard_client_used_up:
  assumes "wizard_client_args ex i = Some (args, i')" and "reads i = []"
  shows "reads i' = []"
proof -
  obtain name i0 where n: "ask ''default'' i = (name, i0)" by fastforce
  from assms(1) n obtain mode i1 where m: "choice [''full'', ''socks'', ''manual''] ''full'' i0 = Some (mode, i1)"
    by (auto simp: wizard_client_args_def bind_eq_Some_conv)
  from assms(1) n m obtain server i2 where s: "askRequired i1 = Some (server, i2)"
    by (auto simp: wizard_client_args_def bind_eq_Some_conv)
  obtain port i3 where p: "ask ''443'' i2 = (port, i3)" by fastforce
  from assms(1) n m s p obtain sni i4 path i5 psk i6 pub i7 where r: "askRequired i3 = Some (sni, i4)"
    "askRequired i4 = Some (path, i5)" "askRequired i5 = Some (psk, i6)" "askRequired i6 = Some (pub, i7)"
    by (auto simp: wizard_client_args_def bind_eq_Some_conv)
  obtain chans i8 mtu i9 insecure i10 where o: "ask ''4'' i7 = (chans, i8)" "ask ''1320'' i8 = (mtu, i9)"
    "yesNo True i9 = (insecure, i10)" by (metis surj_pair)
  from assms(1) n m s p r o obtain b c i11 where f: "wiz_socks mode b i10 = (c, i11)"
    "wiz_force (ex (clientCfgPath name)) c i11 = (args, i')"
    by (auto simp: wizard_client_args_def split: prod.splits)
  have "reads i1 = []" using choice_used_up [OF m] ask_used_up [OF n assms(2)] by simp
  from this [THEN required_used_up [OF s], THEN ask_used_up [OF p], THEN required_used_up [OF r(1)],
      THEN required_used_up [OF r(2)], THEN required_used_up [OF r(3)], THEN required_used_up [OF r(4)],
      THEN ask_used_up [OF o(1)], THEN ask_used_up [OF o(2)], THEN yesNo_used_up [OF o(3)],
      THEN socks_used_up [OF f(1)], THEN force_used_up [OF f(2)]]
  show ?thesis .
qed

lemma wizApply_used_up:
  assumes "reads i = []"
  shows "fst (wizApply C f i w) \<noteq> Inr False"
proof -
  from assms have "fst (yesNo True (newWiz (reads i)))"
    by (subst yesNo.simps) (simp add: newWiz_def ReadString_def ToLower_def)
  then show ?thesis by (cases "f w"; cases "fst (f w)") (auto simp: wizApply_def)
qed

lemma first_choice_used_up:
  assumes "choice opts def (newWiz [text]) = Some (v, i)"
  shows "reads i = []"
proof -
  obtain a i1 where a: "ask def (newWiz [text]) = (a, i1)" by fastforce
  have "reads i1 = []"
    using a read_string_used_up [of "[]" "[text]"]
    by (fastforce simp: ask_def newWiz_def ReadString_def Let_def split: prod.splits)
  moreover have "(if a \<in> set opts then Some (a, i1) else choice opts def i1) = Some (v, i)"
    using assms by (subst (asm) choice.simps) (simp add: a)
  ultimately show ?thesis using choice_used_up [of opts def i1 "(v, i)"] by (auto split: if_splits)
qed

text \<open>C38. Answers in a pipe are lost. When one read delivers the whole input, the dialog's reader has
  all of it, and the question whether to apply, which makes a reader of its own, finds the end
  of the input and takes its default: whatever the input says there, a wizard that ends
  has applied the setup (or failed at it), though its comment has it tested with answers in a
  pipe.\<close>

theorem piped_refusal_ignored:
  assumes "cmdWizard P J C psk rnd pr [text] w = Some (r, w')"
  shows "r \<noteq> Inr False"
proof -
  from assms obtain role i where i: "choice [''server'', ''client''] ''server'' (newWiz [text]) = Some (role, i)"
    and c: "(if role = ''server'' then wizardServer P J C psk rnd pr i w else wizardClient J C i w) = Some (r, w')"
    by (auto simp: cmdWizard_def bind_eq_Some_conv)
  note r = first_choice_used_up [OF i]
  from c have "(\<exists>args i'. wizard_server_args (Stat C serverCfgPath w) i = Some (args, i')
        \<and> wizApply C (\<lambda>w. os_then (serverUp P J C psk rnd pr args w) (\<lambda>_ w. (Inr (), w))) i' w = (r, w'))
      \<or> (\<exists>args i'. wizard_client_args (\<lambda>p. Stat C p w) i = Some (args, i')
        \<and> wizApply C (clientUp J C args) i' w = (r, w'))"
    by (auto simp: wizardServer_def wizardClient_def bind_eq_Some_conv split: if_splits)
  then show ?thesis
  proof (elim disjE exE conjE)
    fix args i'
    assume a: "wizard_server_args (Stat C serverCfgPath w) i = Some (args, i')"
      "wizApply C (\<lambda>w. os_then (serverUp P J C psk rnd pr args w) (\<lambda>_ w. (Inr (), w))) i' w = (r, w')"
    from wizApply_used_up [OF wizard_server_used_up [OF a(1) r]] a(2) show ?thesis by (metis fst_conv)
  next
    fix args i'
    assume a: "wizard_client_args (\<lambda>p. Stat C p w) i = Some (args, i')"
      "wizApply C (clientUp J C args) i' w = (r, w')"
    from wizApply_used_up [OF wizard_client_used_up [OF a(1) r]] a(2) show ?thesis by (metis fst_conv)
  qed
qed

section \<open>Two dialogs\<close>

definition sample_lines :: "string list \<Rightarrow> string" where
  "sample_lines ls = concat (map (\<lambda>l. l @ [newline]) ls)"

definition sample_dialog :: input where
  "sample_dialog = \<lparr>buffered = [], reads = map (\<lambda>l. l @ [newline])
     [[], ''socks'', ''5.5.5.5'', [], ''a.example'', ''/ws'', ''cHNr'', ''cHVi'', [], [], ''n'', []]\<rparr>"

lemma sample_dialog_args:
  "map_option fst (wizard_client_args (\<lambda>_. False) sample_dialog) = Some [''-name'', ''default'', ''-mode'', ''socks'',
     ''-server'', ''5.5.5.5'', ''-port'', ''443'', ''-sni'', ''a.example'', ''-path'', ''/ws'', ''-psk'', ''cHNr'',
     ''-server-pub'', ''cHVi'', ''-channels'', ''4'', ''-mtu'', ''1320'', ''-insecure=false'', ''-socks'', ''127.0.0.1:1080'']"
  by code_simp

lemma sample_piped_args:
  "map_option fst (choice [''server'', ''client''] ''server''
     (newWiz [sample_lines [''server'', [], [], [], [], [], [], [], [], ''n'']])) = Some ''server''"
  "Option.bind (choice [''server'', ''client''] ''server''
     (newWiz [sample_lines [''server'', [], [], [], [], [], [], [], [], ''n'']]))
     (\<lambda>(role, i). wizard_server_args False i) \<noteq> None"
  by code_simp+

definition bare_host :: host where
  "bare_host = fresh_host\<lparr>h_files := Map.empty\<rparr>"

lemma bare_host_files [simp]: "h_files bare_host = Map.empty"
  by (simp add: bare_host_def)


theorem piped_refusal_ignored_witness:
  "\<exists>r w'. cmdWizard sample_prims sample_json sample_ctl (sample_key 5) (Some (sample_key 3)) (replicate 6 1)
       [sample_lines [''server'', [], [], [], [], [], [], [], [], ''n'']] bare_host = Some (r, w') \<and> r \<noteq> Inr False"
proof -
  let ?text = "sample_lines [''server'', [], [], [], [], [], [], [], [], ''n'']"
  obtain i where c: "choice [''server'', ''client''] ''server'' (newWiz [?text]) = Some (''server'', i)"
    using sample_piped_args(1) by auto
  with sample_piped_args(2) obtain args i' where "wizard_server_args False i = Some (args, i')" by auto
  then have "wizard_server_args (Stat sample_ctl serverCfgPath bare_host) i = Some (args, i')" by simp
  with c obtain r w' where "cmdWizard sample_prims sample_json sample_ctl (sample_key 5) (Some (sample_key 3)) (replicate 6 1)
       [?text] bare_host = Some (r, w')"
    by (simp add: cmdWizard_def wizardServer_def) (metis surj_pair)
  with piped_refusal_ignored [OF this] show ?thesis by blast
qed

end
