(* ===== verification/Krot_Status.thy ===== *)
theory Krot_Status
  imports Krot_Ctl "HOL-Library.Sublist"
begin

text \<open>
  server status and client status of cmd/krotctl: what they report, one value for each line they
  print, its label as the constructor. They run commands and read the configuration; a command
  that fails stands with what it printed, which only svcActive looks at (\<open>systemctl is-active\<close>
  prints the state and fails when the unit is not active).
\<close>

section \<open>Reading what commands print\<close>

fun split_lines :: "string \<Rightarrow> string list" where
  "split_lines [] = [[]]"
| "split_lines (c # s) =
     (if [c] = nl then [] # split_lines s
      else case split_lines s of [] \<Rightarrow> [[c]] | l # ls \<Rightarrow> (c # l) # ls)"

text \<open>What follows the last colon, or a default.\<close>

definition after_colon :: "string \<Rightarrow> string \<Rightarrow> string" where
  "after_colon d s = (if CHR '':'' \<in> set s then rev (takeWhile (\<lambda>c. c \<noteq> CHR '':'') (rev s)) else d)"

definition svcActive_text :: "'w ctl_system \<Rightarrow> string \<Rightarrow> 'w \<Rightarrow> string \<times> 'w" where
  "svcActive_text C unit w =
     (case exec C [''systemctl'', ''is-active'', unit] w of
        (r, w1) \<Rightarrow>
          let s = TrimSpace (case r of Inl m \<Rightarrow> m | Inr out \<Rightarrow> out)
          in (if s = [] then ''unknown'' else s, w1))"

definition printCmd :: "'w ctl_system \<Rightarrow> string list \<Rightarrow> 'w \<Rightarrow> string \<times> 'w" where
  "printCmd C args w =
     (case exec C args w of
        (Inl m, w1) \<Rightarrow> (''n/a'', w1)
      | (Inr out, w1) \<Rightarrow>
          let s = TrimSpace out in (if s = [] then ''n/a'' else hd (split_lines s), w1))"

section \<open>The commands\<close>

datatype report =
    Instance string | Service string | NoConfig config_error | Listener string | Tun string
  | Nat string | Socks string | SrcRule string

text \<open>The lines of a command's output that satisfy \<open>p\<close>, none when it fails.\<close>

definition matching :: "'w ctl_system \<Rightarrow> string list \<Rightarrow> (string \<Rightarrow> bool) \<Rightarrow> 'w \<Rightarrow> string list \<times> 'w" where
  "matching C args p w =
     (case exec C args w of
        (Inl m, w1) \<Rightarrow> ([], w1)
      | (Inr out, w1) \<Rightarrow> (map TrimSpace (filter p (split_lines out)), w1))"

definition serverStatus :: "json_codec \<Rightarrow> 'w ctl_system \<Rightarrow> 'w \<Rightarrow> report list \<times> 'w" where
  "serverStatus J C w =
     (let (act, w1) = svcActive_text C serverUnit w;
          (tunName, listenPort, subnet) =
            (case LoadServerFile J C serverCfgPath w1 of
               Inl _ \<Rightarrow> (''krot0'', ''443'', [])
             | Inr cfg \<Rightarrow> (s_TunName cfg, after_colon ''443'' (s_Listen cfg), s_TunCIDR cfg));
          (ls, w2) = matching C [''ss'', ''-tlnp''] (sublist ('':'' @ listenPort @ '' '')) w1;
          (tun, w3) = printCmd C [''ip'', ''-br'', ''addr'', ''show'', tunName] w2;
          want = subnetMatch subnet;
          (ns, w4) = matching C [''iptables'', ''-t'', ''nat'', ''-S'', ''POSTROUTING'']
                       (\<lambda>ln. sublist ''MASQUERADE'' ln \<and> (want = [] \<or> sublist want ln)) w3
      in (Service act # map Listener ls @ Tun tun # map Nat ns, w4))"

definition clientStatus ::
  "json_codec \<Rightarrow> 'w ctl_system \<Rightarrow> string list \<Rightarrow> 'w \<Rightarrow> (ctl_error + report list) \<times> 'w" where
  "clientStatus J C args w =
     (case flag_parse [(''name'', FStr ''default'')] args of
        Inl e \<Rightarrow> (Inl (FlagExit e), w)
      | Inr fs \<Rightarrow>
          let nm = flag_str fs ''name'';
              (act, w1) = svcActive_text C (clientUnit nm) w;
              rs = [Instance nm, Service act]
          in (case LoadClientFile J C (clientCfgPath nm) w1 of
                Inl e \<Rightarrow> (Inr (rs @ [NoConfig e]), w1)
              | Inr cfg \<Rightarrow>
                  let (tun, w2) = printCmd C [''ip'', ''-br'', ''addr'', ''show'', c_TunName cfg] w1 in
                  if c_SocksListen cfg = [] then (Inr (rs @ [Tun tun]), w2)
                  else
                    let port = after_colon (c_SocksListen cfg) (c_SocksListen cfg);
                        (ls, w3) = matching C [''ss'', ''-tlnp''] (sublist ('':'' @ port @ '' '')) w2;
                        (rule, w4) = printCmd C [''sh'', ''-c'',
                          ''ip rule | grep '' @ [CHR 0x27] @ ''lookup '' @ c_SocksTable cfg @ [CHR 0x27] @ '' || echo none''] w3
                    in (Inr (rs @ Tun tun # map Socks ls @ [SrcRule rule]), w4)))"

section \<open>The rule of the server is found\<close>

fun unwords :: "string list \<Rightarrow> string" where
  "unwords [] = []"
| "unwords [x] = x"
| "unwords (x # xs) = x @ '' '' @ unwords xs"

lemma sublist_infix: "sublist m (l @ m @ r)"
  by (auto simp: sublist_def)

lemma install_rules_Inr: "install_rules S rs ds w = (Inr st, w') \<Longrightarrow> st = ds @ rs"
proof (induction rs arbitrary: ds w)
  case (Cons r rs)
  then show ?case by (cases "run S (''iptables'' # r) w"; cases "fst (run S (''iptables'' # r) w)") fastforce+
qed simp

lemma SetupServerNAT_rule:
  assumes "SetupServerNAT S tun cidr wan v = (Inr rules, v')"
  obtains dev where "drop 2 (hd rules) =
      [''-A'', ''POSTROUTING'', ''-s'', subnetMatch cidr, ''-o'', dev, ''-j'', ''MASQUERADE'']"
proof -
  from assms obtain a net dev v1 where p: "ParseCIDR cidr = Some (a, net)"
    and i: "install_rules S (nat_rules tun (IPNet_String net) dev) [] v1 = (Inr rules, v')"
    unfolding SetupServerNAT_def by (auto simp: os_then_Inr split: option.splits)
  have "cidr \<noteq> []" using p by (auto simp: ParseCIDR_def)
  with p have "subnetMatch cidr = IPNet_String net" by (simp add: subnetMatch_def)
  with install_rules_Inr [OF i] that [of dev] show thesis by (simp add: nat_rules_def)
qed

lemma unwords_rule:
  "sublist m (unwords [a, b, c, net, d, dev, e, m])" "sublist net (unwords [a, b, c, net, d, dev, e, m])"
proof -
  have "unwords [a, b, c, net, d, dev, e, m]
      = (a @ '' '' @ b @ '' '' @ c @ '' '' @ net @ '' '' @ d @ '' '' @ dev @ '' '' @ e @ '' '') @ m @ []"
    "unwords [a, b, c, net, d, dev, e, m]
      = (a @ '' '' @ b @ '' '' @ c @ '' '') @ net @ ('' '' @ d @ '' '' @ dev @ '' '' @ e @ '' '' @ m)" by simp_all
  then show "sublist m (unwords [a, b, c, net, d, dev, e, m])" "sublist net (unwords [a, b, c, net, d, dev, e, m])"
    using sublist_infix by metis+
qed

lemma svcActive_text_load:
  assumes "config_ok C F" and "svcActive_text C unit w = (act, w1)"
  shows "LoadServerFile J C serverCfgPath w1 = LoadServerFile J C serverCfgPath w"
proof -
  have "F w1 serverCfgPath = F w serverCfgPath"
    using config_systemctl(2) [OF assms(1), of serverCfgPath unit w] assms(2)
    by (auto simp: svcActive_def svcActive_text_def Let_def split: prod.splits)
  moreover from assms(1) have "ReadFile C f v = F v f" for f v unfolding config_ok_def by blast
  ultimately show ?thesis by (simp add: LoadServerFile_def loadJSON_def)
qed

text \<open>The status of a server that is set up shows its own rule: of the rules that iptables lists, those
  are reported that masquerade its subnet, and the one that SetupServerNAT installed is among
  them.\<close>

theorem status_shows_own_rule:
  assumes ok: "config_ok C F" and ld: "LoadServerFile J C serverCfgPath w = Inr cfg"
    and nat: "SetupServerNAT S tun (s_TunCIDR cfg) wan v = (Inr rules, v')"
    and out: "\<And>v. fst (exec C [''iptables'', ''-t'', ''nat'', ''-S'', ''POSTROUTING''] v) = Inr out"
    and listed: "unwords (drop 2 (hd rules)) \<in> set (split_lines out)"
    and st: "serverStatus J C w = (rs, w')"
  shows "Nat (TrimSpace (unwords (drop 2 (hd rules)))) \<in> set rs"
    and "Nat ln \<in> set rs \<Longrightarrow>
      \<exists>l \<in> set (split_lines out). ln = TrimSpace l \<and> sublist ''MASQUERADE'' l \<and> sublist (subnetMatch (s_TunCIDR cfg)) l"
proof -
  let ?want = "subnetMatch (s_TunCIDR cfg)"
  let ?p = "\<lambda>ln. sublist ''MASQUERADE'' ln \<and> (?want = [] \<or> sublist ?want ln)"
  obtain act w1 where a: "svcActive_text C serverUnit w = (act, w1)" by fastforce
  obtain ls w2 where l: "matching C [''ss'', ''-tlnp''] (sublist ('':'' @ after_colon ''443'' (s_Listen cfg) @ '' '')) w1
      = (ls, w2)" by fastforce
  obtain t w3 where t: "printCmd C [''ip'', ''-br'', ''addr'', ''show'', s_TunName cfg] w2 = (t, w3)" by fastforce
  obtain ns w4 where m: "matching C [''iptables'', ''-t'', ''nat'', ''-S'', ''POSTROUTING''] ?p w3 = (ns, w4)" by fastforce
  with out [of w3] have ns: "ns = map TrimSpace (filter ?p (split_lines out))"
    by (cases "exec C [''iptables'', ''-t'', ''nat'', ''-S'', ''POSTROUTING''] w3") (simp add: matching_def)
  have "serverStatus J C w = (Service act # map Listener ls @ Tun t # map Nat ns, w4)"
    unfolding serverStatus_def a Let_def prod.case svcActive_text_load [OF ok a] ld sum.case l t m ..
  with st ns have "rs = Service act # map Listener ls @ Tun t # map Nat (map TrimSpace (filter ?p (split_lines out)))"
    by simp
  then have nats: "Nat x \<in> set rs \<longleftrightarrow> (\<exists>l \<in> set (split_lines out). ?p l \<and> x = TrimSpace l)" for x by auto
  obtain dev where r: "drop 2 (hd rules) = [''-A'', ''POSTROUTING'', ''-s'', ?want, ''-o'', dev, ''-j'', ''MASQUERADE'']"
    by (rule SetupServerNAT_rule [OF nat])
  have "?p (unwords (drop 2 (hd rules)))" by (simp only: r unwords_rule simp_thms)
  with listed show "Nat (TrimSpace (unwords (drop 2 (hd rules)))) \<in> set rs" using nats by blast
  have "?want = [] \<Longrightarrow> sublist ?want l" for l by simp
  then show "Nat ln \<in> set rs \<Longrightarrow>
      \<exists>l \<in> set (split_lines out). ln = TrimSpace l \<and> sublist ''MASQUERADE'' l \<and> sublist ?want l" using nats by blast
qed

end
