(* ===== verification/Krot_Main.thy ===== *)
theory Krot_Main
  imports Krot_Daemon Krot_Wizard Krot_Status Krot_Probe
begin

text \<open>
  The programs: main of krotctl, krot-server, krot-client and of the tools as the exit status of the process and
  the state of the system then. Every flag set is ExitOnError: a bad flag ends the process with
  status 2, a request for help with 0, and log.Fatalf with 1. What is printed is left out.
\<close>

section \<open>Exit status\<close>

definition flag_exit :: "flag_error \<Rightarrow> nat" where
  "flag_exit e = (if e = HelpRequested then 0 else 2)"

definition ctl_exit :: "ctl_error + 'a \<Rightarrow> nat" where
  "ctl_exit r = (case r of Inl (FlagExit e) \<Rightarrow> flag_exit e | Inl _ \<Rightarrow> 1 | Inr _ \<Rightarrow> 0)"

definition serve_exit :: "serve_error + unit \<Rightarrow> nat" where
  "serve_exit r = (case r of Inl (ServeFlags e) \<Rightarrow> flag_exit e | Inl _ \<Rightarrow> 1 | Inr _ \<Rightarrow> 0)"

definition server_exit :: "server_cmd_error + unit \<Rightarrow> nat" where
  "server_exit r =
     (case r of Inl (ServerCtl e) \<Rightarrow> ctl_exit (Inl e :: ctl_error + unit)
      | Inl (ServerServe e) \<Rightarrow> serve_exit (Inl e) | Inr _ \<Rightarrow> 0)"

section \<open>The two daemons\<close>

definition krot_server_main ::
  "prims \<Rightarrow> json_codec \<Rightarrow> 'w ctl_system \<Rightarrow> 'w client_env
     \<Rightarrow> (server_cfg \<Rightarrow> server_core \<Rightarrow> 'w \<Rightarrow> run_end option \<times> 'w) \<Rightarrow> string list \<Rightarrow> 'w \<Rightarrow> nat \<times> 'w" where
  "krot_server_main P J C E until args w =
     (case flag_parse [(''config'', FStr ''/etc/krot/server.json'')] args of
        Inl e \<Rightarrow> (flag_exit e, w)
      | Inr fs \<Rightarrow>
     (case LoadServerFile J C (flag_str fs ''config'') w of
        Inl e \<Rightarrow> (1, w)
      | Inr cfg \<Rightarrow>
     (case server_New_host P E cfg w of
        (Inl e, w1) \<Rightarrow> (1, w1)
      | (Inr (sv, nm, rules), w1) \<Rightarrow> (0, Server_Close E nm rules (snd (until cfg sv w1))))))"

definition krot_client_main ::
  "prims \<Rightarrow> json_codec \<Rightarrow> 'w ctl_system \<Rightarrow> 'w client_env \<Rightarrow> dial_args \<Rightarrow> 'w between \<Rightarrow> string list \<Rightarrow> 'w
     \<Rightarrow> nat \<times> 'w" where
  "krot_client_main P J C E da go args w =
     (case flag_parse [(''config'', FStr ''/etc/krot/client.json'')] args of
        Inl e \<Rightarrow> (flag_exit e, w)
      | Inr fs \<Rightarrow>
     (case LoadClientFile J C (flag_str fs ''config'') w of
        Inl e \<Rightarrow> (1, w)
      | Inr cfg \<Rightarrow>
     (case Run P E da go cfg w of
        (Inl e, s) \<Rightarrow> (1, rn_host s)
      | (Inr _, s) \<Rightarrow> (0, rn_host s))))"

section \<open>The tools\<close>

text \<open>krot-probe: the exit status and the addresses printed; \<open>arrived\<close> are the packets of the tunnel
  within eight seconds. A panic would be status 2.\<close>

definition krot_probe_main ::
  "prims \<Rightarrow> json_codec \<Rightarrow> 'w ctl_system \<Rightarrow> dial_args \<Rightarrow> write_env \<Rightarrow> bytes list \<Rightarrow> string list \<Rightarrow> 'w
     \<Rightarrow> nat \<times> bytes list" where
  "krot_probe_main P J C da env arrived args w =
     (case flag_parse [(''config'', FStr ''probe.json'')] args of
        Inl e \<Rightarrow> (flag_exit e, [])
      | Inr fs \<Rightarrow>
     (case probe_query P da (loadJSON (unmarshal_client J) C (flag_str fs ''config'') w) of
        Inl e \<Rightarrow> (1, [])
      | Inr (t, query) \<Rightarrow>
     (case Tunnel_WritePacket query env t of
        (Inl e, t1) \<Rightarrow> (1, [])
      | (Inr c, t1) \<Rightarrow>
     (case probe_await arrived of
        None \<Rightarrow> (1, [])
      | Some p \<Rightarrow> (case parseDNSAnswers p of None \<Rightarrow> (2, []) | Some ans \<Rightarrow> (0, ans))))))"

text \<open>krot-keygen: the credentials it prints, none when the key pair cannot be made; they are those
  of krotctl keygen.\<close>

definition krot_keygen_main :: "prims \<Rightarrow> bytes \<Rightarrow> bytes option \<Rightarrow> bytes \<Rightarrow> secrets option" where
  "krot_keygen_main P psk rnd pathRand =
     (case GenerateKeypair P rnd of
        Inl e \<Rightarrow> None
      | Inr kp \<Rightarrow> Some \<lparr>sec_PSK = StdEncodeToString psk, sec_Priv = StdEncodeToString (Private kp),
          sec_Pub = StdEncodeToString (Public kp), sec_Path = ''/api/v2/'' @ RawURLEncodeToString pathRand\<rparr>)"

lemma krot_keygen_main_genSecrets:
  "krot_keygen_main P psk rnd pr = (case genSecrets P psk rnd pr of Inl _ \<Rightarrow> None | Inr s \<Rightarrow> Some s)"
  by (simp add: krot_keygen_main_def genSecrets_def split: sum.split)

lemma probe_await_None: "probe_await ps = None \<longleftrightarrow> (\<forall>p \<in> set ps. \<not> is_reply probe_dst p)"
  by (auto simp: probe_await_def find_None_iff)

text \<open>The probe ends with 0 exactly when it sent its query and a UDP packet of the resolver came back, else
  with 1, and never in a panic.\<close>

lemma probe_exit:
  assumes fs: "flag_parse [(''config'', FStr ''probe.json'')] args = Inr fs"
  shows "fst (krot_probe_main P J C da env arrived args w) =
    (case probe_query P da (loadJSON (unmarshal_client J) C (flag_str fs ''config'') w) of
       Inl e \<Rightarrow> 1
     | Inr (t, q) \<Rightarrow>
         if isl (fst (Tunnel_WritePacket q env t)) \<or> (\<forall>p \<in> set arrived. \<not> is_reply probe_dst p) then 1 else 0)"
proof (cases "probe_query P da (loadJSON (unmarshal_client J) C (flag_str fs ''config'') w)")
  case (Inr tq)
  obtain t q where tq: "tq = (t, q)" by fastforce
  obtain r t1 where r: "Tunnel_WritePacket q env t = (r, t1)" by fastforce
  show ?thesis
  proof (cases "probe_await arrived")
    case None
    then show ?thesis by (simp add: krot_probe_main_def fs Inr tq r probe_await_None [symmetric] split: sum.split)
  next
    case (Some p)
    obtain ans where "parseDNSAnswers p = Some ans" using parseDNSAnswers_total by blast
    with Some show ?thesis by (simp add: krot_probe_main_def fs Inr tq r probe_await_None [symmetric] split: sum.split)
  qed
qed (simp add: krot_probe_main_def fs)

section \<open>krotctl\<close>

text \<open>The wizard may ask for ever: then there is no exit status.\<close>

definition krotctl_main ::
  "prims \<Rightarrow> json_codec \<Rightarrow> 'w ctl_system \<Rightarrow> 'w client_env \<Rightarrow> dial_args \<Rightarrow> 'w between
     \<Rightarrow> (server_cfg \<Rightarrow> server_core \<Rightarrow> 'w \<Rightarrow> run_end option \<times> 'w)
     \<Rightarrow> bytes \<Rightarrow> bytes option \<Rightarrow> bytes \<Rightarrow> string list \<Rightarrow> string list \<Rightarrow> 'w \<Rightarrow> (nat \<times> 'w) option" where
  "krotctl_main P J C E da go until psk rnd pr stdin args w =
     (let wizard = map_option (apfst ctl_exit) (cmdWizard P J C psk rnd pr stdin w) in
      case args of
        [] \<Rightarrow> wizard
      | cmd # rest \<Rightarrow>
          if cmd \<in> {''wizard'', ''setup'', ''init''} then wizard
          else if cmd = ''keygen'' then Some (apfst ctl_exit (cmdKeygen P C psk rnd pr rest w))
          else if cmd = ''server'' then Some (apfst server_exit (cmdServer P J C E until psk rnd pr (snd \<circ> serverStatus J C) rest w))
          else if cmd = ''client'' then Some (apfst ctl_exit (cmdClient P J C E da go (\<lambda>args w. apfst (map_sum id (\<lambda>_. ())) (clientStatus J C args w)) rest w))
          else if cmd \<in> {''uninstall'', ''purge'', ''remove''} then Some (apfst ctl_exit (cmdUninstall C rest stdin w))
          else if cmd \<in> {''version'', ''-v'', ''--version'', ''help'', ''-h'', ''--help''} then Some (0, w)
          else Some (2, w))"

section \<open>The server and its supervisor\<close>

text \<open>C28. The two ways to run the server do the same to the host, but differ in how they report a
  server that failed after it had started (a port in use, a certificate that does not load, a
  listener that broke): krotctl server run exits with 1, krot-server with 0, which the unit of
  deploy/, with Restart=on-failure, takes for a clean stop. In all other cases the statuses
  agree, and 0 then means a signal or a request for help.\<close>

theorem failed_server_exits_zero:
  assumes "serverRun P J C E until args w = (r, w')"
  shows "\<exists>c. krotctl_main P J C E da go until psk rnd pr stdin (''server'' # ''run'' # args) w = Some (c, w')
    \<and> krot_server_main P J C E until args w = (if \<exists>e. r = Inl (ServeEnded e) then 0 else c, w')
    \<and> ((\<exists>e. r = Inl (ServeEnded e)) \<longrightarrow> c = 1)
    \<and> (c = 0 \<longleftrightarrow> r = Inr () \<or> r = Inl (ServeFlags HelpRequested))"
proof -
  have "krotctl_main P J C E da go until psk rnd pr stdin (''server'' # ''run'' # args) w = Some (serve_exit r, w')"
    using assms by (cases r) (simp_all add: krotctl_main_def cmdServer_def server_exit_def serve_exit_def)
  moreover have "krot_server_main P J C E until args w = (if \<exists>e. r = Inl (ServeEnded e) then 0 else serve_exit r, w')"
    using assms by (auto simp: krot_server_main_def serverRun_def server_daemon_def serve_exit_def serverCfgPath_def
        split: sum.splits prod.splits option.splits)
  moreover have "(\<exists>e. r = Inl (ServeEnded e)) \<longrightarrow> serve_exit r = 1" by (auto simp: serve_exit_def)
  moreover have "serve_exit r = 0 \<longleftrightarrow> r = Inr () \<or> r = Inl (ServeFlags HelpRequested)"
    by (auto simp: serve_exit_def flag_exit_def split: sum.splits serve_error.splits)
  ultimately show ?thesis by (intro exI [of _ "serve_exit r"] conjI)
qed

definition sample_served_host :: host where
  "sample_served_host = fresh_host\<lparr>h_files := [serverCfgPath \<mapsto> ''{}'']\<rparr>"

theorem failed_server_exits_zero_witness:
  "\<exists>w' w''. krot_server_main sample_prims (sample_json\<lparr>unmarshal_server := (\<lambda>_. Some sample_srv_cfg)\<rparr>) sample_ctl
       sample_client_env (\<lambda>_ _ h. (Some RunListen, h)) [] sample_served_host = (0, w')
     \<and> krotctl_main sample_prims (sample_json\<lparr>unmarshal_server := (\<lambda>_. Some sample_srv_cfg)\<rparr>) sample_ctl
       sample_client_env sample_dial_args (\<lambda>t h. (Inr (), t, h)) (\<lambda>_ _ h. (Some RunListen, h)) [] None [] []
       [''server'', ''run''] sample_served_host = Some (1, w'')"
proof -
  let ?J = "sample_json\<lparr>unmarshal_server := (\<lambda>_. Some sample_srv_cfg)\<rparr>"
  let ?until = "\<lambda>_ _ h. (Some RunListen, h)"
  define cfg where "cfg = Server_applyDefaults sample_srv_cfg"
  have f: "sample_fields cfg" "s_SelfSigned sample_srv_cfg"
    by (simp_all add: cfg_def sample_fields_def Server_applyDefaults_def Let_def sample_srv_cfg_def)
  have "DecodePSK (s_PSK sample_srv_cfg) = Inr (sample_key 5)" "DecodeKey32 (s_ServerPriv sample_srv_cfg) = Inr (sample_key 3)"
    using sample_srv_fields by (simp_all add: sample_fields_def DecodePSK_Inr DecodeKey32_Inr sample_key_def KeySize_def)
  with f(2) have ld: "LoadServerFile ?J sample_ctl serverCfgPath sample_served_host = Inr cfg"
    by (simp add: LoadServerFile_def loadJSON_def sample_served_host_def LoadServer_def Let_def cfg_def [symmetric])
  obtain rules w1 where n: "server_New_host sample_prims sample_client_env cfg sample_served_host
      = (Inr (sample_core, ''krot0'', rules), w1)"
    by (rule sample_New_host [OF f(1), of sample_served_host]) (simp_all add: sample_served_host_def fresh_main)
  have "fst (serverRun sample_prims ?J sample_ctl sample_client_env ?until [] sample_served_host)
      = Inl (ServeEnded RunListen)"
    by (simp add: serverRun_def flag_str_def ld server_daemon_def n)
  then obtain w' where r: "serverRun sample_prims ?J sample_ctl sample_client_env ?until [] sample_served_host
      = (Inl (ServeEnded RunListen), w')" by (metis prod.collapse)
  from failed_server_exits_zero [OF r] show ?thesis by auto
qed

end
