(* ===== verification/Spec2Isabelle.thy ===== *)
theory Spec2Isabelle
  imports Krot_Bond Krot_Serving Krot_Pumps Krot_Relay Krot_Probe Krot_Main
begin

text \<open>
  Verification development of KrotVPN, a VPN whose link is a TLS 1.3 session with WebSockets
  that carry sealed records.

  The program. A client (internal/transport/client.go) opens one or more channels to the
  server, each a WebSocket upgrade whose cookies carry an ephemeral key, a timestamp, a
  session id, a channel index and a MAC under the pre-shared key (handshake.go, wire.go). The
  server's HTTP handler (internal/transport/server.go) answers whoever cannot authenticate
  with a decoy, and groups authenticated channels by session id into a bonded tunnel
  (tunnel.go), which spreads packets over its channels by flow hash. A channel (conn.go) seals
  packets into padded records (internal/frame) with a counter-nonce AEAD stream
  (internal/crypto). The server (internal/server) leases each session a tunnel address from a
  pool and routes packets between its TUN device and the sessions' tunnels.

  The theories, in the order of the code.
  \<^item> \<open>Krot_Prelude\<close>: error monad and the big-endian integers of encoding/binary.
  \<^item> \<open>Go_Text\<close>, \<open>Go_Sha256\<close>, \<open>Go_Net\<close>, \<open>Go_Http\<close>: what the program uses of Go's standard
    library: strconv and base64; SHA-256 and HMAC; netip parsing and printing, ParseCIDR;
    cookies.
  \<^item> \<open>Krot_Link\<close>: the locales \<open>lockstep\<close> and \<open>lockstep_retry\<close>, a sender and a receiver that stay
    in step. They are interpreted for the AEAD stream, the record layer and the connection.
  \<^item> \<open>Krot_Crypto\<close>, \<open>Krot_Replay\<close>: internal/crypto/crypto.go. The ciphers are parameters
    (\<open>prims\<close>), their documented laws the predicates \<open>cipher_ok\<close>, \<open>chacha_ok\<close>, \<open>x25519_ok\<close>.
    The replay filter is an interpretation of the locale \<open>replay_guard\<close>.
  \<^item> \<open>Krot_Frame\<close>, \<open>Krot_Handshake\<close>, \<open>Krot_Conn\<close>: frame.go, handshake.go, conn.go.
  \<^item> \<open>Krot_Tunnel\<close>: tunnel.go, each operation as a function on the record \<open>tunnel\<close>;
    \<open>Krot_Bond\<close>: the same operations cut into the critical sections of their mutex, as a step
    relation over which the interleavings are quantified.
  \<^item> \<open>Krot_Wire\<close>, \<open>Krot_Handler\<close>, \<open>Krot_Dial\<close>: wire.go, server.go and client.go of
    internal/transport; \<open>Krot_Dial\<close> composes both ends.
  \<^item> \<open>Krot_Config\<close>: internal/config; \<open>Krot_Pool\<close> and \<open>Krot_Server\<close>: internal/server, the pool
    an interpretation of the locale \<open>addr_pool\<close>.
  \<^item> \<open>Krot_Serving\<close>: the running server as a step relation over requests, packets from the
    device, the turns of handleConn and the ends of tunnels; its invariant is that sessions
    hold distinct leases.
  \<^item> \<open>Krot_Socks\<close>: internal/socks: the handshake on the bytes of a connection, the replies and
    what becomes of a connection; \<open>Krot_Relay\<close>: its two copying goroutines, as a step relation.
  \<^item> \<open>Go_Os\<close>: the operating system as a parameter, a record of operations on a state of any
    type; \<open>Krot_Netif\<close>: internal/netif/netif_linux.go with the commands it runs; what those
    commands do are the predicates \<open>routing_ok\<close>, \<open>files_ok\<close>, \<open>policy_ok\<close> and \<open>iptables_ok\<close>, over views
    of the state, and a host on which all of them hold.
  \<^item> \<open>Krot_Client\<close>: internal/client: Run in its three modes, with the order of its deferred calls;
    \<open>Krot_Pumps\<close>: the goroutines it starts, as a step relation.
  \<^item> \<open>Go_Flag\<close>, \<open>Go_Path\<close>: the packages flag and path/filepath; \<open>Krot_Prompt\<close>: the prompts of
    wizard.go over a buffered reader; \<open>Krot_Ctl\<close> and \<open>Krot_Wizard\<close>: cmd/krotctl, the commands as
    functions of the arguments, the system and its state, with the law \<open>config_ok\<close> on files.
  \<^item> \<open>Krot_Daemon\<close>: server.New with its commands on the host, Run and Close, and the process around
    them (cmd/krotctl/server.go, cmd/krot-server); \<open>Krot_Status\<close>: what the status commands report;
    \<open>Krot_Probe\<close>: cmd/krot-probe, the DNS packet it sends through the tunnel and how it reads the
    reply; \<open>Krot_Main\<close>: main of krotctl, krot-server, krot-client and the tools with their exit
    status.

  How the parts meet. \<open>Krot_Dial\<close> joins the client's dialing to the server's handler and the two
  connections they make; \<open>Krot_Serving\<close> joins handler, tunnels and pool; \<open>Krot_Client\<close> joins
  dialing, the network setup and the proxy; \<open>Krot_Ctl\<close> joins the commands to the loaders, to
  Run and, through the credentials that server up prints, to the handler of the server;
  \<open>Krot_Daemon\<close> joins the server to the network setup (\<open>New_refines\<close> ties its New to that of
  \<open>Krot_Server\<close>), \<open>Krot_Probe\<close> its packet to the server's routing.

  What the lemmas show. Each component has the lemmas that its operations keep its invariant and
  what each of its branches yields; the theorems numbered C1, C2 and so on are the properties of
  the program. The witnesses behind them apply them to concrete inputs: sample ciphers, a
  sample host and a sample client.

  Bounds. Machine integers have their width (64-bit counters and timestamps, 32-bit addresses and
  hashes); Go's int is a bounded integer where it is parsed and unbounded else. No function has
  fuel: loops are recursive functions that are proved to end, but for the prompts that may ask
  for ever, which are partial functions into option with a theorem that says when they return.

  Not modelled. Making the certificate (internal/server/cert.go) and the TUN package only call
  libraries: they are parameters. So are the accept loops of the server and of the proxy, which
  start one handling per connection, and the waits for a signal. What the decoy answers is left out,
  and of what commands print all but credentials and the lines of the status commands; so is the
  tool krot-tlstest, which only calls the TLS library. A call of ServeHTTP is one step of the running server. encoding/json is a pair of functions, with
  the hypothesis that a configuration that was marshalled unmarshals to itself. Times are
  arguments; timeouts show as errors of the connections.
\<close>

end
